(* ===== verification/Py_Prelude.thy ===== *)
theory Py_Prelude
  imports Complex_Main "HOL-Library.AList" "HOL-Library.Multiset" "HOL-Library.Char_ord" "HOL-Library.List_Lexorder"
begin

text \<open>
  The shared base of the development: Python exceptions as values, results, a state and
  exception monad for code with effects, ordered dictionaries as association lists, and the
  proof automation (\<open>named_theorems\<close>) the component theories use.
\<close>

section \<open>Exceptions and results\<close>

text \<open>
  The exceptions the scripts raise or catch. JSONDecodeError, UnicodeDecodeError and CycleError
  are subclasses of ValueError in Python; SystemExit and KeyboardInterrupt are not subclasses
  of Exception.
\<close>

datatype exn =
    ValueError string
  | JSONDecodeError
  | UnicodeDecodeError
  | CycleError
  | KeyError string
  | IndexError
  | TypeError string
  | AttributeError string
  | FileNotFoundError string
  | OSError string
  | CalledProcessError "string list" int string string
  | RecursionError
  | TemplateSyntaxError int string
  | UndefinedError string
  | OtherError string
  | KeyboardInterrupt
  | SystemExit int

fun is_ValueError :: "exn \<Rightarrow> bool" where
  "is_ValueError (ValueError _) = True"
| "is_ValueError JSONDecodeError = True"
| "is_ValueError UnicodeDecodeError = True"
| "is_ValueError CycleError = True"
| "is_ValueError _ = False"

fun is_KeyError :: "exn \<Rightarrow> bool" where
  "is_KeyError (KeyError _) = True"
| "is_KeyError _ = False"

fun is_FileNotFound :: "exn \<Rightarrow> bool" where
  "is_FileNotFound (FileNotFoundError _) = True"
| "is_FileNotFound _ = False"

fun is_OSError :: "exn \<Rightarrow> bool" where
  "is_OSError (FileNotFoundError _) = True"
| "is_OSError (OSError _) = True"
| "is_OSError _ = False"

fun is_CalledProcessError :: "exn \<Rightarrow> bool" where
  "is_CalledProcessError (CalledProcessError _ _ _ _) = True"
| "is_CalledProcessError _ = False"

text \<open>What \<^verbatim>\<open>except Exception\<close> catches.\<close>

fun is_Exception :: "exn \<Rightarrow> bool" where
  "is_Exception KeyboardInterrupt = False"
| "is_Exception (SystemExit _) = False"
| "is_Exception _ = True"

type_synonym 'a res = "exn + 'a"

named_theorems res_simps \<open>unfolding the result and effect combinators\<close>

definition res_bind :: "'a res \<Rightarrow> ('a \<Rightarrow> 'b res) \<Rightarrow> 'b res" where
  [res_simps]: "res_bind r f = (case r of Inl e \<Rightarrow> Inl e | Inr x \<Rightarrow> f x)"

fun res_map :: "('a \<Rightarrow> 'b res) \<Rightarrow> 'a list \<Rightarrow> 'b list res" where
  "res_map f [] = Inr []"
| "res_map f (x # xs) = res_bind (f x) (\<lambda>y. res_bind (res_map f xs) (\<lambda>ys. Inr (y # ys)))"

text \<open>\<^verbatim>\<open>try/except\<close> on a result: the handler is partial, what it does not handle propagates.\<close>

definition res_catch :: "'a res \<Rightarrow> (exn \<Rightarrow> 'a res option) \<Rightarrow> 'a res" where
  [res_simps]: "res_catch r h =
     (case r of Inl e \<Rightarrow> (case h e of None \<Rightarrow> Inl e | Some r' \<Rightarrow> r') | Inr x \<Rightarrow> Inr x)"

text \<open>A \<^verbatim>\<open>for\<close> loop that threads an accumulator.\<close>

fun res_fold :: "('a \<Rightarrow> 's \<Rightarrow> 's res) \<Rightarrow> 'a list \<Rightarrow> 's \<Rightarrow> 's res" where
  "res_fold f [] s = Inr s"
| "res_fold f (x # xs) s = res_bind (f x s) (\<lambda>s'. res_fold f xs s')"

text \<open>A \<^verbatim>\<open>for\<close> loop whose body only checks.\<close>

fun res_for :: "('a \<Rightarrow> unit res) \<Rightarrow> 'a list \<Rightarrow> unit res" where
  "res_for f [] = Inr ()"
| "res_for f (x # xs) = res_bind (f x) (\<lambda>_. res_for f xs)"

lemma res_bind_simps [simp]:
  "res_bind (Inr x) f = f x"
  "res_bind (Inl e) f = Inl e"
  by (simp_all add: res_bind_def)

lemma res_bind_Inr_iff [simp]:
  "res_bind r f = Inr y \<longleftrightarrow> (\<exists>x. r = Inr x \<and> f x = Inr y)"
  by (cases r) auto

lemma res_bind_Inl_iff:
  "res_bind r f = Inl e \<longleftrightarrow> r = Inl e \<or> (\<exists>x. r = Inr x \<and> f x = Inl e)"
  by (cases r) auto

lemma res_bind_cong [fundef_cong]:
  "r = r' \<Longrightarrow> (\<And>x. r' = Inr x \<Longrightarrow> f x = g x) \<Longrightarrow> res_bind r f = res_bind r' g"
  by (cases r') auto

lemma res_map_cong [fundef_cong]:
  "xs = ys \<Longrightarrow> (\<And>x. x \<in> set ys \<Longrightarrow> f x = g x) \<Longrightarrow> res_map f xs = res_map g ys"
proof (induction ys arbitrary: xs)
  case Nil
  then show ?case by simp
next
  case (Cons y ys)
  have "res_map f ys = res_map g ys" using Cons by auto
  with Cons.prems show ?case by simp
qed

lemma res_catch_simps [simp]:
  "res_catch (Inr x) h = Inr x"
  "res_catch (Inl e) h = (case h e of None \<Rightarrow> Inl e | Some r' \<Rightarrow> r')"
  by (simp_all add: res_catch_def)

lemma res_fold_cong [fundef_cong]:
  "xs = ys \<Longrightarrow> s = t \<Longrightarrow> (\<And>x s. x \<in> set ys \<Longrightarrow> f x s = g x s) \<Longrightarrow> res_fold f xs s = res_fold g ys t"
proof (induction ys arbitrary: xs s t)
  case (Cons y ys)
  have "res_fold f ys = res_fold g ys" by (rule ext, rule Cons.IH) (use Cons.prems in auto)
  with Cons.prems show ?case by simp
qed simp

lemma res_fold_append:
  "res_fold f (xs @ ys) s = res_bind (res_fold f xs s) (res_fold f ys)"
  by (induction xs arbitrary: s) (auto simp: res_bind_def split: sum.splits)

lemma res_fold_invariant:
  assumes "res_fold f xs s = Inr t" and "P s"
    and "\<And>x s s'. x \<in> set xs \<Longrightarrow> P s \<Longrightarrow> f x s = Inr s' \<Longrightarrow> P s'"
  shows "P t"
  using assms
proof (induction xs arbitrary: s)
  case (Cons x xs)
  from Cons.prems(1) obtain s' where s': "f x s = Inr s'" "res_fold f xs s' = Inr t" by auto
  have "P s'" by (rule Cons.prems(3) [OF _ Cons.prems(2) s'(1)]) simp
  with s'(2) show ?case by (rule Cons.IH) (use Cons.prems(3) in auto)
qed simp

lemma res_for_cong [fundef_cong]:
  "xs = ys \<Longrightarrow> (\<And>x. x \<in> set ys \<Longrightarrow> f x = g x) \<Longrightarrow> res_for f xs = res_for g ys"
proof (induction ys arbitrary: xs)
  case (Cons y ys)
  have "res_for f ys = res_for g ys" using Cons by auto
  with Cons.prems show ?case by simp
qed simp

lemma res_for_Inr_iff: "res_for f xs = Inr () \<longleftrightarrow> (\<forall>x \<in> set xs. f x = Inr ())"
  by (induction xs) auto

lemma res_for_InlD: "res_for f xs = Inl e \<Longrightarrow> \<exists>x \<in> set xs. f x = Inl e"
  by (induction xs) (auto simp: res_bind_Inl_iff)

lemma unit_res_cases: "r = Inr () \<or> (\<exists>e. r = Inl e)" for r :: "unit res"
  by (cases r) auto

lemma res_map_Inr:
  "(\<And>x. x \<in> set xs \<Longrightarrow> f x = Inr (g x)) \<Longrightarrow> res_map f xs = Inr (map g xs)"
  by (induction xs) auto

lemma res_map_InrD:
  "res_map f xs = Inr ys \<Longrightarrow> length ys = length xs \<and> (\<forall>x \<in> set xs. \<exists>y \<in> set ys. f x = Inr y)"
  by (induction xs arbitrary: ys) fastforce+

section \<open>Effects: a state and exception monad\<close>

text \<open>
  Code with effects takes the state of the world and returns its result and the new state; an
  exception keeps the state reached when it was raised. The combinators are sequencing,
  \<^verbatim>\<open>try/except\<close>, \<^verbatim>\<open>try/finally\<close> and a \<^verbatim>\<open>for\<close> loop.
\<close>

type_synonym ('w, 'a) io = "'w \<Rightarrow> 'a res \<times> 'w"

definition io_return :: "'a \<Rightarrow> ('w, 'a) io" where
  [res_simps]: "io_return x = (\<lambda>w. (Inr x, w))"

definition io_raise :: "exn \<Rightarrow> ('w, 'a) io" where
  [res_simps]: "io_raise e = (\<lambda>w. (Inl e, w))"

definition io_bind :: "('w, 'a) io \<Rightarrow> ('a \<Rightarrow> ('w, 'b) io) \<Rightarrow> ('w, 'b) io" where
  [res_simps]: "io_bind m f = (\<lambda>w. case m w of (Inl e, w') \<Rightarrow> (Inl e, w') | (Inr x, w') \<Rightarrow> f x w')"

definition io_lift :: "'a res \<Rightarrow> ('w, 'a) io" where
  [res_simps]: "io_lift r = (\<lambda>w. (r, w))"

text \<open>\<open>io_catch m h\<close>: the handler \<open>h\<close> is partial; an exception it does not handle propagates.\<close>

definition io_catch :: "('w, 'a) io \<Rightarrow> (exn \<Rightarrow> ('w, 'a) io option) \<Rightarrow> ('w, 'a) io" where
  [res_simps]: "io_catch m h = (\<lambda>w. case m w of
      (Inl e, w') \<Rightarrow> (case h e of None \<Rightarrow> (Inl e, w') | Some k \<Rightarrow> k w')
    | (Inr x, w') \<Rightarrow> (Inr x, w'))"

definition io_finally :: "('w, 'a) io \<Rightarrow> ('w, unit) io \<Rightarrow> ('w, 'a) io" where
  [res_simps]: "io_finally m fin = (\<lambda>w. case m w of
      (r, w') \<Rightarrow> (case fin w' of (Inl e, w'') \<Rightarrow> (Inl e, w'') | (Inr _, w'') \<Rightarrow> (r, w'')))"

fun io_for :: "'a list \<Rightarrow> ('a \<Rightarrow> ('w, unit) io) \<Rightarrow> ('w, unit) io" where
  "io_for [] f = io_return ()"
| "io_for (x # xs) f = io_bind (f x) (\<lambda>_. io_for xs f)"

lemma io_bind_return [simp]: "io_bind (io_return x) f = f x"
  by (simp add: res_simps)

lemma io_bind_raise [simp]: "io_bind (io_raise e) f = io_raise e"
  by (simp add: res_simps)

lemma io_bind_lift [simp]:
  "io_bind (io_lift (Inr x)) f = f x" "io_bind (io_lift (Inl e)) f = io_raise e"
  by (simp_all add: res_simps)

lemma io_bind_apply: "m w = (Inr x, w') \<Longrightarrow> io_bind m f w = f x w'"
  by (simp add: res_simps)

lemma io_bind_apply_Inl: "m w = (Inl e, w') \<Longrightarrow> io_bind m f w = (Inl e, w')"
  by (simp add: res_simps)

lemma io_bind_InrE:
  assumes "io_bind m f w = (Inr y, w'')"
  obtains x w' where "m w = (Inr x, w')" and "f x w' = (Inr y, w'')"
  using assms by (auto simp: io_bind_def split: prod.splits sum.splits)

text \<open>
  An invariant of the state: a property of the initial and final state that every part of a
  program keeps. The rules follow the combinators, so a program's frame or safety property is a
  chain of rule applications.
\<close>

definition keeps :: "('w \<Rightarrow> 'w \<Rightarrow> bool) \<Rightarrow> ('w, 'a) io \<Rightarrow> bool" where
  "keeps R m \<longleftrightarrow> (\<forall>w. R w (snd (m w)))"

named_theorems keeps_intros \<open>state relations kept by the effect combinators\<close>

lemma keepsD: "keeps R m \<Longrightarrow> m w = (r, w') \<Longrightarrow> R w w'"
  unfolding keeps_def by (metis snd_conv)

locale state_rel =
  fixes R :: "'w \<Rightarrow> 'w \<Rightarrow> bool"
  assumes R_refl: "R w w"
    and R_trans: "R u v \<Longrightarrow> R v w \<Longrightarrow> R u w"
begin

lemma keeps_return: "keeps R (io_return x)"
  by (simp add: keeps_def io_return_def R_refl)

lemma keeps_raise: "keeps R (io_raise e)"
  by (simp add: keeps_def io_raise_def R_refl)

lemma keeps_lift: "keeps R (io_lift r)"
  by (simp add: keeps_def io_lift_def R_refl)

lemma keeps_bind:
  assumes m: "keeps R m" and f: "\<And>x. keeps R (f x)"
  shows "keeps R (io_bind m f)"
  unfolding keeps_def
proof
  fix w
  obtain r w' where mw: "m w = (r, w')" by fastforce
  have 1: "R w w'" using keepsD [OF m mw] .
  have 2: "R w' (snd (f x w'))" for x using f [of x] by (simp add: keeps_def)
  show "R w (snd (io_bind m f w))"
    using 1 2 R_trans by (cases r) (auto simp: io_bind_def mw)
qed

lemma keeps_catch:
  assumes m: "keeps R m" and h: "\<And>e k. h e = Some k \<Longrightarrow> keeps R k"
  shows "keeps R (io_catch m h)"
  unfolding keeps_def
proof
  fix w
  obtain r w' where mw: "m w = (r, w')" by fastforce
  have 1: "R w w'" using keepsD [OF m mw] .
  show "R w (snd (io_catch m h w))"
  proof (cases r)
    case (Inl e)
    then show ?thesis
      using 1 h [of e] R_trans by (auto simp: io_catch_def mw keeps_def split: option.splits)
  qed (simp add: io_catch_def mw 1)
qed

lemma keeps_finally:
  assumes m: "keeps R m" and fin: "keeps R fin"
  shows "keeps R (io_finally m fin)"
  unfolding keeps_def
proof
  fix w
  obtain r w' where mw: "m w = (r, w')" by fastforce
  obtain q w'' where fw: "fin w' = (q, w'')" by fastforce
  have "R w w''" using R_trans [OF keepsD [OF m mw] keepsD [OF fin fw]] .
  then show "R w (snd (io_finally m fin w))"
    by (cases q) (simp_all add: io_finally_def mw fw)
qed

lemma keeps_for: "(\<And>x. x \<in> set xs \<Longrightarrow> keeps R (f x)) \<Longrightarrow> keeps R (io_for xs f)"
  by (induction xs) (simp_all add: keeps_return keeps_bind)

lemmas keeps_rules = keeps_return keeps_raise keeps_lift keeps_bind keeps_catch keeps_finally
  keeps_for

end

text \<open>The relation that matters for every component: the equality of a part of the state.\<close>

definition same_part :: "('w \<Rightarrow> 'p) \<Rightarrow> 'w \<Rightarrow> 'w \<Rightarrow> bool" where
  "same_part p w w' \<longleftrightarrow> p w' = p w"

interpretation same_part: state_rel "same_part p"
  by unfold_locales (auto simp: same_part_def)

section \<open>Ordered dictionaries\<close>

text \<open>
  A Python dict keeps insertion order: assigning an existing key keeps its position, a new key
  goes to the end. \<^const>\<open>AList.update\<close> does exactly that.
\<close>

type_synonym 'v dict = "(string \<times> 'v) list"

definition dict_keys :: "'v dict \<Rightarrow> string list" where
  "dict_keys d = map fst d"

definition dict_values :: "'v dict \<Rightarrow> 'v list" where
  "dict_values d = map snd d"

definition dict_has :: "string \<Rightarrow> 'v dict \<Rightarrow> bool" where
  "dict_has k d \<longleftrightarrow> k \<in> set (dict_keys d)"

definition dict_merge :: "'v dict \<Rightarrow> 'v dict \<Rightarrow> 'v dict" where
  "dict_merge d e = fold (\<lambda>(k, v) acc. AList.update k v acc) e d"

text \<open>\<open>d[k]\<close>, which raises KeyError.\<close>

definition dict_item :: "'v dict \<Rightarrow> string \<Rightarrow> 'v res" where
  "dict_item d k = (case map_of d k of None \<Rightarrow> Inl (KeyError k) | Some v \<Rightarrow> Inr v)"

lemma dict_has_iff [simp]: "dict_has k d \<longleftrightarrow> (\<exists>v. map_of d k = Some v)"
proof -
  have "dict_has k d \<longleftrightarrow> map_of d k \<noteq> None"
    by (simp add: dict_has_def dict_keys_def map_of_eq_None_iff)
  then show ?thesis by auto
qed

lemma distinct_keys_merge:
  "distinct (map fst d) \<Longrightarrow> distinct (map fst (dict_merge d e))"
  unfolding dict_merge_def
  by (induction e arbitrary: d) (auto simp: distinct_update)

lemma map_of_merge:
  "map_of (dict_merge d e) = fold (\<lambda>(k, v) m. m(k \<mapsto> v)) e (map_of d)"
  unfolding dict_merge_def
  by (induction e arbitrary: d) (auto simp: update_conv')

lemma fold_map_upd_None:
  "fold (\<lambda>(k, v) m. m(k \<mapsto> v)) e m k = None \<longleftrightarrow> k \<notin> fst ` set e \<and> m k = None"
  by (induction e arbitrary: m) (auto split: if_splits)

lemma fold_map_upd_other:
  "k \<notin> fst ` set e \<Longrightarrow> fold (\<lambda>(k, v) m. m(k \<mapsto> v)) e m k = m k"
  by (induction e arbitrary: m) auto

section \<open>Lists\<close>

lemma length_filter_mono:
  "(\<And>x. x \<in> set xs \<Longrightarrow> P x \<Longrightarrow> Q x) \<Longrightarrow> length (filter P xs) \<le> length (filter Q xs)"
  by (induction xs) (auto simp: le_SucI)

lemma length_filter_strict_mono:
  assumes "\<And>x. x \<in> set xs \<Longrightarrow> P x \<Longrightarrow> Q x" and "y \<in> set xs" and "Q y" and "\<not> P y"
  shows "length (filter P xs) < length (filter Q xs)"
proof -
  obtain as bs where xs: "xs = as @ y # bs" using split_list [OF assms(2)] by blast
  have "length (filter P as) \<le> length (filter Q as)" "length (filter P bs) \<le> length (filter Q bs)"
    using assms(1) by (auto simp: xs intro: length_filter_mono)
  then show ?thesis using assms(3,4) by (simp add: xs)
qed

lemma sort_mset_eq:
  fixes xs ys :: "'a::linorder list"
  assumes "mset xs = mset ys"
  shows "sort xs = sort ys"
  by (rule properties_for_sort) (simp_all add: assms)

end
