(* ===== verification/Py_Text.thy ===== *)
theory Py_Text
  imports Py_Prelude
begin

text \<open>
  Python strings and the string operations the scripts use. A Python \<^verbatim>\<open>str\<close> is represented by
  its UTF-8 encoding, one \<^typ>\<open>char\<close> per byte: concatenation, comparison, splitting at ASCII
  separators and \<^verbatim>\<open>encode("utf-8")\<close> are the operations on the byte list, while \<^verbatim>\<open>len\<close>, slices and
  \<^verbatim>\<open>strip\<close> work on the code points (\<open>cps\<close>).
\<close>

section \<open>Code points\<close>

definition is_cont :: "char \<Rightarrow> bool" where
  "is_cont c \<longleftrightarrow> 128 \<le> (of_char c :: nat) \<and> (of_char c :: nat) < 192"

definition is_ascii :: "char \<Rightarrow> bool" where
  "is_ascii c \<longleftrightarrow> (of_char c :: nat) < 128"

function cps :: "string \<Rightarrow> string list" where
  "cps [] = []"
| "cps (c # cs) = (c # takeWhile is_cont cs) # cps (dropWhile is_cont cs)"
  by pat_completeness auto
termination
  by (relation "measure length") (auto simp: le_imp_less_Suc length_dropWhile_le)

definition py_len :: "string \<Rightarrow> nat" where
  "py_len s = length (cps s)"

lemma concat_cps [simp]: "concat (cps s) = s"
  by (induction s rule: cps.induct) auto

lemma ascii_not_cont: "is_ascii c \<Longrightarrow> \<not> is_cont c"
  by (simp add: is_ascii_def is_cont_def)

lemma cps_ascii: "list_all is_ascii s \<Longrightarrow> cps s = map (\<lambda>c. [c]) s"
proof (induction s)
  case (Cons c s)
  have "takeWhile is_cont s = [] \<and> dropWhile is_cont s = s"
    using Cons.prems by (cases s) (auto dest: ascii_not_cont)
  with Cons show ?case by simp
qed simp

lemma py_len_ascii: "list_all is_ascii s \<Longrightarrow> py_len s = length s"
  by (simp add: py_len_def cps_ascii)

text \<open>Appending after a code point boundary.\<close>

lemma takeWhile_dropWhile_append:
  assumes "t \<noteq> [] \<longrightarrow> \<not> P (hd t)"
  shows "takeWhile P (s @ t) = takeWhile P s \<and> dropWhile P (s @ t) = dropWhile P s @ t"
  using assms by (induction s) (cases t; auto)+

lemma cps_append:
  "(t \<noteq> [] \<Longrightarrow> \<not> is_cont (hd t)) \<Longrightarrow> cps (s @ t) = cps s @ cps t"
proof (induction s rule: cps.induct)
  case (2 c cs)
  then show ?case
    using takeWhile_dropWhile_append [of t is_cont cs] by simp
qed simp

lemma py_len_append:
  "(t \<noteq> [] \<Longrightarrow> \<not> is_cont (hd t)) \<Longrightarrow> py_len (s @ t) = py_len s + py_len t"
  by (simp add: py_len_def cps_append)

section \<open>White space: strip, splitlines and lines of a file\<close>

text \<open>The code points \<^verbatim>\<open>str.strip\<close> removes, each as its UTF-8 bytes.\<close>

definition space_cps :: "string list" where
  "space_cps =
     [[CHR 0x09], [CHR 0x0A], [CHR 0x0B], [CHR 0x0C], [CHR 0x0D], [CHR 0x1C], [CHR 0x1D],
      [CHR 0x1E], [CHR 0x1F], [CHR 0x20], [CHR 0xC2, CHR 0x85], [CHR 0xC2, CHR 0xA0],
      [CHR 0xE1, CHR 0x9A, CHR 0x80], [CHR 0xE2, CHR 0x80, CHR 0x80],
      [CHR 0xE2, CHR 0x80, CHR 0x81], [CHR 0xE2, CHR 0x80, CHR 0x82],
      [CHR 0xE2, CHR 0x80, CHR 0x83], [CHR 0xE2, CHR 0x80, CHR 0x84],
      [CHR 0xE2, CHR 0x80, CHR 0x85], [CHR 0xE2, CHR 0x80, CHR 0x86],
      [CHR 0xE2, CHR 0x80, CHR 0x87], [CHR 0xE2, CHR 0x80, CHR 0x88],
      [CHR 0xE2, CHR 0x80, CHR 0x89], [CHR 0xE2, CHR 0x80, CHR 0x8A],
      [CHR 0xE2, CHR 0x80, CHR 0xA8], [CHR 0xE2, CHR 0x80, CHR 0xA9],
      [CHR 0xE2, CHR 0x80, CHR 0xAF], [CHR 0xE2, CHR 0x81, CHR 0x9F],
      [CHR 0xE3, CHR 0x80, CHR 0x80]]"

definition is_space :: "string \<Rightarrow> bool" where
  "is_space cp \<longleftrightarrow> cp \<in> set space_cps"

definition strip :: "string \<Rightarrow> string" where
  "strip s = concat (rev (dropWhile is_space (rev (dropWhile is_space (cps s)))))"

text \<open>The line boundaries of \<^verbatim>\<open>str.splitlines\<close>.\<close>

definition is_linebreak :: "string \<Rightarrow> bool" where
  "is_linebreak cp \<longleftrightarrow> cp \<in> set
     [[CHR 0x0A], [CHR 0x0B], [CHR 0x0C], [CHR 0x0D], [CHR 0x1C], [CHR 0x1D], [CHR 0x1E],
      [CHR 0xC2, CHR 0x85], [CHR 0xE2, CHR 0x80, CHR 0xA8], [CHR 0xE2, CHR 0x80, CHR 0xA9]]"

fun split_cps :: "string \<Rightarrow> string list \<Rightarrow> string list" where
  "split_cps acc [] = (if acc = [] then [] else [acc])"
| "split_cps acc (c # cs) =
     (if c = [CHR 0x0D] \<and> cs \<noteq> [] \<and> hd cs = [CHR 0x0A] then acc # split_cps [] (tl cs)
      else if is_linebreak c then acc # split_cps [] cs
      else split_cps (acc @ c) cs)"

definition splitlines :: "string \<Rightarrow> string list" where
  "splitlines s = split_cps [] (cps s)"

text \<open>
  Iterating over a text file: with universal newlines the lines end at LF, CR or CR LF. The
  terminating newline is kept by Python as LF; it is left out here, since every caller strips
  the line.
\<close>

fun file_lines_acc :: "string \<Rightarrow> string \<Rightarrow> string list" where
  "file_lines_acc acc [] = (if acc = [] then [] else [acc])"
| "file_lines_acc acc (c # cs) =
     (if c = CHR 0x0D \<and> cs \<noteq> [] \<and> hd cs = CHR 0x0A then acc # file_lines_acc [] (tl cs)
      else if c = CHR 0x0A \<or> c = CHR 0x0D then acc # file_lines_acc [] cs
      else file_lines_acc (acc @ [c]) cs)"

definition file_lines :: "string \<Rightarrow> string list" where
  "file_lines s = file_lines_acc [] s"

lemma dropWhile_no:
  "(\<And>x. x \<in> set xs \<Longrightarrow> \<not> P x) \<Longrightarrow> dropWhile P xs = xs"
  by (cases xs) auto

lemma strip_no_space:
  assumes "list_all is_ascii s" and "\<And>c. c \<in> set s \<Longrightarrow> \<not> is_space [c]"
  shows "strip s = s"
proof -
  have "dropWhile is_space (cps s) = cps s"
    using assms by (intro dropWhile_no) (auto simp: cps_ascii)
  moreover have "dropWhile is_space (rev (cps s)) = rev (cps s)"
    using assms by (intro dropWhile_no) (auto simp: cps_ascii)
  ultimately show ?thesis by (simp add: strip_def)
qed

section \<open>Searching, splitting, replacing, joining\<close>

definition startswith :: "string \<Rightarrow> string \<Rightarrow> bool" where
  "startswith s p \<longleftrightarrow> take (length p) s = p"

definition endswith :: "string \<Rightarrow> string \<Rightarrow> bool" where
  "endswith s p \<longleftrightarrow> length p \<le> length s \<and> drop (length s - length p) s = p"

fun str_contains :: "string \<Rightarrow> string \<Rightarrow> bool" where
  "str_contains p [] = (p = [])"
| "str_contains p (c # cs) = (startswith (c # cs) p \<or> str_contains p cs)"

function py_replace :: "string \<Rightarrow> string \<Rightarrow> string \<Rightarrow> string" where
  "py_replace old new s =
     (if old = [] then new @ concat (map (\<lambda>c. c @ new) (cps s))
      else if s = [] then []
      else if startswith s old then new @ py_replace old new (drop (length old) s)
      else hd s # py_replace old new (tl s))"
  by pat_completeness auto
termination
  by (relation "measure (\<lambda>(old, new, s). length s)") auto

declare py_replace.simps [simp del]

fun split_on :: "char \<Rightarrow> string \<Rightarrow> string list" where
  "split_on d [] = [[]]"
| "split_on d (c # cs) =
     (if c = d then [] # split_on d cs
      else (case split_on d cs of [] \<Rightarrow> [[c]] | f # fs \<Rightarrow> (c # f) # fs))"

text \<open>\<^verbatim>\<open>s.split(d, 1)\<close> where \<open>d\<close> occurs in \<open>s\<close>.\<close>

definition split_once :: "char \<Rightarrow> string \<Rightarrow> string \<times> string" where
  "split_once d s = (takeWhile (\<lambda>c. c \<noteq> d) s, tl (dropWhile (\<lambda>c. c \<noteq> d) s))"

fun join :: "string \<Rightarrow> string list \<Rightarrow> string" where
  "join sep [] = []"
| "join sep [x] = x"
| "join sep (x # y # xs) = x @ sep @ join sep (y # xs)"

lemma startswith_append [simp]: "startswith (p @ s) p"
  by (simp add: startswith_def)

lemma startswith_iff: "startswith s p \<longleftrightarrow> (\<exists>t. s = p @ t)"
  by (metis append_eq_conv_conj append_take_drop_id startswith_def)

lemma endswith_iff: "endswith s p \<longleftrightarrow> (\<exists>t. s = t @ p)"
  by (auto simp: endswith_def) (metis append_take_drop_id)

lemma str_contains_iff: "str_contains p s \<longleftrightarrow> (\<exists>a b. s = a @ p @ b)"
proof (induction s)
  case Nil
  then show ?case by auto
next
  case (Cons c s)
  show ?case
  proof
    assume "str_contains p (c # s)"
    then consider "startswith (c # s) p" | "str_contains p s" by auto
    then show "\<exists>a b. c # s = a @ p @ b"
    proof cases
      case 1
      then obtain t where "c # s = [] @ p @ t" by (auto simp: startswith_iff)
      then show ?thesis by blast
    next
      case 2
      with Cons.IH obtain a b where "c # s = (c # a) @ p @ b" by auto
      then show ?thesis by blast
    qed
  next
    assume "\<exists>a b. c # s = a @ p @ b"
    then obtain a b where ab: "c # s = a @ p @ b" by blast
    have "startswith (c # s) p \<or> (\<exists>a b. s = a @ p @ b)"
    proof (cases a)
      case Nil
      with ab have "startswith (c # s) p" unfolding startswith_iff by auto
      then show ?thesis ..
    qed (use ab in auto)
    with Cons.IH show "str_contains p (c # s)" by simp
  qed
qed

lemma split_on_nonempty [simp]: "split_on d s \<noteq> []"
  by (induction s) (auto split: list.splits)

lemma join_split_on: "join [d] (split_on d s) = s"
proof (induction s)
  case (Cons c s)
  then show ?case by (cases "split_on d s"; cases "tl (split_on d s)") auto
qed simp

lemma split_on_no_sep: "f \<in> set (split_on d s) \<Longrightarrow> d \<notin> set f"
  by (induction s arbitrary: f) (auto split: list.splits if_splits)

lemma split_on_none: "d \<notin> set s \<Longrightarrow> split_on d s = [s]"
  by (induction s) auto

lemma split_on_append:
  "d \<notin> set s \<Longrightarrow> split_on d (s @ d # t) = s # split_on d t"
  by (induction s) auto

lemma split_on_join:
  assumes "xs \<noteq> []" and "\<And>x. x \<in> set xs \<Longrightarrow> d \<notin> set x"
  shows "split_on d (join [d] xs) = xs"
  using assms by (induction "[d]" xs rule: join.induct) (auto simp: split_on_none split_on_append)

lemma split_once_append:
  "d \<notin> set a \<Longrightarrow> split_once d (a @ d # b) = (a, b)"
  by (induction a) (auto simp: split_once_def)

lemma split_once_eq: "d \<in> set s \<Longrightarrow> split_once d s = (a, b) \<Longrightarrow> s = a @ d # b \<and> d \<notin> set a"
  by (induction s arbitrary: a b) (auto simp: split_once_def split: if_splits)

section \<open>Decimal integers\<close>

definition is_digit :: "char \<Rightarrow> bool" where
  "is_digit c \<longleftrightarrow> 48 \<le> (of_char c :: nat) \<and> (of_char c :: nat) \<le> 57"

definition digit_val :: "char \<Rightarrow> nat" where
  "digit_val c = of_char c - 48"

definition digit_char :: "nat \<Rightarrow> char" where
  "digit_char n = char_of (48 + n)"

fun show_nat :: "nat \<Rightarrow> string" where
  "show_nat n = (if n < 10 then [digit_char n] else show_nat (n div 10) @ [digit_char (n mod 10)])"

declare show_nat.simps [simp del]

definition show_int :: "int \<Rightarrow> string" where
  "show_int i = (if i < 0 then CHR ''-'' # show_nat (nat (- i)) else show_nat (nat i))"

text \<open>\<^verbatim>\<open>int(s)\<close>: surrounding white space, a sign, digits with single underscores between them.\<close>

fun parse_digits :: "nat \<Rightarrow> string \<Rightarrow> nat option" where
  "parse_digits acc [] = Some acc"
| "parse_digits acc (c # cs) =
     (if is_digit c then parse_digits (10 * acc + digit_val c) cs
      else if c = CHR ''_'' \<and> cs \<noteq> [] \<and> is_digit (hd cs)
      then parse_digits (10 * acc + digit_val (hd cs)) (tl cs)
      else None)"

definition parse_nat :: "string \<Rightarrow> nat option" where
  "parse_nat s = (if s \<noteq> [] \<and> is_digit (hd s) then parse_digits 0 s else None)"

definition parse_int :: "string \<Rightarrow> int option" where
  "parse_int s =
     (let t = strip s in
      if t \<noteq> [] \<and> hd t = CHR ''-'' then map_option (\<lambda>n. - int n) (parse_nat (tl t))
      else if t \<noteq> [] \<and> hd t = CHR ''+'' then map_option int (parse_nat (tl t))
      else map_option int (parse_nat t))"

lemma of_char_digit: "n < 10 \<Longrightarrow> (of_char (digit_char n) :: nat) = 48 + n"
  by (simp add: digit_char_def)

lemma digit_char_simps [simp]:
  "n < 10 \<Longrightarrow> is_digit (digit_char n)"
  "n < 10 \<Longrightarrow> digit_val (digit_char n) = n"
  by (simp_all add: is_digit_def digit_val_def of_char_digit)

lemma show_nat_digits: "c \<in> set (show_nat n) \<Longrightarrow> is_digit c"
  by (induction n arbitrary: c rule: show_nat.induct)
    (subst (asm) (2) show_nat.simps, auto split: if_splits)

lemma show_nat_nonempty [simp]: "show_nat n \<noteq> []"
  by (subst show_nat.simps) simp

lemma parse_digits_append:
  "list_all is_digit s \<Longrightarrow>
   parse_digits acc (s @ t) = parse_digits (the (parse_digits acc s)) t"
  by (induction s arbitrary: acc) auto

lemma parse_digits_show_nat: "\<exists>k. \<forall>acc. parse_digits acc (show_nat n) = Some (acc * 10 ^ k + n)"
proof (induction n rule: show_nat.induct)
  case (1 n)
  show ?case
  proof (cases "n < 10")
    case True
    then have "\<forall>acc. parse_digits acc (show_nat n) = Some (acc * 10 ^ 1 + n)"
      by (subst show_nat.simps) simp
    then show ?thesis by blast
  next
    case False
    with "1.IH" obtain k where
      k: "\<And>acc. parse_digits acc (show_nat (n div 10)) = Some (acc * 10 ^ k + n div 10)" by blast
    have all: "list_all is_digit (show_nat (n div 10))"
      by (auto simp: list_all_iff dest: show_nat_digits)
    have "parse_digits acc (show_nat n) = Some (acc * 10 ^ Suc k + n)" for acc
      using False by (subst show_nat.simps) (simp add: parse_digits_append [OF all] k algebra_simps)
    then show ?thesis by blast
  qed
qed

lemma parse_nat_show_nat [simp]: "parse_nat (show_nat n) = Some n"
proof -
  have "is_digit (hd (show_nat n))" by (rule show_nat_digits [OF hd_in_set]) simp
  moreover have "parse_digits 0 (show_nat n) = Some n"
    using parse_digits_show_nat [of n] by auto
  ultimately show ?thesis by (simp add: parse_nat_def)
qed

lemma digit_ascii: "is_digit c \<Longrightarrow> is_ascii c"
  by (simp add: is_digit_def is_ascii_def)

lemma digit_no_space: "is_digit c \<Longrightarrow> \<not> is_space [c]"
  by (auto simp: is_digit_def is_space_def space_cps_def)

lemma digit_not_sign: "is_digit c \<Longrightarrow> c \<noteq> CHR ''-'' \<and> c \<noteq> CHR ''+''"
  by (auto simp: is_digit_def)

lemma show_int_chars: "c \<in> set (show_int i) \<Longrightarrow> is_digit c \<or> c = CHR ''-''"
  by (auto simp: show_int_def dest: show_nat_digits split: if_splits)

lemma strip_show_int [simp]: "strip (show_int i) = show_int i"
proof (rule strip_no_space)
  show "list_all is_ascii (show_int i)"
    by (auto simp: list_all_iff dest!: show_int_chars intro: digit_ascii) (simp add: is_ascii_def)
  show "\<And>c. c \<in> set (show_int i) \<Longrightarrow> \<not> is_space [c]"
    by (auto dest!: show_int_chars dest: digit_no_space) (simp add: is_space_def space_cps_def)
qed

lemma parse_int_show_int [simp]: "parse_int (show_int i) = Some i"
proof (cases "i < 0")
  case True
  then show ?thesis
    unfolding parse_int_def Let_def strip_show_int by (simp add: show_int_def)
next
  case False
  have "is_digit (hd (show_nat (nat i)))" by (rule show_nat_digits [OF hd_in_set]) simp
  with False show ?thesis
    unfolding parse_int_def Let_def strip_show_int
    by (simp add: show_int_def digit_not_sign)
qed

end
