(* ===== verification/Py_Path.thy ===== *)
theory Py_Path
  imports Py_Text "HOL-Library.Sublist" "HOL-Library.Product_Lexorder"
begin

text \<open>
  Paths (\<^verbatim>\<open>pathlib.Path\<close> on POSIX, \<^verbatim>\<open>os.path\<close>) and a file system with directories, regular files
  and symbolic links: path resolution as the kernel does it (at most 40 links), \<^verbatim>\<open>realpath\<close>,
  directory listing and the queries the scripts make.
\<close>

section \<open>Pure paths\<close>

text \<open>
  A path is its root (empty, \<open>/\<close> or \<open>//\<close>) and its components; \<^verbatim>\<open>.\<close> and empty components are
  dropped when a string is parsed, \<^verbatim>\<open>..\<close> is kept.
\<close>

datatype ppath = PPath (p_root: string) (p_parts: "string list")

definition path_root :: "string \<Rightarrow> string" where
  "path_root s =
     (if startswith s ''//'' \<and> \<not> startswith s ''///'' then ''//''
      else if startswith s ''/'' then ''/'' else [])"

definition path_comps :: "string \<Rightarrow> string list" where
  "path_comps s = filter (\<lambda>c. c \<noteq> [] \<and> c \<noteq> ''.'') (split_on (CHR ''/'') s)"

definition to_path :: "string \<Rightarrow> ppath" where
  "to_path s = PPath (path_root s) (path_comps s)"

definition path_str :: "ppath \<Rightarrow> string" where
  "path_str p = (if p_root p = [] \<and> p_parts p = [] then ''.'' else p_root p @ join ''/'' (p_parts p))"

text \<open>\<^verbatim>\<open>p / q\<close>\<close>

definition path_div :: "ppath \<Rightarrow> ppath \<Rightarrow> ppath" where
  "path_div p q = (if p_root q \<noteq> [] then q else PPath (p_root p) (p_parts p @ p_parts q))"

definition path_parent :: "ppath \<Rightarrow> ppath" where
  "path_parent p = PPath (p_root p) (butlast (p_parts p))"

fun parents_of :: "string list \<Rightarrow> string list list" where
  "parents_of [] = []"
| "parents_of (c # cs) = map (\<lambda>xs. c # xs) (parents_of cs) @ [[]]"

definition path_parents :: "ppath \<Rightarrow> ppath list" where
  "path_parents p = map (PPath (p_root p)) (parents_of (p_parts p))"

text \<open>\<^verbatim>\<open>p.is_relative_to(q)\<close> and \<^verbatim>\<open>p.relative_to(q)\<close>\<close>

definition is_relative_to :: "ppath \<Rightarrow> ppath \<Rightarrow> bool" where
  "is_relative_to p q \<longleftrightarrow> q = p \<or> q \<in> set (path_parents p)"

definition relative_to :: "ppath \<Rightarrow> ppath \<Rightarrow> ppath" where
  "relative_to p q = PPath [] (drop (length (p_parts q)) (p_parts p))"

definition path_wf :: "ppath \<Rightarrow> bool" where
  "path_wf p \<longleftrightarrow> p_root p \<in> {[], ''/'', ''//''} \<and>
     list_all (\<lambda>c. c \<noteq> [] \<and> c \<noteq> ''.'' \<and> CHR ''/'' \<notin> set c) (p_parts p)"

text \<open>
  \<^verbatim>\<open>os.path.normpath\<close> on an absolute path: empty components and \<^verbatim>\<open>.\<close> are dropped, \<^verbatim>\<open>..\<close> removes
  the component before it textually.
\<close>

fun norm_comps :: "string list \<Rightarrow> string list \<Rightarrow> string list" where
  "norm_comps acc [] = acc"
| "norm_comps acc (c # cs) =
     (if c = [] \<or> c = ''.'' then norm_comps acc cs
      else if c = ''..'' then norm_comps (butlast acc) cs
      else norm_comps (acc @ [c]) cs)"

definition normpath_abs :: "ppath \<Rightarrow> ppath" where
  "normpath_abs p = PPath (p_root p) (norm_comps [] (p_parts p))"

fun common_prefix :: "'a list \<Rightarrow> 'a list \<Rightarrow> 'a list" where
  "common_prefix (x # xs) (y # ys) = (if x = y then x # common_prefix xs ys else [])"
| "common_prefix _ _ = []"

lemma set_parents_of: "set (parents_of xs) = {ys. strict_prefix ys xs}"
proof (induction xs)
  case (Cons x xs)
  show ?case
    by (auto simp: Cons strict_prefix_def prefix_Cons)
qed simp

lemma length_parents_of [simp]: "length (parents_of xs) = length xs"
  by (induction xs) auto

lemma is_relative_to_iff:
  "is_relative_to p q \<longleftrightarrow> p_root p = p_root q \<and> prefix (p_parts q) (p_parts p)"
  by (cases p; cases q) (auto simp: is_relative_to_def path_parents_def set_parents_of
      strict_prefix_def)

lemma is_relative_to_refl [simp]: "is_relative_to p p"
  by (simp add: is_relative_to_iff)

lemma is_relative_to_trans: "is_relative_to p q \<Longrightarrow> is_relative_to q r \<Longrightarrow> is_relative_to p r"
  by (auto simp: is_relative_to_iff intro: prefix_order.trans)

lemma is_relative_to_antisym: "is_relative_to p q \<Longrightarrow> is_relative_to q p \<Longrightarrow> p = q"
  by (cases p; cases q) (auto simp: is_relative_to_iff intro: prefix_order.antisym)

lemma path_div_relative_to:
  "is_relative_to p q \<Longrightarrow> path_div q (relative_to p q) = p"
  by (cases p; cases q) (auto simp: is_relative_to_iff path_div_def relative_to_def elim: prefixE)

lemma common_prefix_prefix:
  "prefix (common_prefix xs ys) xs" "prefix (common_prefix xs ys) ys"
  by (induction xs ys rule: common_prefix.induct) auto

lemma common_prefix_eq_iff: "common_prefix xs ys = xs \<longleftrightarrow> prefix xs ys"
  by (induction xs ys rule: common_prefix.induct) auto

text \<open>
  The order of \<^verbatim>\<open>sorted\<close> on paths: the components of \<^verbatim>\<open>str(p).split("/")\<close>, made total on values
  that are not well formed by comparing root and parts last.
\<close>

definition path_key :: "ppath \<Rightarrow> string list \<times> string \<times> string list" where
  "path_key p = (split_on (CHR ''/'') (path_str p), p_root p, p_parts p)"

instantiation ppath :: linorder
begin

definition less_eq_ppath :: "ppath \<Rightarrow> ppath \<Rightarrow> bool" where
  "p \<le> q \<longleftrightarrow> path_key p \<le> path_key q"

definition less_ppath :: "ppath \<Rightarrow> ppath \<Rightarrow> bool" where
  "p < q \<longleftrightarrow> path_key p < path_key q"

instance
  by standard
    (auto simp: less_eq_ppath_def less_ppath_def path_key_def intro: ppath.expand)

end

section \<open>The file system\<close>

datatype node = Dir | File string nat | Symlink string

text \<open>
  A location is the list of components below \<open>/\<close>, free of links and dots; the order of the
  association list is the order in which directories are listed.
\<close>

type_synonym loc = "string list"
type_synonym fsys = "(loc \<times> node) list"

definition node_at :: "fsys \<Rightarrow> loc \<Rightarrow> node option" where
  "node_at fs l = (if l = [] then Some Dir else map_of fs l)"

definition MAXSYMLINKS :: nat where
  "MAXSYMLINKS = 40"

text \<open>
  The kernel's path walk: from a directory through the components, following links (the last one
  only when \<open>follow\<close>); \<open>None\<close> stands for ENOENT, ENOTDIR and, when the budget of links is used
  up, ELOOP.
\<close>

function walk :: "fsys \<Rightarrow> bool \<Rightarrow> nat \<Rightarrow> loc \<Rightarrow> string list \<Rightarrow> loc option" where
  "walk fs follow n cur [] = Some cur"
| "walk fs follow n cur (c # cs) =
     (if node_at fs cur \<noteq> Some Dir then None
      else if c = [] \<or> c = ''.'' then walk fs follow n cur cs
      else if c = ''..'' then walk fs follow n (butlast cur) cs
      else (case node_at fs (cur @ [c]) of
          None \<Rightarrow> None
        | Some (Symlink t) \<Rightarrow>
            if cs = [] \<and> \<not> follow then Some (cur @ [c])
            else if n = 0 then None
            else walk fs follow (n - 1) (if startswith t ''/'' then [] else cur)
                   (split_on (CHR ''/'') t @ cs)
        | Some _ \<Rightarrow> walk fs follow n (cur @ [c]) cs))"
  by pat_completeness auto
termination
  by (relation "measures [\<lambda>(fs, follow, n, cur, cs). n, \<lambda>(fs, follow, n, cur, cs). length cs]") auto

definition lookup_loc :: "fsys \<Rightarrow> loc \<Rightarrow> bool \<Rightarrow> ppath \<Rightarrow> loc option" where
  "lookup_loc fs cwd follow p =
     walk fs follow MAXSYMLINKS (if p_root p = [] then cwd else []) (p_parts p)"

definition path_node :: "fsys \<Rightarrow> loc \<Rightarrow> bool \<Rightarrow> ppath \<Rightarrow> node option" where
  "path_node fs cwd follow p = Option.bind (lookup_loc fs cwd follow p) (node_at fs)"

definition path_exists :: "fsys \<Rightarrow> loc \<Rightarrow> ppath \<Rightarrow> bool" where
  "path_exists fs cwd p \<longleftrightarrow> path_node fs cwd True p \<noteq> None"

definition path_is_dir :: "fsys \<Rightarrow> loc \<Rightarrow> ppath \<Rightarrow> bool" where
  "path_is_dir fs cwd p \<longleftrightarrow> path_node fs cwd True p = Some Dir"

definition path_readlink :: "fsys \<Rightarrow> loc \<Rightarrow> ppath \<Rightarrow> string option" where
  "path_readlink fs cwd p =
     (case path_node fs cwd False p of Some (Symlink t) \<Rightarrow> Some t | _ \<Rightarrow> None)"

definition path_is_symlink :: "fsys \<Rightarrow> loc \<Rightarrow> ppath \<Rightarrow> bool" where
  "path_is_symlink fs cwd p \<longleftrightarrow> path_readlink fs cwd p \<noteq> None"

text \<open>Opening a file for reading: its bytes, or the error \<^verbatim>\<open>open\<close> raises.\<close>

definition read_bytes :: "fsys \<Rightarrow> loc \<Rightarrow> ppath \<Rightarrow> string res" where
  "read_bytes fs cwd p =
     (case path_node fs cwd True p of
        None \<Rightarrow> Inl (FileNotFoundError (path_str p))
      | Some (File c m) \<Rightarrow> Inr c
      | Some _ \<Rightarrow> Inl (OSError (path_str p)))"

lemma read_bytes_exists: "read_bytes fs cwd p = Inr c \<Longrightarrow> path_exists fs cwd p"
  by (auto simp: read_bytes_def path_exists_def split: option.splits)

text \<open>The entries of a directory, in listing order.\<close>

definition listdir :: "fsys \<Rightarrow> loc \<Rightarrow> string list" where
  "listdir fs l = map (last \<circ> fst) (filter (\<lambda>(q, _). q \<noteq> [] \<and> butlast q = l) fs)"

section \<open>UTF-8 text\<close>

text \<open>\<^verbatim>\<open>bytes.decode("utf-8")\<close>: the number of bytes of the well-formed sequence at the front.\<close>

definition byte_in :: "nat \<Rightarrow> nat \<Rightarrow> char \<Rightarrow> bool" where
  "byte_in lo hi c \<longleftrightarrow> lo \<le> (of_char c :: nat) \<and> (of_char c :: nat) \<le> hi"

definition utf8_step :: "string \<Rightarrow> nat option" where
  "utf8_step s =
     (case s of
        [] \<Rightarrow> None
      | c # cs \<Rightarrow>
          let n = (of_char c :: nat);
              conts = (\<lambda>k xs. length xs \<ge> k \<and> list_all (byte_in 128 191) (take k xs))
          in if n < 128 then Some 1
             else if 194 \<le> n \<and> n \<le> 223 then (if conts 1 cs then Some 2 else None)
             else if 224 \<le> n \<and> n \<le> 239 then
               (if conts 2 cs \<and> (n = 224 \<longrightarrow> byte_in 160 191 (hd cs)) \<and>
                   (n = 237 \<longrightarrow> byte_in 128 159 (hd cs)) then Some 3 else None)
             else if 240 \<le> n \<and> n \<le> 244 then
               (if conts 3 cs \<and> (n = 240 \<longrightarrow> byte_in 144 191 (hd cs)) \<and>
                   (n = 244 \<longrightarrow> byte_in 128 143 (hd cs)) then Some 4 else None)
             else None)"

function utf8_valid :: "string \<Rightarrow> bool" where
  "utf8_valid s =
     (if s = [] then True
      else (case utf8_step s of
          None \<Rightarrow> False
        | Some n \<Rightarrow> if n = 0 then False else utf8_valid (drop n s)))"
  by pat_completeness auto
termination
  by (relation "measure length") auto

declare utf8_valid.simps [simp del]

text \<open>Reading a text file: undecodable bytes raise UnicodeDecodeError.\<close>

definition read_text :: "fsys \<Rightarrow> loc \<Rightarrow> ppath \<Rightarrow> string res" where
  "read_text fs cwd p =
     res_bind (read_bytes fs cwd p)
       (\<lambda>c. if utf8_valid c then Inr c else Inl UnicodeDecodeError)"

section \<open>realpath\<close>

text \<open>
  \<^verbatim>\<open>os.path.realpath\<close> (not strict): components are consumed from a stack; a link is replaced by
  its target followed by a mark that records the resolved link. A link met again while it is
  being resolved is a loop and is kept as it is.
\<close>

datatype step_item = Comp string | Resolved loc

definition symlinks :: "fsys \<Rightarrow> loc list" where
  "symlinks fs = [l. (l, nd) \<leftarrow> fs, (case nd of Symlink t \<Rightarrow> True | _ \<Rightarrow> False)]"

function realpath_loop :: "fsys \<Rightarrow> (loc \<times> loc option) list \<Rightarrow> loc \<Rightarrow> step_item list \<Rightarrow> loc" where
  "realpath_loop fs seen cur [] = cur"
| "realpath_loop fs seen cur (Resolved l # rest) =
     realpath_loop fs ((l, Some cur) # seen) cur rest"
| "realpath_loop fs seen cur (Comp c # rest) =
     (if c = [] \<or> c = ''.'' then realpath_loop fs seen cur rest
      else if c = ''..'' then realpath_loop fs seen (butlast cur) rest
      else (case node_at fs (cur @ [c]) of
          Some (Symlink t) \<Rightarrow>
            (case map_of seen (cur @ [c]) of
               Some (Some r) \<Rightarrow> realpath_loop fs seen r rest
             | Some None \<Rightarrow> realpath_loop fs seen (cur @ [c]) rest
             | None \<Rightarrow>
                 realpath_loop fs ((cur @ [c], None) # seen)
                   (if startswith t ''/'' then [] else cur)
                   (map Comp (split_on (CHR ''/'') t) @ Resolved (cur @ [c]) # rest))
        | _ \<Rightarrow> realpath_loop fs seen (cur @ [c]) rest))"
  by pat_completeness auto
termination
proof (relation "measures [
      \<lambda>(fs, seen, cur, rest). length (filter (\<lambda>l. l \<notin> fst ` set seen) (symlinks fs)),
      \<lambda>(fs, seen, cur, rest). length rest]", goal_cases)
  case 1
  show ?case by simp
next
  case (2 fs seen cur l rest)
  have "length (filter (\<lambda>k. k \<notin> insert l (fst ` set seen)) (symlinks fs))
      \<le> length (filter (\<lambda>k. k \<notin> fst ` set seen) (symlinks fs))"
    by (rule length_filter_mono) auto
  then show ?case by (auto simp: le_less)
next
  case (8 fs seen cur c rest nd t)
  have "cur @ [c] \<in> set (symlinks fs)"
    using 8 by (force simp: symlinks_def node_at_def dest: map_of_SomeD)
  then have "length (filter (\<lambda>k. k \<notin> insert (cur @ [c]) (fst ` set seen)) (symlinks fs))
      < length (filter (\<lambda>k. k \<notin> fst ` set seen) (symlinks fs))"
    using 8 by (intro length_filter_strict_mono [of _ _ _ "cur @ [c]"]) (auto simp: map_of_eq_None_iff)
  then show ?case by simp
qed auto

definition realpath :: "fsys \<Rightarrow> loc \<Rightarrow> ppath \<Rightarrow> ppath" where
  "realpath fs cwd p =
     PPath ''/'' (realpath_loop fs [] (if p_root p = [] then cwd else []) (map Comp (p_parts p)))"

text \<open>Without links the loop is the textual normalisation.\<close>

lemma realpath_loop_no_links:
  assumes "symlinks fs = []"
  shows "realpath_loop fs seen cur (map Comp cs) = norm_comps cur cs"
proof (induction cs arbitrary: cur)
  case (Cons c cs)
  have "node_at fs l \<noteq> Some (Symlink t)" for l t
    using assms by (force simp: symlinks_def node_at_def dest: map_of_SomeD split: if_splits)
  then show ?case using Cons by (auto split: option.splits node.splits)
qed simp

end
