(* ===== verification/Py_Float.thy ===== *)
theory Py_Float
  imports Py_Text
begin

text \<open>
  Python floats: IEEE binary64 values as rationals, with the rounding to nearest even written
  out, conversion from text and the formatting the scripts use. Negative zero is identified
  with zero.
\<close>

section \<open>Rounding to binary64\<close>

datatype pyfloat = Fin rat | PInf | NInf | NaN

definition round_half_even :: "rat \<Rightarrow> int" where
  "round_half_even x =
     (let f = \<lfloor>x\<rfloor>; d = x - of_int f
      in if d < 1 / 2 then f else if d > 1 / 2 then f + 1 else if even f then f else f + 1)"

fun nat_bits :: "nat \<Rightarrow> nat" where
  "nat_bits n = (if n = 0 then 0 else Suc (nat_bits (n div 2)))"

declare nat_bits.simps [simp del]

text \<open>The exponent of a positive rational: \<open>2 powi log2_floor x \<le> x < 2 powi (log2_floor x + 1)\<close>.\<close>

definition log2_floor :: "rat \<Rightarrow> int" where
  "log2_floor x =
     (case quotient_of x of (a, b) \<Rightarrow>
        let k = int (nat_bits (nat a)) - int (nat_bits (nat b))
        in if 2 powi k \<le> x then k else k - 1)"

definition ulp_exp :: "rat \<Rightarrow> int" where
  "ulp_exp x = max (log2_floor \<bar>x\<bar> - 52) (- 1074)"

definition round_rat :: "rat \<Rightarrow> rat" where
  "round_rat x =
     (if x = 0 then 0
      else of_int (round_half_even (x / 2 powi ulp_exp x)) * 2 powi ulp_exp x)"

definition double :: "rat \<Rightarrow> pyfloat" where
  "double x =
     (let y = round_rat x
      in if y \<ge> 2 ^ 1024 then PInf else if y \<le> - (2 ^ 1024) then NInf else Fin y)"

text \<open>For evaluation, small numbers first: the bound of the range is a large power.\<close>

lemma double_code [code]:
  "double x =
     (let y = round_rat x
      in if - 1000 \<le> y \<and> y \<le> 1000 then Fin y
         else if y \<ge> 2 ^ 1024 then PInf else if y \<le> - (2 ^ 1024) then NInf else Fin y)"
proof -
  have "(1000::rat) < 2 ^ 10" by simp
  also have "(2::rat) ^ 10 \<le> 2 ^ 1024" by (rule power_increasing) simp_all
  finally have "(1000::rat) < 2 ^ 1024" .
  then show ?thesis unfolding double_def Let_def by (auto simp del: power_numeral)
qed

lemma nat_bits_bounds: "0 < n \<Longrightarrow> 2 ^ (nat_bits n - 1) \<le> n \<and> n < 2 ^ nat_bits n \<and> 0 < nat_bits n"
proof (induction n rule: nat_bits.induct)
  case (1 n)
  have step: "nat_bits n = Suc (nat_bits (n div 2))" using 1 by (subst nat_bits.simps) simp
  show ?case
  proof (cases "n div 2 = 0")
    case True
    with 1 have "n = 1" by simp
    then show ?thesis using step True by (simp add: nat_bits.simps [of 0])
  next
    case False
    with 1 have IH: "2 ^ (nat_bits (n div 2) - 1) \<le> n div 2" "n div 2 < 2 ^ nat_bits (n div 2)"
      "0 < nat_bits (n div 2)" by auto
    have "2 * 2 ^ (nat_bits (n div 2) - 1) = (2::nat) ^ nat_bits (n div 2)"
      using IH(3) by (cases "nat_bits (n div 2)") auto
    with IH(1) have lo: "2 ^ nat_bits (n div 2) \<le> n" by linarith
    have "n < 2 * 2 ^ nat_bits (n div 2)" using IH(2) by linarith
    with lo show ?thesis by (simp add: step)
  qed
qed

lemma powi_mult_rat: "(2::rat) powi i * 2 powi j = 2 powi (i + j)"
  by (simp add: power_int_add)

lemma nat_bits_powi:
  assumes "0 < a"
  shows "(2::rat) powi (int (nat_bits (nat a)) - 1) \<le> of_int a" and "of_int a < (2::rat) powi int (nat_bits (nat a))"
proof -
  define m where "m = nat_bits (nat a)"
  have A: "2 ^ (m - 1) \<le> nat a" "nat a < 2 ^ m" "0 < m"
    using nat_bits_bounds [of "nat a"] assms by (auto simp: m_def)
  have "(of_nat (2 ^ (m - 1)) :: rat) \<le> of_nat (nat a)" using A(1) of_nat_le_iff by blast
  moreover have "(of_nat (nat a) :: rat) < of_nat (2 ^ m)" using A(2) of_nat_less_iff by blast
  moreover have "int m - 1 = int (m - 1)" using A(3) by simp
  moreover have "of_nat (nat a) = (of_int a :: rat)" using assms by auto
  ultimately show "(2::rat) powi (int (nat_bits (nat a)) - 1) \<le> of_int a"
    "of_int a < (2::rat) powi int (nat_bits (nat a))"
    unfolding m_def [symmetric] by (simp_all add: power_int_of_nat del: of_nat_diff)
qed

lemma log2_floor_bounds:
  assumes "0 < x"
  shows "2 powi log2_floor x \<le> x" and "x < 2 powi (log2_floor x + 1)"
proof -
  obtain a b where ab: "quotient_of x = (a, b)" by fastforce
  have b0: "0 < b" using quotient_of_denom_pos [OF ab] .
  have x: "x = of_int a / of_int b" using quotient_of_div [OF ab] .
  have a0: "0 < a" using assms x b0 by (simp add: zero_less_divide_iff)
  define m where "m = nat_bits (nat a)"
  define n where "n = nat_bits (nat b)"
  define k where "k = int m - int n"
  note aR = nat_bits_powi [OF a0, folded m_def] and bR = nat_bits_powi [OF b0, folded n_def]
  have bpos: "(0::rat) < of_int b" using b0 by simp
  have hi: "x < 2 powi (k + 1)"
  proof -
    have "of_int a < (2::rat) powi (k + 1) * 2 powi (int n - 1)"
      using aR(2) by (simp add: power_int_add [symmetric] k_def)
    also have "\<dots> \<le> 2 powi (k + 1) * of_int b" using bR(1) by (intro mult_left_mono) auto
    finally show ?thesis using bpos by (simp add: x field_simps)
  qed
  have lo: "2 powi (k - 1) \<le> x"
  proof -
    have "(2::rat) powi (k - 1) * of_int b \<le> 2 powi (k - 1) * 2 powi int n"
      using bR(2) by (intro mult_left_mono) auto
    also have "\<dots> = (2::rat) powi (int m - 1)"
      unfolding powi_mult_rat k_def by (rule arg_cong) simp
    also have "\<dots> \<le> of_int a" by (rule aR(1))
    finally show ?thesis using bpos by (simp add: x field_simps)
  qed
  have L: "log2_floor x = (if 2 powi k \<le> x then k else k - 1)"
    by (simp add: log2_floor_def ab Let_def k_def m_def n_def)
  show "2 powi log2_floor x \<le> x" "x < 2 powi (log2_floor x + 1)"
    using hi lo by (auto simp: L)
qed

lemma round_half_even_mono: "x \<le> y \<Longrightarrow> round_half_even x \<le> round_half_even y"
proof -
  assume xy: "x \<le> y"
  then have f: "\<lfloor>x\<rfloor> \<le> \<lfloor>y\<rfloor>" by (rule floor_mono)
  show ?thesis
  proof (cases "\<lfloor>x\<rfloor> = \<lfloor>y\<rfloor>")
    case True
    then show ?thesis using xy by (auto simp: round_half_even_def Let_def)
  next
    case False
    with f have "\<lfloor>x\<rfloor> + 1 \<le> \<lfloor>y\<rfloor>" by simp
    then show ?thesis by (auto simp: round_half_even_def Let_def)
  qed
qed

lemma round_half_even_of_int [simp]: "round_half_even (of_int n) = n"
  by (simp add: round_half_even_def)

lemma round_half_even_le: "x \<le> of_int n \<Longrightarrow> round_half_even x \<le> n"
  using round_half_even_mono [of x "of_int n"] by simp

lemma round_half_even_ge: "of_int n \<le> x \<Longrightarrow> n \<le> round_half_even x"
  using round_half_even_mono [of "of_int n" x] by simp

lemma round_rat_0 [simp]: "round_rat 0 = 0"
  by (simp add: round_rat_def)

lemma powi_pos_rat [simp]: "(0::rat) < 2 powi k" "\<not> 2 powi k < (0::rat)"
  using zero_less_power_int [of "2::rat" k] by (simp_all add: not_less)

lemma round_rat_nonneg: "0 \<le> x \<Longrightarrow> 0 \<le> round_rat x"
proof -
  assume "0 \<le> x"
  then have "(of_int 0 :: rat) \<le> x / 2 powi ulp_exp x" by simp
  then have "0 \<le> round_half_even (x / 2 powi ulp_exp x)" by (rule round_half_even_ge)
  then show ?thesis by (simp add: round_rat_def)
qed

text \<open>A power of two that bounds a value bounds its rounding, from above and from below.\<close>

lemma powi_rat_of_int: "0 \<le> k \<Longrightarrow> (2::rat) powi k = of_int (2 ^ nat k)"
  by (simp add: power_int_def)

lemma round_rat_le_pow:
  assumes "0 < x" and "x \<le> 2 powi k" and "- 1074 \<le> k"
  shows "round_rat x \<le> 2 powi k"
proof -
  let ?q = "ulp_exp x"
  have "log2_floor x \<le> k"
  proof (rule ccontr)
    assume "\<not> log2_floor x \<le> k"
    then have "k < log2_floor x" by simp
    then have "(2::rat) powi k < 2 powi log2_floor x" by (intro power_int_strict_increasing) auto
    with log2_floor_bounds(1) [OF assms(1)] assms(2) show False by linarith
  qed
  then have q: "?q \<le> k" using assms by (simp add: ulp_exp_def)
  have "x / 2 powi ?q \<le> 2 powi k / 2 powi ?q" using assms by (intro divide_right_mono) auto
  also have "\<dots> = 2 powi (k - ?q)" by (simp add: power_int_diff)
  also have "\<dots> = of_int (2 ^ nat (k - ?q))" using q by (simp add: powi_rat_of_int)
  finally have "round_half_even (x / 2 powi ?q) \<le> 2 ^ nat (k - ?q)" by (rule round_half_even_le)
  then have "(of_int (round_half_even (x / 2 powi ?q)) :: rat) \<le> of_int (2 ^ nat (k - ?q))"
    by (simp only: of_int_le_iff)
  also have "\<dots> = 2 powi (k - ?q)" using q by (simp add: powi_rat_of_int)
  finally have "of_int (round_half_even (x / 2 powi ?q)) * 2 powi ?q
      \<le> (2::rat) powi (k - ?q) * 2 powi ?q" by (intro mult_right_mono) auto
  then show ?thesis using assms by (simp add: round_rat_def power_int_add [symmetric])
qed

lemma round_rat_ge_pow:
  assumes "2 powi k \<le> x" and "- 1074 \<le> k"
  shows "2 powi k \<le> round_rat x"
proof -
  let ?q = "ulp_exp x"
  have x0: "0 < x" using assms(1) powi_pos_rat(1) [of k] by linarith
  show ?thesis
  proof (cases "?q \<le> k")
    case True
    have "(of_int (2 ^ nat (k - ?q)) :: rat) = 2 powi (k - ?q)" using True
      by (simp add: powi_rat_of_int)
    also have "\<dots> = 2 powi k / 2 powi ?q" by (simp add: power_int_diff)
    also have "\<dots> \<le> x / 2 powi ?q" using assms by (intro divide_right_mono) auto
    finally have "2 ^ nat (k - ?q) \<le> round_half_even (x / 2 powi ?q)" by (rule round_half_even_ge)
    then have "(of_int (2 ^ nat (k - ?q)) :: rat) \<le> of_int (round_half_even (x / 2 powi ?q))"
      by (simp only: of_int_le_iff)
    then have "(2::rat) powi (k - ?q) * 2 powi ?q
        \<le> of_int (round_half_even (x / 2 powi ?q)) * 2 powi ?q"
      using True by (intro mult_right_mono) (auto simp: powi_rat_of_int)
    then show ?thesis using x0 by (simp add: round_rat_def power_int_add [symmetric])
  next
    case False
    with assms(2) have q: "?q = log2_floor x - 52" using x0 by (auto simp: ulp_exp_def max_def split: if_splits)
    have "(of_int 1 :: rat) \<le> x / 2 powi ?q"
    proof -
      have "(2::rat) powi ?q \<le> 2 powi log2_floor x" unfolding q by (intro power_int_increasing) auto
      also have "\<dots> \<le> x" by (rule log2_floor_bounds(1) [OF x0])
      finally show ?thesis by (simp add: field_simps)
    qed
    then have "1 \<le> round_half_even (x / 2 powi ?q)" by (rule round_half_even_ge)
    then have "(2::rat) powi ?q \<le> of_int (round_half_even (x / 2 powi ?q)) * 2 powi ?q"
      by (simp add: mult_le_cancel_right1 not_less)
    moreover have "(2::rat) powi k \<le> 2 powi ?q" using False by (intro power_int_increasing) auto
    ultimately have "(2::rat) powi k \<le> of_int (round_half_even (x / 2 powi ?q)) * 2 powi ?q"
      by (rule order_trans [rotated])
    then show ?thesis using x0 by (simp add: round_rat_def)
  qed
qed

lemma round_rat_mono_pos:
  assumes "0 < x" and "x \<le> y"
  shows "round_rat x \<le> round_rat y"
proof -
  have y0: "0 < y" using assms by simp
  have le: "log2_floor x \<le> log2_floor y"
  proof (rule ccontr)
    assume "\<not> ?thesis"
    then have "(2::rat) powi (log2_floor y + 1) \<le> 2 powi log2_floor x"
      by (intro power_int_increasing) auto
    with log2_floor_bounds [OF assms(1)] log2_floor_bounds [OF y0] assms(2) show False by linarith
  qed
  show ?thesis
  proof (cases "ulp_exp x = ulp_exp y")
    case True
    have "x / 2 powi ulp_exp y \<le> y / 2 powi ulp_exp y" using assms by (intro divide_right_mono) auto
    then have "(of_int (round_half_even (x / 2 powi ulp_exp y)) :: rat)
        \<le> of_int (round_half_even (y / 2 powi ulp_exp y))"
      by (simp add: round_half_even_mono)
    then show ?thesis using assms y0 True by (simp add: round_rat_def mult_right_mono)
  next
    case False
    with le have lt: "log2_floor x < log2_floor y" using assms(1) y0
      by (cases "log2_floor x = log2_floor y") (auto simp: ulp_exp_def)
    have k: "- 1074 \<le> log2_floor y"
      using False le assms(1) y0 by (auto simp: ulp_exp_def max_def split: if_splits)
    have "x \<le> 2 powi log2_floor y"
    proof -
      have "(2::rat) powi (log2_floor x + 1) \<le> 2 powi log2_floor y"
        using lt by (intro power_int_increasing) auto
      with log2_floor_bounds(2) [OF assms(1)] show ?thesis by linarith
    qed
    then have "round_rat x \<le> 2 powi log2_floor y" by (rule round_rat_le_pow [OF assms(1) _ k])
    also have "\<dots> \<le> round_rat y"
      by (rule round_rat_ge_pow [OF log2_floor_bounds(1) [OF y0] k])
    finally show ?thesis .
  qed
qed

lemma round_rat_mono: "0 \<le> x \<Longrightarrow> x \<le> y \<Longrightarrow> round_rat x \<le> round_rat y"
  by (cases "x = 0") (auto intro: round_rat_mono_pos round_rat_nonneg)

lemma round_rat_1 [simp]: "round_rat 1 = 1"
proof (rule antisym)
  show "round_rat 1 \<le> 1" using round_rat_le_pow [of 1 0] by simp
  show "1 \<le> round_rat 1" using round_rat_ge_pow [of 0 1] by simp
qed

text \<open>A ratio in the unit interval rounds into the unit interval.\<close>

lemma round_rat_unit: "0 \<le> x \<Longrightarrow> x \<le> 1 \<Longrightarrow> 0 \<le> round_rat x \<and> round_rat x \<le> 1"
  using round_rat_mono [of x 1] round_rat_nonneg by simp


section \<open>Arithmetic and comparison\<close>

fun fl_less :: "pyfloat \<Rightarrow> pyfloat \<Rightarrow> bool" where
  "fl_less (Fin x) (Fin y) = (x < y)"
| "fl_less NaN _ = False"
| "fl_less _ NaN = False"
| "fl_less _ NInf = False"
| "fl_less PInf _ = False"
| "fl_less NInf _ = True"
| "fl_less _ PInf = True"

definition fl_le :: "pyfloat \<Rightarrow> pyfloat \<Rightarrow> bool" where
  "fl_le x y \<longleftrightarrow> fl_less x y \<or> (x = y \<and> x \<noteq> NaN)"

fun fl_add :: "pyfloat \<Rightarrow> pyfloat \<Rightarrow> pyfloat" where
  "fl_add (Fin x) (Fin y) = double (x + y)"
| "fl_add NaN _ = NaN"
| "fl_add _ NaN = NaN"
| "fl_add PInf NInf = NaN"
| "fl_add NInf PInf = NaN"
| "fl_add PInf _ = PInf"
| "fl_add _ PInf = PInf"
| "fl_add NInf _ = NInf"
| "fl_add _ NInf = NInf"

text \<open>Multiplication and division by a positive number.\<close>

fun fl_scale :: "pyfloat \<Rightarrow> rat \<Rightarrow> pyfloat" where
  "fl_scale (Fin x) c = double (x * c)"
| "fl_scale f c = f"

definition fl_shrink :: "pyfloat \<Rightarrow> rat \<Rightarrow> pyfloat" where
  "fl_shrink f c = (case f of Fin x \<Rightarrow> double (x / c) | _ \<Rightarrow> f)"

text \<open>\<^verbatim>\<open>a / b\<close> on integers, \<open>b\<close> not zero: correctly rounded, OverflowError when out of range.\<close>

definition int_truediv :: "int \<Rightarrow> int \<Rightarrow> pyfloat res" where
  "int_truediv a b =
     (case double (of_int a / of_int b) of
        Fin x \<Rightarrow> Inr (Fin x)
      | _ \<Rightarrow> Inl (OtherError ''OverflowError''))"

definition float_of_int :: "int \<Rightarrow> pyfloat res" where
  "float_of_int i = int_truediv i 1"

lemma double_unit: "0 \<le> x \<Longrightarrow> x \<le> 1 \<Longrightarrow> double x = Fin (round_rat x)"
  using round_rat_unit [of x] by (simp add: double_def Let_def)

lemma double_1 [simp]: "double 1 = Fin 1"
  by (simp add: double_unit)

lemma double_0 [simp]: "double 0 = Fin 0"
  by (simp add: double_unit)

lemma fl_le_Fin [simp]: "fl_le (Fin x) (Fin y) \<longleftrightarrow> x \<le> y"
  by (auto simp: fl_le_def)

section \<open>Text to float\<close>

definition lower :: "string \<Rightarrow> string" where
  "lower s = map (\<lambda>c. if 65 \<le> (of_char c :: nat) \<and> (of_char c :: nat) \<le> 90
                       then char_of ((of_char c :: nat) + 32) else c) s"

definition parse_fraction :: "string \<Rightarrow> rat option" where
  "parse_fraction m =
     (let ip = takeWhile (\<lambda>c. c \<noteq> CHR ''.'') m; fp = drop (Suc (length ip)) m
      in if ip = [] \<and> fp = [] then None
         else (case (if ip = [] then Some 0 else parse_nat ip,
                     if fp = [] then Some 0 else parse_nat fp) of
             (Some i, Some f) \<Rightarrow> Some (of_nat i + of_nat f / 10 ^ length (filter is_digit fp))
           | _ \<Rightarrow> None))"

definition parse_unsigned_float :: "string \<Rightarrow> pyfloat option" where
  "parse_unsigned_float s =
     (if lower s = ''inf'' \<or> lower s = ''infinity'' then Some PInf
      else if lower s = ''nan'' then Some NaN
      else
        (let m = takeWhile (\<lambda>c. c \<noteq> CHR ''e'' \<and> c \<noteq> CHR ''E'') s;
             ep = drop (Suc (length m)) s;
             e = (if length m = length s then Some 0
                  else if ep \<noteq> [] \<and> hd ep = CHR ''-'' then map_option (\<lambda>n. - int n) (parse_nat (tl ep))
                  else if ep \<noteq> [] \<and> hd ep = CHR ''+'' then map_option int (parse_nat (tl ep))
                  else map_option int (parse_nat ep))
         in (case (parse_fraction m, e) of
               (Some x, Some k) \<Rightarrow> Some (double (x * 10 powi k))
             | _ \<Rightarrow> None)))"

fun fl_neg :: "pyfloat \<Rightarrow> pyfloat" where
  "fl_neg (Fin x) = Fin (- x)"
| "fl_neg PInf = NInf"
| "fl_neg NInf = PInf"
| "fl_neg NaN = NaN"

text \<open>\<^verbatim>\<open>float(s)\<close>.\<close>

definition parse_float :: "string \<Rightarrow> pyfloat option" where
  "parse_float s =
     (let t = strip s in
      if t \<noteq> [] \<and> hd t = CHR ''-'' then map_option fl_neg (parse_unsigned_float (tl t))
      else if t \<noteq> [] \<and> hd t = CHR ''+'' then parse_unsigned_float (tl t)
      else parse_unsigned_float t)"

section \<open>Formatting\<close>

definition pad_left :: "nat \<Rightarrow> string \<Rightarrow> string" where
  "pad_left n s = replicate (n - py_len s) (CHR '' '') @ s"

definition pad_right :: "nat \<Rightarrow> string \<Rightarrow> string" where
  "pad_right n s = s @ replicate (n - py_len s) (CHR '' '')"

fun fmt_fixed2 :: "pyfloat \<Rightarrow> string" where
  "fmt_fixed2 (Fin x) =
     (let n = nat (round_half_even (\<bar>x\<bar> * 100))
      in (if x < 0 then ''-'' else []) @ show_nat (n div 100) @ ''.'' @
         [digit_char (n mod 100 div 10), digit_char (n mod 10)])"
| "fmt_fixed2 PInf = ''inf''"
| "fmt_fixed2 NInf = ''-inf''"
| "fmt_fixed2 NaN = ''nan''"

text \<open>The format specification \<^verbatim>\<open>:>7.2%\<close>.\<close>

definition fmt_percent :: "pyfloat \<Rightarrow> string" where
  "fmt_percent f = pad_left 7 (fmt_fixed2 (fl_scale f 100) @ ''%'')"

text \<open>\<^verbatim>\<open>repr\<close> of a float: the shortest decimal that rounds back to it.\<close>

definition log10_floor :: "rat \<Rightarrow> int" where
  "log10_floor x =
     (if 1 \<le> x then int (length (show_nat (nat \<lfloor>x\<rfloor>))) - 1
      else (let j = int (length (show_nat (nat \<lfloor>1 / x\<rfloor>))) - 1
            in if 10 powi j = 1 / x then - j else - (j + 1)))"

definition sig_digits :: "rat \<Rightarrow> nat \<Rightarrow> int \<times> int" where
  "sig_digits x n =
     (let e = log10_floor x; m = round_half_even (x / 10 powi (e - int n + 1))
      in if m = 10 ^ n then (m div 10, e + 1) else (m, e))"

definition repr_pos :: "rat \<Rightarrow> string" where
  "repr_pos x =
     (let ok = (\<lambda>n. case sig_digits x n of (m, e) \<Rightarrow> double (of_int m * 10 powi (e - int n + 1)) = Fin x);
          n = (case filter ok [1..<18] of [] \<Rightarrow> 17 | k # _ \<Rightarrow> k);
          e = snd (sig_digits x n);
          ds = show_nat (nat (fst (sig_digits x n)))
      in if - 4 \<le> e \<and> e < 0 then ''0.'' @ replicate (nat (- e - 1)) (CHR ''0'') @ ds
         else if 0 \<le> e \<and> e < 16 then
           (if nat e + 1 < n then take (nat e + 1) ds @ ''.'' @ drop (nat e + 1) ds
            else ds @ replicate (nat e + 1 - n) (CHR ''0'') @ ''.0'')
         else take 1 ds @ (if 1 < n then ''.'' @ drop 1 ds else []) @ ''e'' @
           (if e < 0 then ''-'' else ''+'') @
           (if \<bar>e\<bar> < 10 then ''0'' else []) @ show_nat (nat \<bar>e\<bar>))"

fun repr_float :: "pyfloat \<Rightarrow> string" where
  "repr_float (Fin x) = (if x = 0 then ''0.0'' else if x < 0 then ''-'' @ repr_pos (- x) else repr_pos x)"
| "repr_float PInf = ''inf''"
| "repr_float NInf = ''-inf''"
| "repr_float NaN = ''nan''"

end
