(* ===== verification/Py_Json.thy ===== *)
theory Py_Json
  imports Py_Float
begin

text \<open>
  JSON as Python's \<^verbatim>\<open>json\<close> module reads it, and the dynamically typed operations the scripts
  apply to the values (\<^verbatim>\<open>in\<close>, indexing, truth value, \<^verbatim>\<open>str\<close>), with the exceptions they raise on a
  value of another type.
\<close>

section \<open>Values\<close>

datatype json =
    JNull
  | JBool bool
  | JInt int
  | JFloat pyfloat
  | JStr string
  | JList "json list"
  | JObj "(string \<times> json) list"

text \<open>The dictionaries of a parsed value have distinct keys.\<close>

fun json_wf :: "json \<Rightarrow> bool" where
  "json_wf (JList xs) = list_all json_wf xs"
| "json_wf (JObj kvs) = (distinct (map fst kvs) \<and> list_all (\<lambda>(k, v). json_wf v) kvs)"
| "json_wf _ = True"

fun type_name :: "json \<Rightarrow> string" where
  "type_name JNull = ''NoneType''"
| "type_name (JBool _) = ''bool''"
| "type_name (JInt _) = ''int''"
| "type_name (JFloat _) = ''float''"
| "type_name (JStr _) = ''str''"
| "type_name (JList _) = ''list''"
| "type_name (JObj _) = ''dict''"

fun py_truth :: "json \<Rightarrow> bool" where
  "py_truth JNull = False"
| "py_truth (JBool b) = b"
| "py_truth (JInt i) = (i \<noteq> 0)"
| "py_truth (JFloat f) = (f \<noteq> Fin 0)"
| "py_truth (JStr s) = (s \<noteq> [])"
| "py_truth (JList xs) = (xs \<noteq> [])"
| "py_truth (JObj kvs) = (kvs \<noteq> [])"

text \<open>\<^verbatim>\<open>key in value\<close> for a string key: dict keys, list elements, substrings; otherwise TypeError.\<close>

fun py_contains :: "string \<Rightarrow> json \<Rightarrow> bool res" where
  "py_contains k (JObj kvs) = Inr (dict_has k kvs)"
| "py_contains k (JList xs) = Inr (JStr k \<in> set xs)"
| "py_contains k (JStr s) = Inr (str_contains k s)"
| "py_contains k v = Inl (TypeError ''argument is not iterable'')"

text \<open>\<^verbatim>\<open>value[key]\<close> for a string key.\<close>

fun py_getitem :: "json \<Rightarrow> string \<Rightarrow> json res" where
  "py_getitem (JObj kvs) k = dict_item kvs k"
| "py_getitem v k = Inl (TypeError ''object is not subscriptable with a string'')"

text \<open>\<^verbatim>\<open>value.items()\<close>, \<^verbatim>\<open>value.values()\<close> and \<^verbatim>\<open>value.get(key)\<close>.\<close>

fun py_items :: "json \<Rightarrow> (string \<times> json) list res" where
  "py_items (JObj kvs) = Inr kvs"
| "py_items v = Inl (AttributeError ''items'')"

fun py_get :: "json \<Rightarrow> string \<Rightarrow> json \<Rightarrow> json res" where
  "py_get (JObj kvs) k d = Inr (case map_of kvs k of None \<Rightarrow> d | Some v \<Rightarrow> v)"
| "py_get v k d = Inl (AttributeError ''get'')"

section \<open>str and repr\<close>

definition hex_digit :: "nat \<Rightarrow> char" where
  "hex_digit n = (if n < 10 then char_of (48 + n) else char_of (87 + n))"

definition repr_char :: "char \<Rightarrow> char \<Rightarrow> string" where
  "repr_char q c =
     (if c = q \<or> c = CHR 0x5C then [CHR 0x5C, c]
      else if c = CHR 0x0A then [CHR 0x5C, CHR ''n'']
      else if c = CHR 0x0D then [CHR 0x5C, CHR ''r'']
      else if c = CHR 0x09 then [CHR 0x5C, CHR ''t'']
      else if (of_char c :: nat) < 32 \<or> (of_char c :: nat) = 127
      then [CHR 0x5C, CHR ''x'', hex_digit (of_char c div 16), hex_digit (of_char c mod 16)]
      else [c])"

text \<open>\<^verbatim>\<open>repr\<close> of a string (every non-ASCII code point is taken to be printable).\<close>

definition repr_str :: "string \<Rightarrow> string" where
  "repr_str s =
     (let q = (if CHR 0x27 \<in> set s \<and> CHR 0x22 \<notin> set s then CHR 0x22 else CHR 0x27)
      in [q] @ concat (map (repr_char q) s) @ [q])"

fun py_repr :: "json \<Rightarrow> string" where
  "py_repr JNull = ''None''"
| "py_repr (JBool b) = (if b then ''True'' else ''False'')"
| "py_repr (JInt i) = show_int i"
| "py_repr (JFloat f) = repr_float f"
| "py_repr (JStr s) = repr_str s"
| "py_repr (JList xs) = ''['' @ join '', '' (map py_repr xs) @ '']''"
| "py_repr (JObj kvs) =
     [CHR 0x7B] @ join '', '' (map (\<lambda>(k, v). repr_str k @ '': '' @ py_repr v) kvs) @ [CHR 0x7D]"

definition py_str :: "json \<Rightarrow> string" where
  "py_str v = (case v of JStr s \<Rightarrow> s | _ \<Rightarrow> py_repr v)"

lemma py_str_JStr [simp]: "py_str (JStr s) = s"
  by (simp add: py_str_def)

section \<open>The parser\<close>

fun skip_ws :: "string \<Rightarrow> string" where
  "skip_ws [] = []"
| "skip_ws (c # cs) =
     (if c \<in> {CHR 0x20, CHR 0x09, CHR 0x0A, CHR 0x0D} then skip_ws cs else c # cs)"

definition hex_val :: "char \<Rightarrow> nat option" where
  "hex_val c =
     (let n = (of_char c :: nat) in
      if 48 \<le> n \<and> n \<le> 57 then Some (n - 48)
      else if 97 \<le> n \<and> n \<le> 102 then Some (n - 87)
      else if 65 \<le> n \<and> n \<le> 70 then Some (n - 55)
      else None)"

definition hex4 :: "string \<Rightarrow> nat option" where
  "hex4 s =
     (if length s = 4 \<and> list_all (\<lambda>c. hex_val c \<noteq> None) s
      then Some (fold (\<lambda>c acc. 16 * acc + the (hex_val c)) s 0) else None)"

definition utf8_encode :: "nat \<Rightarrow> string" where
  "utf8_encode u =
     (if u < 128 then [char_of u]
      else if u < 2048 then [char_of (192 + u div 64), char_of (128 + u mod 64)]
      else if u < 65536
      then [char_of (224 + u div 4096), char_of (128 + u div 64 mod 64), char_of (128 + u mod 64)]
      else [char_of (240 + u div 262144), char_of (128 + u div 4096 mod 64),
            char_of (128 + u div 64 mod 64), char_of (128 + u mod 64)])"

definition simple_escape :: "char \<Rightarrow> char option" where
  "simple_escape e = map_of
     [(CHR 0x22, CHR 0x22), (CHR 0x5C, CHR 0x5C), (CHR 0x2F, CHR 0x2F), (CHR ''b'', CHR 0x08),
      (CHR ''f'', CHR 0x0C), (CHR ''n'', CHR 0x0A), (CHR ''r'', CHR 0x0D), (CHR ''t'', CHR 0x09)] e"

text \<open>What follows a backslash: the bytes it stands for and the rest of the input.\<close>

definition parse_escape :: "string \<Rightarrow> (string \<times> string) option" where
  "parse_escape cs =
     (if cs = [] then None
      else if hd cs = CHR ''u'' then
        (let es = tl cs in
         case hex4 (take 4 es) of
           None \<Rightarrow> None
         | Some u \<Rightarrow>
             if 0xD800 \<le> u \<and> u \<le> 0xDBFF \<and> take 2 (drop 4 es) = [CHR 0x5C, CHR ''u''] then
               (case hex4 (take 4 (drop 6 es)) of
                  None \<Rightarrow> None
                | Some v \<Rightarrow>
                    if 0xDC00 \<le> v \<and> v \<le> 0xDFFF
                    then Some (utf8_encode (0x10000 + (u - 0xD800) * 1024 + (v - 0xDC00)), drop 10 es)
                    else Some (utf8_encode u, drop 4 es))
             else Some (utf8_encode u, drop 4 es))
      else (case simple_escape (hd cs) of None \<Rightarrow> None | Some x \<Rightarrow> Some ([x], tl cs)))"

lemma length_parse_escape: "parse_escape cs = Some (x, t) \<Longrightarrow> length t < length cs"
  by (cases cs) (auto simp: parse_escape_def Let_def split: if_splits option.splits)

text \<open>The rest of a string literal after its opening quote.\<close>

function parse_str :: "string \<Rightarrow> string \<Rightarrow> (string \<times> string) option" where
  "parse_str acc [] = None"
| "parse_str acc (c # cs) =
     (if c = CHR 0x22 then Some (acc, cs)
      else if c = CHR 0x5C then
        (case parse_escape cs of None \<Rightarrow> None | Some (x, es) \<Rightarrow> parse_str (acc @ x) es)
      else if (of_char c :: nat) < 32 then None
      else parse_str (acc @ [c]) cs)"
  by pat_completeness auto
termination
  by (relation "measure (\<lambda>(acc, s). length s)") (auto dest: length_parse_escape)

text \<open>
  A number: sign, integer part, optional fraction, optional exponent, each taken greedily as
  (text, rest).
\<close>

definition num_sign :: "string \<Rightarrow> string \<times> string" where
  "num_sign s = (if s \<noteq> [] \<and> hd s = CHR ''-'' then (''-'', tl s) else ([], s))"

definition num_int :: "string \<Rightarrow> string \<times> string" where
  "num_int s = (if s \<noteq> [] \<and> hd s = CHR ''0'' then (''0'', tl s)
                else (takeWhile is_digit s, dropWhile is_digit s))"

definition num_frac :: "string \<Rightarrow> string \<times> string" where
  "num_frac s = (if s \<noteq> [] \<and> hd s = CHR ''.'' \<and> takeWhile is_digit (tl s) \<noteq> []
                 then (''.'' @ takeWhile is_digit (tl s), dropWhile is_digit (tl s)) else ([], s))"

definition num_exp :: "string \<Rightarrow> string \<times> string" where
  "num_exp s =
     (let r = tl s; sg = (if r \<noteq> [] \<and> hd r \<in> {CHR ''+'', CHR ''-''} then [hd r] else []);
          ds = takeWhile is_digit (drop (length sg) r)
      in if s \<noteq> [] \<and> hd s \<in> {CHR ''e'', CHR ''E''} \<and> ds \<noteq> []
         then (''e'' @ sg @ ds, dropWhile is_digit (drop (length sg) r)) else ([], s))"

definition parse_number :: "string \<Rightarrow> (json \<times> string) option" where
  "parse_number s =
     (case num_sign s of (sg, s1) \<Rightarrow>
      case num_int s1 of (ip, s2) \<Rightarrow>
      case num_frac s2 of (fr, s3) \<Rightarrow>
      case num_exp s3 of (ex, s4) \<Rightarrow>
        if ip = [] then None
        else if fr = [] \<and> ex = [] then Some (JInt (the (parse_int (sg @ ip))), s4)
        else Some (JFloat (the (parse_float (sg @ ip @ fr @ ex))), s4))"

lemma num_parts_length:
  "num_sign s = (x, t) \<Longrightarrow> length t \<le> length s"
  "num_int s = (x, t) \<Longrightarrow> x \<noteq> [] \<Longrightarrow> length t < length s"
  "num_frac s = (x, t) \<Longrightarrow> length t \<le> length s"
  "num_exp s = (x, t) \<Longrightarrow> length t \<le> length s"
proof -
  show "num_sign s = (x, t) \<Longrightarrow> length t \<le> length s"
    by (auto simp: num_sign_def split: if_splits)
  show "num_int s = (x, t) \<Longrightarrow> x \<noteq> [] \<Longrightarrow> length t < length s"
  proof (cases s)
    case (Cons c cs)
    then show "num_int s = (x, t) \<Longrightarrow> x \<noteq> [] \<Longrightarrow> length t < length s"
      using length_dropWhile_le [of is_digit cs] by (auto simp: num_int_def split: if_splits)
  qed (auto simp: num_int_def)
  show "num_frac s = (x, t) \<Longrightarrow> length t \<le> length s"
    using length_dropWhile_le [of is_digit "tl s"] by (auto simp: num_frac_def split: if_splits)
  show "num_exp s = (x, t) \<Longrightarrow> length t \<le> length s"
    using length_dropWhile_le [of is_digit "tl s"] length_dropWhile_le [of is_digit "tl (tl s)"]
    by (auto simp: num_exp_def Let_def drop_Suc split: if_splits)
qed

lemma length_parse_number: "parse_number s = Some (v, t) \<Longrightarrow> length t < length s"
  unfolding parse_number_def
  by (auto split: prod.splits if_splits dest!: num_parts_length)

lemma length_skip_ws: "length (skip_ws s) \<le> length s"
  by (induction s) auto

lemma length_parse_str: "parse_str acc s = Some (x, t) \<Longrightarrow> length t < length s"
proof (induction acc s rule: parse_str.induct)
  case (2 acc c cs)
  show ?case
  proof (cases "c = CHR 0x5C")
    case True
    with "2.prems" obtain y es where
      esc: "parse_escape cs = Some (y, es)" and rest: "parse_str (acc @ y) es = Some (x, t)"
      by (auto split: option.splits)
    from "2.IH"(1) True esc rest have "length t < length es" by simp
    with length_parse_escape [OF esc] show ?thesis by simp
  next
    case False
    with "2.prems" "2.IH"(2) show ?thesis by (auto split: if_splits simp: less_SucI)
  qed
qed simp

text \<open>A value that is not a list, an object or a string.\<close>

definition json_atom :: "string \<Rightarrow> (json \<times> string) option" where
  "json_atom s =
     (if startswith s ''null'' then Some (JNull, drop 4 s)
      else if startswith s ''true'' then Some (JBool True, drop 4 s)
      else if startswith s ''false'' then Some (JBool False, drop 5 s)
      else (case parse_number s of
          Some r \<Rightarrow> Some r
        | None \<Rightarrow>
            if startswith s ''NaN'' then Some (JFloat NaN, drop 3 s)
            else if startswith s ''Infinity'' then Some (JFloat PInf, drop 8 s)
            else if startswith s ''-Infinity'' then Some (JFloat NInf, drop 9 s)
            else None))"

lemma startswith_length: "startswith s p \<Longrightarrow> length p \<le> length s"
  by (auto simp: startswith_iff)

lemma json_atom_facts:
  assumes "json_atom s = Some (v, t)"
  shows "length t < length s \<and> json_wf v"
proof (cases "parse_number s")
  case None
  with assms show ?thesis
    by (auto simp: json_atom_def dest!: startswith_length split: if_splits)
next
  case (Some r)
  with assms have "(v, t) = r \<or> (json_wf v \<and> length t < length s)"
    by (auto simp: json_atom_def dest!: startswith_length split: if_splits)
  moreover have "json_wf (fst r)" using Some
    by (auto simp: parse_number_def split: prod.splits if_splits)
  moreover have "length (snd r) < length s" using Some length_parse_number [of s "fst r" "snd r"] by simp
  ultimately show ?thesis by auto
qed

function json_value :: "string \<Rightarrow> (json \<times> string) option"
  and json_elems :: "string \<Rightarrow> (json list \<times> string) option"
  and json_members :: "string \<Rightarrow> ((string \<times> json) list \<times> string) option" where
  "json_value s =
     (if s = [] then None
      else if hd s = CHR 0x22 then map_option (\<lambda>(x, t). (JStr x, t)) (parse_str [] (tl s))
      else if hd s = CHR 0x7B then
        (let r = skip_ws (tl s)
         in if r \<noteq> [] \<and> hd r = CHR 0x7D then Some (JObj [], tl r)
            else map_option (\<lambda>(kvs, t). (JObj (dict_merge [] kvs), t)) (json_members r))
      else if hd s = CHR 0x5B then
        (let r = skip_ws (tl s)
         in if r \<noteq> [] \<and> hd r = CHR 0x5D then Some (JList [], tl r)
            else map_option (\<lambda>(vs, t). (JList vs, t)) (json_elems r))
      else json_atom s)"
| "json_elems s =
     (case json_value s of
        None \<Rightarrow> None
      | Some (v, t) \<Rightarrow>
          (let t' = skip_ws t
           in if t' = [] then None
              else if hd t' = CHR 0x5D then Some ([v], tl t')
              else if hd t' = CHR 0x2C \<and> length t' < length s then
                map_option (\<lambda>(vs, u). (v # vs, u)) (json_elems (skip_ws (tl t')))
              else None))"
| "json_members s =
     (if s = [] \<or> hd s \<noteq> CHR 0x22 then None
      else (case parse_str [] (tl s) of
        None \<Rightarrow> None
      | Some (k, t) \<Rightarrow>
          (let t1 = skip_ws t
           in if t1 = [] \<or> hd t1 \<noteq> CHR 0x3A then None
              else (case json_value (skip_ws (tl t1)) of
                  None \<Rightarrow> None
                | Some (v, u) \<Rightarrow>
                    (let u' = skip_ws u
                     in if u' = [] then None
                        else if hd u' = CHR 0x7D then Some ([(k, v)], tl u')
                        else if hd u' = CHR 0x2C \<and> length u' < length s then
                          map_option (\<lambda>(kvs, x). ((k, v) # kvs, x)) (json_members (skip_ws (tl u')))
                        else None)))))"
  by pat_completeness auto
termination
proof (relation "measure (\<lambda>x. case x of
      Inl s \<Rightarrow> 2 * length s
    | Inr (Inl s) \<Rightarrow> 2 * length s + 1
    | Inr (Inr s) \<Rightarrow> 2 * length s + 1)", goal_cases)
  case 1
  show ?case by simp
next
  case (2 s x)
  then show ?case using length_skip_ws [of "tl s"] by (cases s) auto
next
  case (3 s x)
  then show ?case using length_skip_ws [of "tl s"] by (cases s) auto
next
  case (4 s)
  show ?case by simp
next
  case (5 s p v t t')
  then show ?case using length_skip_ws [of "tl t'"] by (cases t') auto
next
  case (6 s p k t t1)
  then have "length t < length (tl s)" by (auto dest: length_parse_str)
  moreover have "length t1 \<le> length t" using 6 length_skip_ws [of t] by simp
  ultimately show ?case using 6 length_skip_ws [of "tl t1"] by (cases s; cases t1) auto
next
  case (7 s p k t t1 q v u u')
  then show ?case using length_skip_ws [of "tl u'"] by (cases u') auto
qed

declare json_value.simps [simp del] json_elems.simps [simp del] json_members.simps [simp del]

text \<open>\<^verbatim>\<open>json.loads\<close>: white space, one value, white space, end of input.\<close>

definition json_loads :: "string \<Rightarrow> json res" where
  "json_loads s =
     (case json_value (skip_ws s) of
        None \<Rightarrow> Inl JSONDecodeError
      | Some (v, t) \<Rightarrow> if skip_ws t = [] then Inr v else Inl JSONDecodeError)"


section \<open>The parser consumes input and returns well-formed values\<close>

lemma update_values: "q \<in> set (AList.update k v d) \<Longrightarrow> q = (k, v) \<or> q \<in> set d"
  by (induction d) (auto split: if_splits)

lemma set_dict_merge_values: "(k, v) \<in> set (dict_merge d e) \<Longrightarrow> v \<in> snd ` set d \<or> v \<in> snd ` set e"
proof (induction e arbitrary: d)
  case (Cons p e)
  have "dict_merge d (p # e) = dict_merge (AList.update (fst p) (snd p) d) e"
    by (simp add: dict_merge_def split_beta)
  with Cons.prems have "v \<in> snd ` set (AList.update (fst p) (snd p) d) \<or> v \<in> snd ` set e"
    using Cons.IH by simp
  moreover have "v = snd p \<or> v \<in> snd ` set d" if "v \<in> snd ` set (AList.update (fst p) (snd p) d)"
    using that by (auto dest!: update_values intro: rev_image_eqI)
  ultimately show ?case by auto
qed (force simp: dict_merge_def)

lemma json_wf_merge:
  assumes "list_all (\<lambda>(k, v). json_wf v) kvs"
  shows "json_wf (JObj (dict_merge [] kvs))"
proof -
  have "json_wf v" if "(k, v) \<in> set (dict_merge [] kvs)" for k v
  proof -
    from that have "v \<in> snd ` set kvs" using set_dict_merge_values [of k v "[]" kvs] by simp
    with assms show ?thesis by (auto simp: list_all_iff)
  qed
  then show ?thesis using distinct_keys_merge [of "[]" kvs] by (auto simp: list_all_iff)
qed

text \<open>The ways in which a value, a list and a dictionary are parsed.\<close>

lemma json_valueE:
  assumes "json_value s = Some (v, t)"
  obtains (atom) "json_atom s = Some (v, t)"
  | (str) x where "s \<noteq> []" "parse_str [] (tl s) = Some (x, t)" "v = JStr x"
  | (none) "s \<noteq> []" "skip_ws (tl s) \<noteq> []" "t = tl (skip_ws (tl s))" "v = JObj [] \<or> v = JList []"
  | (obj) kvs where "s \<noteq> []" "hd s = CHR 0x7B" "\<not> (skip_ws (tl s) \<noteq> [] \<and> hd (skip_ws (tl s)) = CHR 0x7D)"
      "json_members (skip_ws (tl s)) = Some (kvs, t)" "v = JObj (dict_merge [] kvs)"
  | (arr) vs where "s \<noteq> []" "hd s = CHR 0x5B" "\<not> (skip_ws (tl s) \<noteq> [] \<and> hd (skip_ws (tl s)) = CHR 0x5D)"
      "json_elems (skip_ws (tl s)) = Some (vs, t)" "v = JList vs"
proof -
  have s: "s \<noteq> []" using assms by (auto simp: json_value.simps)
  consider "hd s = CHR 0x22" | "hd s = CHR 0x7B" | "hd s = CHR 0x5B" | "hd s \<notin> {CHR 0x22, CHR 0x7B, CHR 0x5B}"
    by blast
  then show thesis
  proof cases
    case 1
    with assms s str show thesis by (subst (asm) json_value.simps) auto
  next
    case 2
    with assms s none obj show thesis
      by (subst (asm) json_value.simps) (auto simp: Let_def split: if_splits)
  next
    case 3
    with assms s none arr show thesis
      by (subst (asm) json_value.simps) (auto simp: Let_def split: if_splits)
  next
    case 4
    with assms s atom show thesis by (subst (asm) json_value.simps) simp
  qed
qed

lemma json_elemsE:
  assumes "json_elems s = Some (vs, t)"
  obtains (one) v u where "json_value s = Some (v, u)" "skip_ws u \<noteq> []" "vs = [v]" "t = tl (skip_ws u)"
  | (more) v u us where "json_value s = Some (v, u)" "skip_ws u \<noteq> []" "hd (skip_ws u) \<noteq> CHR 0x5D"
      "hd (skip_ws u) = CHR 0x2C" "length (skip_ws u) < length s"
      "json_elems (skip_ws (tl (skip_ws u))) = Some (us, t)" "vs = v # us"
  using assms by (subst (asm) json_elems.simps) (auto simp: Let_def split: option.splits if_splits)

lemma json_membersE:
  assumes "json_members s = Some (kvs, t)"
  obtains (one) k r v u where "parse_str [] (tl s) = Some (k, r)" "s \<noteq> []" "hd s = CHR 0x22"
      "skip_ws r \<noteq> []" "hd (skip_ws r) = CHR 0x3A"
      "json_value (skip_ws (tl (skip_ws r))) = Some (v, u)" "skip_ws u \<noteq> []" "kvs = [(k, v)]" "t = tl (skip_ws u)"
  | (more) k r v u us where "parse_str [] (tl s) = Some (k, r)" "s \<noteq> []" "hd s = CHR 0x22"
      "skip_ws r \<noteq> []" "hd (skip_ws r) = CHR 0x3A"
      "json_value (skip_ws (tl (skip_ws r))) = Some (v, u)" "skip_ws u \<noteq> []" "hd (skip_ws u) \<noteq> CHR 0x7D"
      "hd (skip_ws u) = CHR 0x2C" "length (skip_ws u) < length s"
      "json_members (skip_ws (tl (skip_ws u))) = Some (us, t)" "kvs = (k, v) # us"
  using assms by (subst (asm) json_members.simps) (auto simp: Let_def split: option.splits if_splits)

lemma tl_skip_less: "length u < n \<Longrightarrow> skip_ws u \<noteq> [] \<Longrightarrow> length (tl (skip_ws u)) < n"
  using length_skip_ws [of u] by (cases "skip_ws u") auto

lemma skip_less: "length u < length (skip_ws (tl r)) \<Longrightarrow> length u < length r"
  using length_skip_ws [of "tl r"] by (cases r) auto

lemma json_parse_facts:
  "json_value s = Some (v, t) \<Longrightarrow> length t < length s \<and> json_wf v"
  "json_elems s1 = Some (vs, t1) \<Longrightarrow> length t1 < length s1 \<and> list_all json_wf vs"
  "json_members s2 = Some (kvs, t2) \<Longrightarrow> length t2 < length s2 \<and> list_all (\<lambda>(k, v). json_wf v) kvs"
proof (induction s and s1 and s2 arbitrary: v t and vs t1 and kvs t2
    rule: json_value_json_elems_json_members.induct)
  case (1 s)
  from "1.prems" show ?case
  proof (cases rule: json_valueE)
    case atom
    then show ?thesis by (rule json_atom_facts)
  next
    case (str x)
    then show ?thesis using length_parse_str [of "[]" "tl s" x t] by simp
  next
    case none
    then show ?thesis using tl_skip_less [of "tl s" "length s"] by (cases s) auto
  next
    case (obj kvs)
    with "1.IH"(1) [of "skip_ws (tl s)"] json_wf_merge [of kvs] skip_less [of t s] show ?thesis
      by (auto simp del: json_wf.simps)
  next
    case (arr vs)
    with "1.IH"(2) [of "skip_ws (tl s)"] skip_less [of t s] show ?thesis by auto
  qed
next
  case (2 s1)
  from "2.prems" show ?case
  proof (cases rule: json_elemsE)
    case (one v u)
    then show ?thesis using "2.IH"(1) tl_skip_less [of u "length s1"] by auto
  next
    case (more v u us)
    with "2.IH"(2) [OF more(1) refl refl] have "length t1 < length (skip_ws (tl (skip_ws u)))" "list_all json_wf us"
      by auto
    with skip_less [of t1 "skip_ws u"] more "2.IH"(1) show ?thesis by auto
  qed
next
  case (3 s2)
  from "3.prems" show ?case
  proof (cases rule: json_membersE)
    case (one k r v u)
    then have "length u < length (skip_ws (tl (skip_ws r)))" "json_wf v" using "3.IH"(1) by auto
    with one tl_skip_less [of u "length s2"] skip_less [of u "skip_ws r"] length_skip_ws [of r] length_parse_str [OF one(1)]
    show ?thesis by auto
  next
    case (more k r v u us)
    then have "length t2 < length (skip_ws (tl (skip_ws u)))" "list_all (\<lambda>(k, v). json_wf v) us" "json_wf v"
      using "3.IH" by auto
    with skip_less [of t2 "skip_ws u"] more show ?thesis by auto
  qed
qed

text \<open>So the length tests of the two loops never fail: they only help the termination proof.\<close>

lemma json_elems_guard: "json_value s = Some (v, t) \<Longrightarrow> length (skip_ws t) < length s"
  using json_parse_facts(1) [of s v t] length_skip_ws [of t] by simp

lemma json_loads_wf: "json_loads s = Inr v \<Longrightarrow> json_wf v"
  by (auto simp: json_loads_def dest: json_parse_facts(1) split: option.splits if_splits)

end
