(* ===== verification/Py_World.thy ===== *)
theory Py_World
  imports Py_Path Py_Json
begin

text \<open>
  The world a script runs in: its file system, working directory, environment and the trace of
  what it printed and which programs it ran. External programs (docker, git, bazel) are not part
  of the repository: a script takes them as a parameter of type \<open>runner\<close>.
\<close>

datatype stream = Stdout | Stderr

text \<open>Something printed, a program started, a running program terminated by the script.\<close>

datatype effect = Out stream string | Exec "string list" | Killed "string list"

record world =
  w_fs :: fsys
  w_cwd :: loc
  w_env :: "string dict"
  w_trace :: "effect list"

text \<open>How a program ends: exit code, stdout and stderr; or it is not installed; or Ctrl-C.\<close>

datatype proc = Exited int string string | NoSuchProgram | Interrupted

text \<open>
  A program sees the whole world, including the trace of earlier commands, so its answer may
  depend on any history; it may change the file system.
\<close>

type_synonym runner = "world \<Rightarrow> string list \<Rightarrow> proc \<times> fsys"

type_synonym 'a script = "(world, 'a) io"

definition print_to :: "stream \<Rightarrow> string \<Rightarrow> unit script" where
  "print_to s msg = (\<lambda>w. (Inr (), w\<lparr>w_trace := w_trace w @ [Out s msg]\<rparr>))"

definition sys_exit :: "int \<Rightarrow> 'a script" where
  "sys_exit n = io_raise (SystemExit n)"

definition getenv :: "string \<Rightarrow> string option script" where
  "getenv k = (\<lambda>w. (Inr (map_of (w_env w) k), w))"

definition query :: "(world \<Rightarrow> 'a) \<Rightarrow> 'a script" where
  "query f = (\<lambda>w. (Inr (f w), w))"

definition query_res :: "(world \<Rightarrow> 'a res) \<Rightarrow> 'a script" where
  "query_res f = (\<lambda>w. (f w, w))"

text \<open>\<^verbatim>\<open>subprocess.run(cmd, check=False)\<close>: exit code, stdout, stderr.\<close>

definition run_unchecked :: "runner \<Rightarrow> string list \<Rightarrow> (int \<times> string \<times> string) script" where
  "run_unchecked run cmd = (\<lambda>w.
     case run w cmd of (p, fs') \<Rightarrow>
       (let w' = w\<lparr>w_fs := fs', w_trace := w_trace w @ [Exec cmd]\<rparr> in
        case p of
          Exited rc out err \<Rightarrow> (Inr (rc, out, err), w')
        | NoSuchProgram \<Rightarrow> (Inl (FileNotFoundError (hd cmd)), w')
        | Interrupted \<Rightarrow> (Inl KeyboardInterrupt, w')))"

text \<open>\<^verbatim>\<open>subprocess.run(cmd, check=True)\<close>\<close>

definition run_checked :: "runner \<Rightarrow> string list \<Rightarrow> (string \<times> string) script" where
  "run_checked run cmd =
     io_bind (run_unchecked run cmd) (\<lambda>(rc, out, err).
       if rc = 0 then io_return (out, err) else io_raise (CalledProcessError cmd rc out err))"

text \<open>The commands of a trace.\<close>

definition execs :: "effect list \<Rightarrow> string list list" where
  "execs tr = [c. Exec c \<leftarrow> tr]"

text \<open>What a script printed on a stream.\<close>

definition printed :: "stream \<Rightarrow> effect list \<Rightarrow> string list" where
  "printed s tr = [m. Out s' m \<leftarrow> tr, s' = s]"

lemma execs_simps [simp]:
  "execs [] = []" "execs (xs @ ys) = execs xs @ execs ys"
  "execs (Exec c # tr) = c # execs tr" "execs (Out s m # tr) = execs tr"
  "execs (Killed c # tr) = execs tr"
  by (simp_all add: execs_def)

lemma printed_simps [simp]:
  "printed s [] = []" "printed s (xs @ ys) = printed s xs @ printed s ys"
  "printed s (Exec c # tr) = printed s tr" "printed s (Killed c # tr) = printed s tr"
  "printed s (Out s' m # tr) = (if s' = s then m # printed s tr else printed s tr)"
  by (simp_all add: printed_def)

text \<open>
  What a script adds to the trace. \<open>adds P m\<close>: every effect \<open>m\<close> adds satisfies \<open>P\<close>, whether \<open>m\<close>
  returns or raises; the working directory is kept.
\<close>

definition extends :: "(effect \<Rightarrow> bool) \<Rightarrow> world \<Rightarrow> world \<Rightarrow> bool" where
  "extends P w w' \<longleftrightarrow> (\<exists>tr. w_trace w' = w_trace w @ tr \<and> list_all P tr) \<and> w_cwd w' = w_cwd w"

interpretation extends: state_rel "extends P"
proof
  show "extends P w w" for w by (auto simp: extends_def)
  show "extends P u v \<Longrightarrow> extends P v w \<Longrightarrow> extends P u w" for u v w
    by (fastforce simp: extends_def)
qed

lemma extends_mono: "extends P w w' \<Longrightarrow> (\<And>e. P e \<Longrightarrow> Q e) \<Longrightarrow> extends Q w w'"
  by (auto simp: extends_def list_all_iff)

lemma keeps_extends_mono: "keeps (extends P) m \<Longrightarrow> (\<And>e. P e \<Longrightarrow> Q e) \<Longrightarrow> keeps (extends Q) m"
  unfolding keeps_def using extends_mono by metis

lemma keeps_print: "P (Out s msg) \<Longrightarrow> keeps (extends P) (print_to s msg)"
  by (auto simp: keeps_def print_to_def extends_def)

lemma keeps_run_unchecked: "P (Exec cmd) \<Longrightarrow> keeps (extends P) (run_unchecked run cmd)"
  by (auto simp: keeps_def run_unchecked_def extends_def Let_def split: prod.splits proc.splits)

lemma keeps_run_checked: "P (Exec cmd) \<Longrightarrow> keeps (extends P) (run_checked run cmd)"
  unfolding run_checked_def
  by (intro extends.keeps_bind keeps_run_unchecked)
    (auto intro: extends.keeps_return extends.keeps_raise split: prod.split)

lemma keeps_query [simp]: "keeps (extends P) (query f)" "keeps (extends P) (query_res g)"
  "keeps (extends P) (getenv k)" "keeps (extends P) (sys_exit n)"
  by (auto simp: keeps_def query_def query_res_def getenv_def sys_exit_def io_raise_def
      intro: extends.R_refl)

lemmas extends_rules = extends.keeps_rules keeps_print keeps_run_unchecked keeps_run_checked
  keeps_query

text \<open>
  A runner that leaves the files alone, which is what \<^verbatim>\<open>docker\<close> commands do with the files of the
  build context.
\<close>

definition files_kept :: "runner \<Rightarrow> bool" where
  "files_kept run \<longleftrightarrow> (\<forall>w cmd. snd (run w cmd) = w_fs w)"

lemma same_fs_run:
  "files_kept run \<Longrightarrow> keeps (same_part w_fs) (run_unchecked run cmd)"
  by (auto simp: keeps_def run_unchecked_def same_part_def files_kept_def Let_def
      split: prod.splits proc.splits) (metis snd_conv)+

lemma same_fs_run_checked:
  "files_kept run \<Longrightarrow> keeps (same_part w_fs) (run_checked run cmd)"
  unfolding run_checked_def
  by (intro same_part.keeps_bind same_fs_run)
    (auto intro: same_part.keeps_return same_part.keeps_raise split: prod.split)

lemma same_fs_print: "keeps (same_part w_fs) (print_to s msg)"
  by (simp add: keeps_def print_to_def same_part_def)

end
