(* ===== verification/Docker_Config.thy ===== *)
theory Docker_Config
  imports Py_World
begin

text \<open>
  The configuration side of \<^verbatim>\<open>scripts/docker/build.py\<close>: the schema of \<^verbatim>\<open>devkit.json\<close> and its
  validation, the registry settings, the image prefix and the \<^verbatim>\<open>deps.json\<close> files.
\<close>

section \<open>Schema validation\<close>

datatype pytype = TDict | TStr | TList

fun pytype_name :: "pytype \<Rightarrow> string" where
  "pytype_name TDict = ''dict''"
| "pytype_name TStr = ''str''"
| "pytype_name TList = ''list''"

fun isinstance :: "json \<Rightarrow> pytype \<Rightarrow> bool" where
  "isinstance (JObj _) TDict = True"
| "isinstance (JStr _) TStr = True"
| "isinstance (JList _) TList = True"
| "isinstance _ _ = False"

text \<open>
  A schema dictionary: its \<^verbatim>\<open>type\<close> (if given), \<^verbatim>\<open>properties\<close> (empty if not given) and
  \<^verbatim>\<open>additional_properties\<close> (True if not given; False; or a schema).
\<close>

datatype schema = Schema "pytype option" "(string \<times> schema) list" addl
  and addl = AddAny | AddNone | AddSchema schema

abbreviation str_schema :: schema where
  "str_schema \<equiv> Schema (Some TStr) [] AddAny"

abbreviation str_map_schema :: schema where
  "str_map_schema \<equiv> Schema (Some TDict) [] (AddSchema str_schema)"

definition IMAGE_SCHEMA :: schema where
  "IMAGE_SCHEMA = Schema (Some TDict)
     [(''packages'', str_map_schema), (''keys'', str_map_schema), (''repositories'', str_map_schema)]
     AddNone"

definition REGISTRY_SCHEMA :: schema where
  "REGISTRY_SCHEMA = Schema (Some TDict)
     [(''host'', str_schema), (''project'', str_schema), (''repository'', str_schema),
      (''namespace'', str_schema)]
     AddNone"

definition CONFIG_SCHEMA :: schema where
  "CONFIG_SCHEMA = Schema (Some TDict)
     [(''docker'', Schema (Some TDict)
        [(''registry'', REGISTRY_SCHEMA),
         (''run'', Schema (Some TList) [] AddAny),
         (''images'', Schema (Some TDict) [] (AddSchema IMAGE_SCHEMA))]
        AddNone)]
     AddNone"

definition sub_path :: "string \<Rightarrow> string \<Rightarrow> string" where
  "sub_path path key = (if path \<noteq> [] then path @ ''.'' @ key else key)"

definition type_error_msg :: "string \<Rightarrow> pytype \<Rightarrow> json \<Rightarrow> string" where
  "type_error_msg path t data =
     ''Invalid type at '' @ [CHR 0x27] @ path @ [CHR 0x27] @ ''. Expected '' @ pytype_name t @
     '', got '' @ type_name data @ ''.''"

definition extra_keys_msg :: "string \<Rightarrow> string list \<Rightarrow> string" where
  "extra_keys_msg path ks =
     ''Unexpected fields at '' @ [CHR 0x27] @ path @ [CHR 0x27] @ '': '' @ join '', '' (sort ks)"

fun validate_config :: "json \<Rightarrow> schema \<Rightarrow> string \<Rightarrow> unit res" where
  "validate_config data (Schema ty props extra) path =
     res_bind
       (case ty of
          None \<Rightarrow> Inr ()
        | Some t \<Rightarrow> if isinstance data t then Inr () else Inl (ValueError (type_error_msg path t data)))
       (\<lambda>_. case data of
          JObj kvs \<Rightarrow>
            res_bind
              (let extra_keys = filter (\<lambda>k. k \<notin> set (dict_keys props)) (dict_keys kvs)
               in if extra = AddNone \<and> extra_keys \<noteq> []
                  then Inl (ValueError (extra_keys_msg path extra_keys)) else Inr ())
              (\<lambda>_. res_bind
                (res_for (\<lambda>(key, prop_schema).
                    (case map_of kvs key of
                       None \<Rightarrow> Inr ()
                     | Some v \<Rightarrow> validate_config v prop_schema (sub_path path key))) props)
                (\<lambda>_. case extra of
                    AddSchema s \<Rightarrow>
                      res_for (\<lambda>(key, v).
                        if key \<in> set (dict_keys props) then Inr ()
                        else validate_config v s (sub_path path key)) kvs
                  | _ \<Rightarrow> Inr ()))
        | _ \<Rightarrow> Inr ())"

text \<open>
  The specification: a value conforms to a schema when it has the type and every field of a
  dictionary conforms to the schema of its property, or else to what is said of additional ones.
\<close>

fun conforms :: "json \<Rightarrow> schema \<Rightarrow> bool" and
  conforms_field :: "json \<Rightarrow> schema option \<Rightarrow> addl \<Rightarrow> bool" where
  "conforms v (Schema ty props extra) \<longleftrightarrow>
     (\<forall>t. ty = Some t \<longrightarrow> isinstance v t) \<and>
     (\<forall>kvs. v = JObj kvs \<longrightarrow>
        (\<forall>(k, f) \<in> set kvs. conforms_field f (map_of props k) extra))"
| "conforms_field f (Some s) extra = conforms f s"
| "conforms_field f None AddAny = True"
| "conforms_field f None AddNone = False"
| "conforms_field f None (AddSchema s) = conforms f s"


fun schema_wf :: "schema \<Rightarrow> bool" where
  "schema_wf (Schema ty props extra) \<longleftrightarrow>
     distinct (map fst props) \<and> list_all (\<lambda>(k, s). schema_wf s) props \<and>
     (case extra of AddSchema s \<Rightarrow> schema_wf s | _ \<Rightarrow> True)"

lemma CONFIG_SCHEMA_wf: "schema_wf CONFIG_SCHEMA"
  by (simp add: CONFIG_SCHEMA_def REGISTRY_SCHEMA_def IMAGE_SCHEMA_def)

lemma conforms_field_iff:
  "conforms_field f ps extra \<longleftrightarrow>
     (\<forall>s. ps = Some s \<longrightarrow> conforms f s) \<and>
     (ps = None \<longrightarrow> extra \<noteq> AddNone \<and> (\<forall>s. extra = AddSchema s \<longrightarrow> conforms f s))"
  by (cases ps; cases extra) auto

text \<open>The loops of the validator over a dictionary, as one condition on its fields.\<close>

lemma dict_loops_iff:
  assumes "distinct (map fst kvs)" and "distinct (map fst props)"
  shows "(extra = AddNone \<longrightarrow> filter (\<lambda>k. k \<notin> set (dict_keys props)) (dict_keys kvs) = []) \<and>
      (\<forall>(k, s) \<in> set props. \<forall>v. map_of kvs k = Some v \<longrightarrow> conforms v s) \<and>
      (\<forall>s. extra = AddSchema s \<longrightarrow> (\<forall>(k, v) \<in> set kvs. k \<notin> set (dict_keys props) \<longrightarrow> conforms v s)) \<longleftrightarrow>
    (\<forall>(k, f) \<in> set kvs. conforms_field f (map_of props k) extra)" (is "?loops \<longleftrightarrow> ?fields")
proof
  assume L: ?loops
  show ?fields
  proof clarify
    fix k f
    assume kf: "(k, f) \<in> set kvs"
    then have mk: "map_of kvs k = Some f" using assms(1) by simp
    show "conforms_field f (map_of props k) extra"
    proof (cases "map_of props k")
      case None
      then have "k \<notin> set (dict_keys props)" by (simp add: dict_keys_def map_of_eq_None_iff)
      moreover have "k \<in> set (dict_keys kvs)" using kf by (force simp: dict_keys_def)
      ultimately have "extra \<noteq> AddNone" "\<forall>s. extra = AddSchema s \<longrightarrow> conforms f s"
        using L kf by (auto simp: filter_empty_conv)
      then show ?thesis by (simp add: conforms_field_iff None)
    next
      case (Some s)
      then have "conforms f s" using L mk map_of_SomeD [OF Some] by blast
      then show ?thesis by (simp add: Some)
    qed
  qed
next
  assume F: ?fields
  have "\<forall>(k, s) \<in> set props. \<forall>v. map_of kvs k = Some v \<longrightarrow> conforms v s"
  proof clarify
    fix k s v
    assume "(k, s) \<in> set props" and "map_of kvs k = Some v"
    then have "map_of props k = Some s" "(k, v) \<in> set kvs" using assms(2) map_of_SomeD by auto
    with F show "conforms v s" by force
  qed
  moreover have X: "extra \<noteq> AddNone \<and> (\<forall>s. extra = AddSchema s \<longrightarrow> conforms v s)"
    if "(k, v) \<in> set kvs" "k \<notin> set (dict_keys props)" for k v
  proof -
    from that(2) have "map_of props k = None" by (simp add: dict_keys_def map_of_eq_None_iff)
    moreover have "conforms_field v (map_of props k) extra" using F that(1) by blast
    ultimately show ?thesis by (simp add: conforms_field_iff)
  qed
  moreover have "filter (\<lambda>k. k \<notin> set (dict_keys props)) (dict_keys kvs) = []" if "extra = AddNone"
    using that X by (fastforce simp: filter_empty_conv dict_keys_def)
  ultimately show ?loops by blast
qed

text \<open>One object: no forbidden key, the loop over the declared properties, the loop over the others.\<close>

lemma validate_object_iff:
  assumes "\<forall>t. ty = Some t \<longrightarrow> isinstance (JObj kvs) t"
  shows "validate_config (JObj kvs) (Schema ty props extra) path = Inr () \<longleftrightarrow>
    (extra = AddNone \<longrightarrow> filter (\<lambda>k. k \<notin> set (dict_keys props)) (dict_keys kvs) = []) \<and>
    res_for (\<lambda>(key, prop_schema).
       (case map_of kvs key of None \<Rightarrow> Inr ()
        | Some v \<Rightarrow> validate_config v prop_schema (sub_path path key))) props = Inr () \<and>
    (case extra of
       AddSchema s \<Rightarrow> res_for (\<lambda>(key, v). if key \<in> set (dict_keys props) then Inr ()
         else validate_config v s (sub_path path key)) kvs
     | _ \<Rightarrow> Inr ()) = Inr ()"
proof -
  have "(case ty of None \<Rightarrow> Inr ()
      | Some t \<Rightarrow> if isinstance (JObj kvs) t then Inr () else Inl (ValueError (type_error_msg path t (JObj kvs))))
      = (Inr () :: unit res)"
    using assms by (auto split: option.splits)
  then show ?thesis by (simp add: Let_def split: addl.splits)
qed

theorem validate_config_iff_conforms:
  "json_wf data \<Longrightarrow> schema_wf sch \<Longrightarrow> validate_config data sch path = Inr () \<longleftrightarrow> conforms data sch"
proof (induction data sch path rule: validate_config.induct)
  case (1 data ty props extra path)
  show ?case
  proof (cases "\<exists>kvs. data = JObj kvs \<and> (\<forall>t. ty = Some t \<longrightarrow> isinstance data t)")
    case False
    then show ?thesis by (auto split: option.splits json.splits)
  next
    case True
    then obtain kvs where data: "data = JObj kvs" and ty: "\<forall>t. ty = Some t \<longrightarrow> isinstance data t"
      by blast
    have wfk: "distinct (map fst kvs)" and wfv: "\<And>k v. (k, v) \<in> set kvs \<Longrightarrow> json_wf v"
      using "1.prems"(1) by (auto simp: data list_all_iff)
    have wfp: "distinct (map fst props)" and wfs: "\<And>k s. (k, s) \<in> set props \<Longrightarrow> schema_wf s"
      and wfe: "\<And>s. extra = AddSchema s \<Longrightarrow> schema_wf s"
      using "1.prems"(2) by (auto simp: list_all_iff)
    have tyc: "(case ty of None \<Rightarrow> Inr ()
        | Some t \<Rightarrow> if isinstance data t then Inr () else Inl (ValueError (type_error_msg path t data)))
        = (Inr () :: unit res)" (is "?ty = _")
      using ty by (auto split: option.splits)
    have IHp: "validate_config v s (sub_path path k) = Inr () \<longleftrightarrow> conforms v s"
      if "(k, s) \<in> set props" "map_of kvs k = Some v"
        "extra = AddNone \<longrightarrow> filter (\<lambda>k. k \<notin> set (dict_keys props)) (dict_keys kvs) = []" for k s v
      using "1.IH"(1) [OF _ data _ that(1) refl that(2)] tyc that wfv [OF map_of_SomeD [OF that(2)]]
        wfs [OF that(1)]
      by (auto simp: Let_def)
    have IHe: "validate_config v s (sub_path path k) = Inr () \<longleftrightarrow> conforms v s"
      if "(k, v) \<in> set kvs" "extra = AddSchema s" "k \<notin> set (dict_keys props)"
        "res_for (\<lambda>(key, prop_schema).
           (case map_of kvs key of None \<Rightarrow> Inr ()
            | Some v \<Rightarrow> validate_config v prop_schema (sub_path path key))) props = Inr ()" for k v s
      using "1.IH"(2) [OF _ data _ that(4) that(2) that(1) refl that(3)] tyc that wfv [OF that(1)]
        wfe [OF that(2)]
      by (auto simp: Let_def)
    let ?ex = "extra = AddNone \<longrightarrow> filter (\<lambda>k. k \<notin> set (dict_keys props)) (dict_keys kvs) = []"
    let ?R1 = "res_for (\<lambda>(key, prop_schema).
           (case map_of kvs key of None \<Rightarrow> Inr ()
            | Some v \<Rightarrow> validate_config v prop_schema (sub_path path key))) props = Inr ()"
    let ?R2 = "(case extra of
          AddSchema s \<Rightarrow> res_for (\<lambda>(key, v). if key \<in> set (dict_keys props) then Inr ()
            else validate_config v s (sub_path path key)) kvs
        | _ \<Rightarrow> Inr ()) = Inr ()"
    note V = validate_object_iff [OF ty [unfolded data], of props extra path]
    have R1: "?R1 \<longleftrightarrow> (\<forall>(k, s) \<in> set props. \<forall>v. map_of kvs k = Some v \<longrightarrow> conforms v s)" if ?ex
      unfolding res_for_Inr_iff using IHp that by (auto split: option.splits)
    have R2: "?R2 \<longleftrightarrow> (\<forall>s. extra = AddSchema s \<longrightarrow>
        (\<forall>(k, v) \<in> set kvs. k \<notin> set (dict_keys props) \<longrightarrow> conforms v s))" if ?R1
      using IHe that by (auto simp: res_for_Inr_iff split: addl.splits)
    have "?ex \<and> ?R1 \<and> ?R2 \<longleftrightarrow> (\<forall>(k, f) \<in> set kvs. conforms_field f (map_of props k) extra)"
      unfolding dict_loops_iff [OF wfk wfp, symmetric] using R1 R2 by blast
    with V ty show ?thesis by (simp only: data) simp
  qed
qed


lemma validate_config_error: "validate_config data sch path = Inl e \<Longrightarrow> \<exists>m. e = ValueError m"
proof (induction data sch path rule: validate_config.induct)
  case (1 data ty props extra path)
  show ?case
  proof (cases "\<exists>kvs. data = JObj kvs \<and> (\<forall>t. ty = Some t \<longrightarrow> isinstance data t)")
    case False
    with "1.prems" show ?thesis by (auto split: option.splits json.splits if_splits)
  next
    case True
    then obtain kvs where data: "data = JObj kvs" and ty: "\<forall>t. ty = Some t \<longrightarrow> isinstance data t"
      by blast
    have tyc: "(case ty of None \<Rightarrow> Inr ()
        | Some t \<Rightarrow> if isinstance data t then Inr () else Inl (ValueError (type_error_msg path t data)))
        = (Inr () :: unit res)"
      using ty by (auto split: option.splits)
    have IHp: "\<exists>m. e = ValueError m"
      if "(k, s) \<in> set props" "map_of kvs k = Some v" "validate_config v s (sub_path path k) = Inl e"
        "extra = AddNone \<longrightarrow> filter (\<lambda>k. k \<notin> set (dict_keys props)) (dict_keys kvs) = []" for k s v
      using "1.IH"(1) [OF _ data _ that(1) refl that(2)] tyc that by (auto simp: Let_def)
    have IHe: "\<exists>m. e = ValueError m"
      if "(k, v) \<in> set kvs" "extra = AddSchema s" "k \<notin> set (dict_keys props)"
        "validate_config v s (sub_path path k) = Inl e"
        "res_for (\<lambda>(key, prop_schema).
           (case map_of kvs key of None \<Rightarrow> Inr ()
            | Some v \<Rightarrow> validate_config v prop_schema (sub_path path key))) props = Inr ()" for k v s
      using "1.IH"(2) [OF _ data _ that(5) that(2) that(1) refl that(3)] tyc that by (auto simp: Let_def)
    show ?thesis
      using "1.prems" tyc IHp IHe unfolding data
      by (fastforce simp: Let_def res_bind_Inl_iff dest!: res_for_InlD
          split: if_splits addl.splits option.splits)
  qed
qed

section \<open>Registry settings\<close>

definition registry_repo :: "json \<Rightarrow> string res" where
  "registry_repo registry =
     res_bind (py_contains ''host'' registry) (\<lambda>h.
     if \<not> h then Inr [] else
     res_bind (py_contains ''project'' registry) (\<lambda>p.
     if \<not> p then Inr [] else
     res_bind (py_contains ''repository'' registry) (\<lambda>r.
     if \<not> r then Inr [] else
     res_bind (py_getitem registry ''host'') (\<lambda>host.
     res_bind (py_getitem registry ''project'') (\<lambda>project.
     res_bind (py_getitem registry ''repository'') (\<lambda>repository.
     if py_truth host \<and> py_truth project \<and> py_truth repository
     then Inr (py_str host @ ''/'' @ py_str project @ ''/'' @ py_str repository)
     else Inr []))))))"

definition registry_namespace :: "json \<Rightarrow> string res" where
  "registry_namespace registry =
     res_bind (py_contains ''namespace'' registry) (\<lambda>n.
     if \<not> n then Inr ''devkit'' else
     res_bind (py_getitem registry ''namespace'') (\<lambda>ns.
     if py_truth ns then Inr (''devkit/'' @ py_str ns) else Inr ''devkit''))"

definition parse_registry_config :: "json \<Rightarrow> (string \<times> string) res" where
  "parse_registry_config config =
     res_bind (py_contains ''docker'' config) (\<lambda>d.
     if \<not> d then Inr ([], ''devkit'') else
     res_bind (py_getitem config ''docker'') (\<lambda>docker_config.
     res_bind (py_contains ''registry'' docker_config) (\<lambda>r.
     if \<not> r then Inr ([], ''devkit'') else
     res_bind (py_getitem docker_config ''registry'') (\<lambda>registry.
     res_bind (registry_repo registry) (\<lambda>repo.
     res_bind (registry_namespace registry) (\<lambda>namespace.
     Inr (repo, namespace)))))))"

definition image_prefix :: "string \<Rightarrow> string \<Rightarrow> string" where
  "image_prefix repo namespace = (if repo \<noteq> [] then repo @ ''/'' @ namespace else namespace)"

text \<open>\<^verbatim>\<open>get_image_prefix\<close>: JSONDecodeError, KeyError and ValueError fall back to \<open>devkit\<close>.\<close>

definition get_image_prefix :: "fsys \<Rightarrow> loc \<Rightarrow> ppath \<Rightarrow> string res" where
  "get_image_prefix fs cwd config_path =
     (if \<not> path_exists fs cwd config_path then Inr ''devkit''
      else res_catch
        (res_bind (read_text fs cwd config_path) (\<lambda>content.
         res_bind (json_loads content) (\<lambda>config.
         res_bind (parse_registry_config config) (\<lambda>(repo, namespace).
         Inr (image_prefix repo namespace)))))
        (\<lambda>e. if is_ValueError e \<or> is_KeyError e then Some (Inr ''devkit'') else None))"

text \<open>What a namespace and a repository may look like.\<close>

definition namespace_ok :: "string \<Rightarrow> bool" where
  "namespace_ok ns \<longleftrightarrow> ns = ''devkit'' \<or> (\<exists>x. x \<noteq> [] \<and> ns = ''devkit/'' @ x)"

definition repo_ok :: "string \<Rightarrow> bool" where
  "repo_ok repo \<longleftrightarrow> repo = [] \<or>
     (\<exists>h p r. h \<noteq> [] \<and> p \<noteq> [] \<and> r \<noteq> [] \<and> repo = h @ ''/'' @ p @ ''/'' @ r)"

lemma field_cases:
  assumes "conforms (JObj kvs) (Schema ty props AddNone)" and "(k, v) \<in> set kvs"
  obtains s where "map_of props k = Some s" and "conforms v s"
  using assms by (auto simp: conforms_field_iff)

lemma conforms_str: "conforms v str_schema \<longleftrightarrow> (\<exists>s. v = JStr s)"
  by (cases v) (auto simp: conforms_field_iff)

lemma conforms_dict: "conforms v (Schema (Some TDict) props extra) \<Longrightarrow> \<exists>kvs. v = JObj kvs"
  by (cases v) auto

text \<open>A registry section that conforms has string fields only.\<close>

lemma registry_field:
  assumes "conforms (JObj kvs) REGISTRY_SCHEMA"
  shows "map_of kvs k = None \<or> (\<exists>s. map_of kvs k = Some (JStr s))"
proof (cases "map_of kvs k")
  case (Some v)
  let ?props = "[(''host'', str_schema), (''project'', str_schema), (''repository'', str_schema),
      (''namespace'', str_schema)]"
  obtain s where s: "map_of ?props k = Some s" and v: "conforms v s"
    using assms map_of_SomeD [OF Some] unfolding REGISTRY_SCHEMA_def by (rule field_cases)
  from map_of_SomeD [OF s] have "s = str_schema" by auto
  with v have "conforms v str_schema" by (simp only:)
  then show ?thesis unfolding conforms_str using Some by blast
qed simp

lemma registry_repo_conforms:
  assumes "conforms (JObj kvs) REGISTRY_SCHEMA"
  obtains repo where "registry_repo (JObj kvs) = Inr repo" and "repo_ok repo"
proof -
  have "\<exists>repo. registry_repo (JObj kvs) = Inr repo \<and> repo_ok repo"
    using registry_field [OF assms, of "''host''"] registry_field [OF assms, of "''project''"]
      registry_field [OF assms, of "''repository''"]
    by (elim disjE exE) (auto simp: registry_repo_def dict_item_def repo_ok_def)
  then show thesis using that by blast
qed

lemma registry_namespace_conforms:
  assumes "conforms (JObj kvs) REGISTRY_SCHEMA"
  obtains ns where "registry_namespace (JObj kvs) = Inr ns" and "namespace_ok ns"
proof -
  have "\<exists>ns. registry_namespace (JObj kvs) = Inr ns \<and> namespace_ok ns"
    using registry_field [OF assms, of "''namespace''"]
    by (elim disjE exE) (auto simp: registry_namespace_def dict_item_def namespace_ok_def)
  then show thesis using that by blast
qed

abbreviation docker_props :: "(string \<times> schema) list" where
  "docker_props \<equiv>
     [(''registry'', REGISTRY_SCHEMA), (''run'', Schema (Some TList) [] AddAny),
      (''images'', Schema (Some TDict) [] (AddSchema IMAGE_SCHEMA))]"

lemma docker_field:
  assumes "conforms (JObj dkvs) (Schema (Some TDict) docker_props AddNone)"
    and "map_of dkvs k = Some v" and "map_of docker_props k = Some s"
  shows "conforms v s"
  using field_cases [OF assms(1) map_of_SomeD [OF assms(2)]] assms(3) by auto

lemma config_docker:
  assumes "conforms (JObj kvs) CONFIG_SCHEMA" and "map_of kvs ''docker'' = Some d"
  obtains dkvs where "d = JObj dkvs"
    and "conforms (JObj dkvs) (Schema (Some TDict) docker_props AddNone)"
proof -
  have "conforms d (Schema (Some TDict) docker_props AddNone)"
    using field_cases [OF assms(1) [unfolded CONFIG_SCHEMA_def] map_of_SomeD [OF assms(2)]]
    by (auto simp del: conforms.simps)
  with conforms_dict [OF this] that show thesis by blast
qed

lemma parse_registry_config_conforms:
  assumes "conforms config CONFIG_SCHEMA"
  obtains repo ns where "parse_registry_config config = Inr (repo, ns)"
    and "repo_ok repo" and "namespace_ok ns"
proof -
  obtain kvs where config: "config = JObj kvs"
    using assms conforms_dict unfolding CONFIG_SCHEMA_def by blast
  show thesis
  proof (cases "map_of kvs ''docker''")
    case None
    then show thesis using that [of "[]" "''devkit''"]
      by (simp add: parse_registry_config_def config repo_ok_def namespace_ok_def)
  next
    case (Some d)
    obtain dkvs where d: "d = JObj dkvs"
      and dc: "conforms (JObj dkvs) (Schema (Some TDict) docker_props AddNone)"
      using config_docker [OF assms [unfolded config] Some] .
    show thesis
    proof (cases "map_of dkvs ''registry''")
      case None
      then show thesis using that [of "[]" "''devkit''"] Some d
        by (simp add: parse_registry_config_def config repo_ok_def namespace_ok_def dict_item_def)
    next
      case R: (Some reg)
      have r: "conforms reg REGISTRY_SCHEMA" using docker_field [OF dc R] by simp
      obtain rkvs where reg: "reg = JObj rkvs"
        using conforms_dict r unfolding REGISTRY_SCHEMA_def by blast
      from registry_repo_conforms [OF r [unfolded reg]] obtain repo where
        repo: "registry_repo (JObj rkvs) = Inr repo" "repo_ok repo" .
      from registry_namespace_conforms [OF r [unfolded reg]] obtain ns where
        ns: "registry_namespace (JObj rkvs) = Inr ns" "namespace_ok ns" .
      show thesis using that [of repo ns] Some d R reg repo ns
        by (simp add: parse_registry_config_def config dict_item_def)
    qed
  qed
qed

section \<open>Image configurations\<close>

text \<open>\<^verbatim>\<open>load_image_configs\<close>: the \<^verbatim>\<open>deps.json\<close> files of the search paths, later ones overriding.\<close>

definition load_deps_file :: "fsys \<Rightarrow> loc \<Rightarrow> ppath \<Rightarrow> json dict \<Rightarrow> json dict res" where
  "load_deps_file fs cwd path all_configs =
     (let deps_file = path_div path (to_path ''deps.json'') in
      if \<not> path_exists fs cwd deps_file then Inr all_configs
      else
        res_bind (read_text fs cwd deps_file) (\<lambda>content.
        case json_loads content of
          Inl e \<Rightarrow> Inl (SystemExit 1)
        | Inr (JObj configs) \<Rightarrow> Inr (dict_merge all_configs configs)
        | Inr _ \<Rightarrow> Inr all_configs))"

definition load_image_configs :: "fsys \<Rightarrow> loc \<Rightarrow> ppath list \<Rightarrow> json dict res" where
  "load_image_configs fs cwd search_paths = res_fold (load_deps_file fs cwd) search_paths []"

text \<open>
  \<^verbatim>\<open>conf["deps"]\<close> as the pairs (build argument, image name); a value that is not a string is
  outside the declared type \<^verbatim>\<open>dict[str, str]\<close> and raises TypeError here.
\<close>

fun dep_name :: "string \<times> json \<Rightarrow> (string \<times> string) res" where
  "dep_name (k, JStr s) = Inr (k, s)"
| "dep_name (k, _) = Inl (TypeError ''unhashable or not a string'')"

definition conf_deps :: "json \<Rightarrow> (string \<times> string) list res" where
  "conf_deps conf =
     res_bind (py_getitem conf ''deps'') (\<lambda>d.
     res_bind (py_items d) (\<lambda>kvs. res_map dep_name kvs))"

lemma conf_deps_error: "conf_deps conf = Inl e \<Longrightarrow> is_Exception e \<and> e \<noteq> RecursionError"
proof -
  have "res_map dep_name kvs = Inl e \<Longrightarrow> is_Exception e \<and> e \<noteq> RecursionError" for kvs
    by (induction kvs rule: list.induct) (auto simp: res_bind_Inl_iff elim!: dep_name.elims)
  then show "conf_deps conf = Inl e \<Longrightarrow> is_Exception e \<and> e \<noteq> RecursionError"
    by (cases conf) (auto simp: conf_deps_def res_bind_Inl_iff dict_item_def elim!: py_items.elims
        split: option.splits)
qed

lemma load_deps_file_distinct:
  assumes "load_deps_file fs cwd p d = Inr d'" and "distinct (map fst d)"
  shows "distinct (map fst d')"
proof -
  have "d' = d \<or> (\<exists>c. d' = dict_merge d c)"
  proof (cases "path_exists fs cwd (path_div p (to_path ''deps.json''))")
    case True
    with assms(1) obtain tx where
      r: "(case json_loads tx of Inl e \<Rightarrow> Inl (SystemExit 1)
        | Inr (JObj configs) \<Rightarrow> Inr (dict_merge d configs) | Inr _ \<Rightarrow> Inr d) = Inr d'"
      by (auto simp: load_deps_file_def Let_def)
    then obtain v where v: "json_loads tx = Inr v" by (cases "json_loads tx") auto
    with r show ?thesis by (cases v) auto
  qed (use assms(1) in \<open>simp add: load_deps_file_def Let_def\<close>)
  with assms(2) show ?thesis by (auto simp: distinct_keys_merge)
qed

lemma load_image_configs_distinct:
  "load_image_configs fs cwd ps = Inr d \<Longrightarrow> distinct (map fst d)"
  unfolding load_image_configs_def
  by (erule res_fold_invariant) (auto dest: load_deps_file_distinct)

section \<open>Properties\<close>

text \<open>
  C16: \<^verbatim>\<open>validate_config\<close> accepts exactly the values that conform to the schema (types, declared
  properties, additional properties, recursively) and answers everything else with a ValueError.
\<close>

theorem validate_config_decides:
  assumes "json_wf data" and "schema_wf sch"
  shows "if conforms data sch then validate_config data sch path = Inr ()
    else \<exists>m. validate_config data sch path = Inl (ValueError m)"
proof (cases "validate_config data sch path")
  case (Inl e)
  then show ?thesis using validate_config_iff_conforms [OF assms, of path] validate_config_error [OF Inl]
    by auto
qed (use validate_config_iff_conforms [OF assms, of path] in auto)

theorem validate_config_decides_witness:
  "if conforms (JObj [(''docker'', JObj [(''run'', JStr ''x'')])]) CONFIG_SCHEMA
   then validate_config (JObj [(''docker'', JObj [(''run'', JStr ''x'')])]) CONFIG_SCHEMA [] = Inr ()
   else \<exists>m. validate_config (JObj [(''docker'', JObj [(''run'', JStr ''x'')])]) CONFIG_SCHEMA [] =
     Inl (ValueError m)"
  by (rule validate_config_decides) (simp, rule CONFIG_SCHEMA_wf)

text \<open>
  \<^verbatim>\<open>parse_registry_config\<close> never raises on a validated configuration; the repository it returns is
  empty or host/project/repository with non-empty parts, the namespace \<^verbatim>\<open>devkit\<close> or below it.
\<close>

lemma registry_of_valid_config:
  assumes "conforms config CONFIG_SCHEMA"
  shows "\<exists>repo ns. parse_registry_config config = Inr (repo, ns) \<and> repo_ok repo \<and> namespace_ok ns"
  using parse_registry_config_conforms [OF assms] by metis

end
