(* ===== verification/Topo_Sort.thy ===== *)
theory Topo_Sort
  imports Py_Prelude
begin

text \<open>
  Dependency graphs and \<^verbatim>\<open>graphlib.TopologicalSorter(graph).static_order()\<close>, which
  \<^verbatim>\<open>scripts/docker/build.py\<close> uses to order the images, and the contract its clients rely on.
\<close>

section \<open>Graphs\<close>

text \<open>
  A graph is a dict from a node to the collection of its predecessors, in the order in which
  Python iterates over them.
\<close>

type_synonym 'a graph = "('a \<times> 'a list) list"

definition preds :: "'a graph \<Rightarrow> 'a \<Rightarrow> 'a list" where
  "preds g n = (case map_of g n of None \<Rightarrow> [] | Some ps \<Rightarrow> ps)"

definition dict_graph :: "'a graph \<Rightarrow> bool" where
  "dict_graph g \<longleftrightarrow> distinct (map fst g) \<and> (\<forall>(n, ps) \<in> set g. distinct ps)"

definition edges :: "'a graph \<Rightarrow> ('a \<times> 'a) set" where
  "edges g = {(p, n). p \<in> set (preds g n)}"

text \<open>Every node comes after its predecessors.\<close>

definition ordered :: "'a graph \<Rightarrow> 'a list \<Rightarrow> bool" where
  "ordered g xs \<longleftrightarrow> (\<forall>as n bs. xs = as @ n # bs \<longrightarrow> set (preds g n) \<subseteq> set as)"

text \<open>Nodes in the order in which \<^verbatim>\<open>add\<close> creates them: a key, then its predecessors.\<close>

definition ts_nodes :: "'a graph \<Rightarrow> 'a list" where
  "ts_nodes g = rev (remdups (rev (concat (map (\<lambda>(n, ps). n # ps) g))))"

definition ts_succs :: "'a graph \<Rightarrow> 'a \<Rightarrow> 'a list" where
  "ts_succs g p = map fst (filter (\<lambda>(n, ps). p \<in> set ps) g)"

definition ts_npred :: "'a graph \<Rightarrow> 'a \<Rightarrow> nat" where
  "ts_npred g n = length (preds g n)"

section \<open>The sorter\<close>

text \<open>\<^verbatim>\<open>done(node)\<close>: the successors' counters go down; those that reach zero become ready.\<close>

fun release :: "('a \<Rightarrow> nat) \<Rightarrow> 'a list \<Rightarrow> ('a \<Rightarrow> nat) \<times> 'a list" where
  "release c [] = (c, [])"
| "release c (s # ss) =
     (case release (c(s := c s - 1)) ss of
        (c', new) \<Rightarrow> (c', if c s = 1 then s # new else new))"

lemma release_distinct:
  "distinct ss \<Longrightarrow> release c ss =
     ((\<lambda>s. if s \<in> set ss then c s - 1 else c s), filter (\<lambda>s. c s = 1) ss)"
proof (induction ss arbitrary: c)
  case (Cons s ss)
  have "filter (\<lambda>x. (c(s := c s - 1)) x = 1) ss = filter (\<lambda>x. c x = 1) ss"
    using Cons.prems by (intro filter_cong) auto
  then show ?case using Cons by (auto simp: fun_eq_iff split: prod.splits)
qed (auto simp: fun_eq_iff)

lemma release_sum:
  assumes "set ss \<subseteq> set ns" and "release c ss = (c', new)"
  shows "sum c' (set ns) + length new \<le> sum c (set ns)"
  using assms
proof (induction ss arbitrary: c c' new)
  case (Cons s ss)
  obtain d new' where r: "release (c(s := c s - 1)) ss = (d, new')" by fastforce
  have IH: "sum d (set ns) + length new' \<le> sum (c(s := c s - 1)) (set ns)"
    using Cons.IH [OF _ r] Cons.prems(1) by simp
  have s: "s \<in> set ns" using Cons.prems(1) by simp
  have "sum (c(s := c s - 1)) (set ns) = (c s - 1) + sum c (set ns - {s})"
    using s by (simp add: sum.remove [of _ s])
  moreover have "sum c (set ns) = c s + sum c (set ns - {s})"
    using s by (simp add: sum.remove [of _ s])
  ultimately show ?case using IH Cons.prems(2) r by (auto split: if_splits)
qed simp

text \<open>
  \<^verbatim>\<open>get_ready\<close> and \<^verbatim>\<open>done\<close> in turn: the ready nodes are handed out in the order in which they
  became ready, so the groups that \<^verbatim>\<open>static_order\<close> yields are the segments of one queue.
\<close>

function kahn :: "'a graph \<Rightarrow> ('a \<Rightarrow> nat) \<Rightarrow> 'a list \<Rightarrow> 'a list" where
  "kahn g c [] = []"
| "kahn g c (n # q) =
     (case release c (ts_succs g n) of (c', new) \<Rightarrow> n # kahn g c' (q @ new))"
  by pat_completeness auto
termination
proof (relation "measure (\<lambda>(g, c, q). sum c (set (map fst g)) + length q)", goal_cases)
  case (2 g c n q c' new)
  have "sum c' (set (map fst g)) + length new \<le> sum c (set (map fst g))"
    using 2 by (intro release_sum [of "ts_succs g n"]) (auto simp: ts_succs_def)
  then show ?case by simp
qed simp

definition kahn_start :: "'a graph \<Rightarrow> 'a list" where
  "kahn_start g = kahn g (ts_npred g) (filter (\<lambda>n. ts_npred g n = 0) (ts_nodes g))"

text \<open>
  \<^verbatim>\<open>static_order\<close>: CycleError unless every node can be handed out.
\<close>

definition static_order :: "'a graph \<Rightarrow> 'a list res" where
  "static_order g =
     (if length (kahn_start g) = length (ts_nodes g) then Inr (kahn_start g) else Inl CycleError)"

section \<open>Correctness\<close>

lemma set_ts_nodes: "set (ts_nodes g) = fst ` set g \<union> (\<Union>(n, ps) \<in> set g. set ps)"
  by (auto simp: ts_nodes_def) force+

lemma distinct_ts_nodes [simp]: "distinct (ts_nodes g)"
  by (simp add: ts_nodes_def)

lemma preds_in_nodes:
  assumes "p \<in> set (preds g n)"
  shows "p \<in> set (ts_nodes g) \<and> n \<in> set (ts_nodes g)"
proof -
  from assms obtain ps where "map_of g n = Some ps" "p \<in> set ps"
    by (cases "map_of g n") (auto simp: preds_def)
  then have "(n, ps) \<in> set g" "p \<in> set ps" using map_of_SomeD by auto
  then show ?thesis unfolding set_ts_nodes by force
qed

lemma preds_distinct: "dict_graph g \<Longrightarrow> distinct (preds g n)"
  by (auto simp: preds_def dict_graph_def dest!: map_of_SomeD split: option.splits)

lemma ts_succs_distinct: "dict_graph g \<Longrightarrow> distinct (ts_succs g p)"
  by (auto simp: ts_succs_def dict_graph_def distinct_map inj_on_filter_key_eq
      intro: inj_on_subset)

lemma set_ts_succs: "dict_graph g \<Longrightarrow> n \<in> set (ts_succs g p) \<longleftrightarrow> p \<in> set (preds g n)"
proof -
  assume "dict_graph g"
  then have d: "distinct (map fst g)" by (simp add: dict_graph_def)
  have "n \<in> set (ts_succs g p) \<longleftrightarrow> (\<exists>ps. (n, ps) \<in> set g \<and> p \<in> set ps)"
    by (force simp: ts_succs_def)
  also have "\<dots> \<longleftrightarrow> p \<in> set (preds g n)"
    using d by (auto simp: preds_def dest: map_of_SomeD split: option.splits)
  finally show ?thesis .
qed

lemma ordered_snoc: "ordered g (xs @ [n]) \<longleftrightarrow> ordered g xs \<and> set (preds g n) \<subseteq> set xs"
proof
  assume o: "ordered g (xs @ [n])"
  then have "set (preds g n) \<subseteq> set xs" unfolding ordered_def by (metis append_Nil2)
  moreover have "ordered g xs" using o unfolding ordered_def by fastforce
  ultimately show "ordered g xs \<and> set (preds g n) \<subseteq> set xs" by blast
next
  assume a: "ordered g xs \<and> set (preds g n) \<subseteq> set xs"
  show "ordered g (xs @ [n])"
    unfolding ordered_def
  proof (intro allI impI)
    fix as m bs
    assume e: "xs @ [n] = as @ m # bs"
    show "set (preds g m) \<subseteq> set as"
    proof (cases bs rule: rev_cases)
      case Nil
      with e a show ?thesis by simp
    next
      case (snoc cs b)
      with e have "xs = as @ m # cs" by simp
      with a show ?thesis unfolding ordered_def by blast
    qed
  qed
qed

text \<open>The state of the sorter after the nodes \<open>ds\<close> were finished, with the queue \<open>q\<close>.\<close>

definition kahn_inv :: "'a graph \<Rightarrow> 'a list \<Rightarrow> ('a \<Rightarrow> nat) \<Rightarrow> 'a list \<Rightarrow> bool" where
  "kahn_inv g ds c q \<longleftrightarrow>
     distinct (ds @ q) \<and> set (ds @ q) \<subseteq> set (ts_nodes g) \<and> ordered g ds \<and>
     (\<forall>n. c n = length (filter (\<lambda>p. p \<notin> set ds) (preds g n))) \<and>
     (\<forall>n \<in> set (ts_nodes g). n \<in> set (ds @ q) \<longleftrightarrow> c n = 0)"

lemma kahn_inv_start:
  "kahn_inv g [] (ts_npred g) (filter (\<lambda>n. ts_npred g n = 0) (ts_nodes g))"
  by (auto simp: kahn_inv_def ordered_def ts_npred_def)

lemma filter_one_less:
  assumes "distinct ps" and "n \<in> set ps" and "n \<notin> set ds"
  shows "length (filter (\<lambda>p. p \<notin> set ds) ps) = Suc (length (filter (\<lambda>p. p \<notin> set (ds @ [n])) ps))"
proof -
  obtain as bs where ps: "ps = as @ n # bs" using split_list [OF assms(2)] by blast
  have "n \<notin> set as" "n \<notin> set bs" using assms(1) ps by auto
  then have "filter (\<lambda>p. p \<notin> set (ds @ [n])) as = filter (\<lambda>p. p \<notin> set ds) as"
    "filter (\<lambda>p. p \<notin> set (ds @ [n])) bs = filter (\<lambda>p. p \<notin> set ds) bs"
    by (auto intro!: filter_cong)
  then show ?thesis using assms(3) by (simp add: ps)
qed

text \<open>Taking a node off the queue lowers the number of open predecessors of its successors by one.\<close>

lemma open_preds_step:
  assumes g: "dict_graph g" and n: "n \<notin> set ds"
  shows "(if m \<in> set (ts_succs g n) then length (filter (\<lambda>p. p \<notin> set ds) (preds g m)) - 1
      else length (filter (\<lambda>p. p \<notin> set ds) (preds g m))) =
    length (filter (\<lambda>p. p \<notin> set (ds @ [n])) (preds g m))"
proof (cases "n \<in> set (preds g m)")
  case True
  then have "length (filter (\<lambda>p. p \<notin> set ds) (preds g m)) =
      Suc (length (filter (\<lambda>p. p \<notin> set (ds @ [n])) (preds g m)))"
    using filter_one_less [OF preds_distinct [OF g] _ n] by blast
  with True show ?thesis by (simp add: set_ts_succs [OF g])
next
  case False
  then have "filter (\<lambda>p. p \<notin> set (ds @ [n])) (preds g m) = filter (\<lambda>p. p \<notin> set ds) (preds g m)"
    by (intro filter_cong) auto
  with False show ?thesis by (simp add: set_ts_succs [OF g])
qed

lemma kahn_inv_step:
  assumes g: "dict_graph g" and inv: "kahn_inv g ds c (n # q)"
    and r: "release c (ts_succs g n) = (c', new)"
  shows "kahn_inv g (ds @ [n]) c' (q @ new)"
proof -
  have c: "c m = length (filter (\<lambda>p. p \<notin> set ds) (preds g m))" for m
    using inv by (simp add: kahn_inv_def)
  have n: "n \<notin> set ds" "n \<in> set (ts_nodes g)" "c n = 0" using inv by (auto simp: kahn_inv_def)
  have c': "c' = (\<lambda>s. if s \<in> set (ts_succs g n) then c s - 1 else c s)"
    and new: "new = filter (\<lambda>s. c s = 1) (ts_succs g n)"
    using r release_distinct [OF ts_succs_distinct [OF g]] by auto
  have cm: "c' m = length (filter (\<lambda>p. p \<notin> set (ds @ [n])) (preds g m))" for m
    unfolding c' c by (rule open_preds_step [OF g n(1)])
  have "set (preds g n) \<subseteq> set ds" using n(3) by (auto simp: c filter_empty_conv)
  then have ord: "ordered g (ds @ [n])" using inv by (simp add: kahn_inv_def ordered_snoc)
  have succ_pos: "0 < c s" if "s \<in> set (ts_succs g n)" for s
    using that n(1) by (auto simp: c set_ts_succs [OF g] filter_empty_conv)
  have new_fresh: "s \<notin> set ds \<and> s \<notin> set (n # q)" if "s \<in> set new" for s
    using that inv preds_in_nodes [of n g s]
    by (auto simp: new kahn_inv_def set_ts_succs [OF g])
  have new_nodes: "set new \<subseteq> set (ts_nodes g)"
    using preds_in_nodes by (fastforce simp: new set_ts_succs [OF g])
  have ready: "m \<in> set (ds @ [n] @ q @ new) \<longleftrightarrow> c' m = 0" if "m \<in> set (ts_nodes g)" for m
  proof -
    have "m \<in> set (ds @ n # q) \<longleftrightarrow> c m = 0" using inv that by (simp add: kahn_inv_def)
    then show ?thesis using succ_pos [of m] by (auto simp: c' new)
  qed
  have dist: "distinct ((ds @ [n]) @ q @ new)"
  proof -
    have "distinct (ds @ n # q)" using inv by (simp add: kahn_inv_def)
    moreover have "distinct new" using ts_succs_distinct [OF g, of n] by (simp add: new)
    moreover have "set new \<inter> set (ds @ n # q) = {}" using new_fresh by fastforce
    ultimately show ?thesis by auto
  qed
  have sub: "set ((ds @ [n]) @ q @ new) \<subseteq> set (ts_nodes g)"
    using inv new_nodes by (auto simp: kahn_inv_def)
  show ?thesis unfolding kahn_inv_def
  proof (intro conjI)
    show "\<forall>m \<in> set (ts_nodes g). m \<in> set ((ds @ [n]) @ q @ new) \<longleftrightarrow> c' m = 0"
      using ready by simp
  qed (use dist sub ord cm in simp_all)
qed

lemma kahn_result:
  "dict_graph g \<Longrightarrow> kahn_inv g ds c q \<Longrightarrow> \<exists>c'. kahn_inv g (ds @ kahn g c q) c' []"
proof (induction g c q arbitrary: ds rule: kahn.induct)
  case (2 g c n q)
  obtain c' new where r: "release c (ts_succs g n) = (c', new)" by fastforce
  have "kahn_inv g (ds @ [n]) c' (q @ new)" by (rule kahn_inv_step [OF "2.prems" r])
  from "2.IH" [OF r [symmetric] "2.prems"(1) this] show ?case by (simp add: r)
qed auto

lemma kahn_start_inv:
  assumes "dict_graph g"
  shows "distinct (kahn_start g)" and "set (kahn_start g) \<subseteq> set (ts_nodes g)"
    and "ordered g (kahn_start g)"
    and "n \<in> set (ts_nodes g) \<Longrightarrow> set (preds g n) \<subseteq> set (kahn_start g) \<Longrightarrow> n \<in> set (kahn_start g)"
proof -
  obtain c' where inv: "kahn_inv g (kahn_start g) c' []"
    using kahn_result [OF assms kahn_inv_start] unfolding kahn_start_def by auto
  show "distinct (kahn_start g)" "set (kahn_start g) \<subseteq> set (ts_nodes g)" "ordered g (kahn_start g)"
    using inv by (auto simp: kahn_inv_def)
  assume n: "n \<in> set (ts_nodes g)" and "set (preds g n) \<subseteq> set (kahn_start g)"
  then have "filter (\<lambda>p. p \<notin> set (kahn_start g)) (preds g n) = []"
    by (auto simp: filter_empty_conv)
  then show "n \<in> set (kahn_start g)" using inv n by (simp add: kahn_inv_def)
qed

lemma distinct_subset_eq:
  assumes "distinct xs" and "distinct ys" and "set xs \<subseteq> set ys"
  shows "length xs = length ys \<longleftrightarrow> set xs = set ys"
  using assms by (metis List.finite_set card_subset_eq distinct_card)

text \<open>An order that lists every node once, after its predecessors.\<close>

definition build_order :: "'a graph \<Rightarrow> 'a list \<Rightarrow> bool" where
  "build_order g xs \<longleftrightarrow> distinct xs \<and> set xs = set (ts_nodes g) \<and> ordered g xs"

lemma static_order_sound:
  assumes "dict_graph g" and "static_order g = Inr xs"
  shows "build_order g xs"
  using assms kahn_start_inv(1-3) [OF assms(1)]
    distinct_subset_eq [OF kahn_start_inv(1) [OF assms(1)] distinct_ts_nodes kahn_start_inv(2) [OF assms(1)]]
  by (auto simp: static_order_def build_order_def split: if_splits)

lemma ordered_no_cycle:
  assumes "ordered g xs" and "(a, b) \<in> (edges g)\<^sup>+" and "xs = as @ b # bs"
  shows "a \<in> set as"
  using assms(2,3)
proof (induction arbitrary: as bs rule: trancl_induct)
  case (base b)
  then show ?case using assms(1) unfolding ordered_def edges_def by blast
next
  case (step b c)
  then have "b \<in> set as" using assms(1) unfolding ordered_def edges_def by blast
  then obtain as1 as2 where "as = as1 @ b # as2" using split_list by fastforce
  then show ?case using step.IH [of as1 "as2 @ c # bs"] step.prems by simp
qed

lemma build_order_acyclic:
  assumes "build_order g xs"
  shows "acyclic (edges g)"
proof (rule acyclicI, rule allI, rule notI)
  fix x
  assume x: "(x, x) \<in> (edges g)\<^sup>+"
  then obtain y where "(y, x) \<in> edges g" by (meson tranclD2)
  then have "x \<in> set xs" using assms preds_in_nodes unfolding edges_def build_order_def by fastforce
  then obtain as bs where xs: "xs = as @ x # bs" using split_list by fastforce
  have "ordered g xs" using assms by (simp add: build_order_def)
  from ordered_no_cycle [OF this x xs] have "x \<in> set as" .
  with xs assms show False by (auto simp: build_order_def)
qed

lemma finite_edges: "finite (edges g)"
proof (rule finite_subset)
  show "edges g \<subseteq> set (ts_nodes g) \<times> set (ts_nodes g)"
    using preds_in_nodes by (fastforce simp: edges_def)
qed simp

lemma static_order_complete:
  assumes "dict_graph g" and "acyclic (edges g)"
  shows "static_order g = Inr (kahn_start g)"
proof -
  have wf: "wf (edges g)" using finite_edges assms(2) by (rule finite_acyclic_wf)
  have "n \<in> set (ts_nodes g) \<Longrightarrow> n \<in> set (kahn_start g)" for n
  proof (induction n rule: wf_induct_rule [OF wf])
    case (1 n)
    have "set (preds g n) \<subseteq> set (kahn_start g)"
      using 1 preds_in_nodes by (fastforce simp: edges_def)
    with "1.prems" show ?case by (intro kahn_start_inv(4) [OF assms(1)])
  qed
  then have "set (kahn_start g) = set (ts_nodes g)"
    using kahn_start_inv(2) [OF assms(1)] by blast
  then have "length (kahn_start g) = length (ts_nodes g)"
    using distinct_subset_eq kahn_start_inv(1,2) [OF assms(1)] distinct_ts_nodes by metis
  then show ?thesis by (simp add: static_order_def)
qed

section \<open>The contract\<close>

text \<open>
  What the image builder relies on: an order or CycleError, a build order when there is one, and
  CycleError exactly for a cyclic graph.
\<close>

locale dependency_sorter =
  fixes sorter :: "'a graph \<Rightarrow> 'a list res"
  assumes sorter_sound: "dict_graph g \<Longrightarrow> sorter g = Inr xs \<Longrightarrow> build_order g xs"
    and sorter_total: "dict_graph g \<Longrightarrow> acyclic (edges g) \<Longrightarrow> \<exists>xs. sorter g = Inr xs"
    and sorter_error: "sorter g = Inl e \<Longrightarrow> e = CycleError"
begin

lemma sorter_cycle_iff:
  assumes "dict_graph g"
  shows "sorter g = Inl CycleError \<longleftrightarrow> \<not> acyclic (edges g)"
proof
  assume "sorter g = Inl CycleError"
  then show "\<not> acyclic (edges g)" using sorter_total [OF assms] by auto
next
  assume "\<not> acyclic (edges g)"
  then have "\<nexists>xs. sorter g = Inr xs"
    using sorter_sound [OF assms] build_order_acyclic by blast
  then show "sorter g = Inl CycleError"
    using sorter_error by (cases "sorter g") auto
qed

text \<open>Every prefix of the order is closed under predecessors.\<close>

lemma sorter_prefix:
  assumes "dict_graph g" and "sorter g = Inr (as @ n # bs)" and "p \<in> set (preds g n)"
  shows "p \<in> set as"
  using sorter_sound [OF assms(1,2)] assms(3) unfolding build_order_def ordered_def by blast

end

interpretation graphlib: dependency_sorter static_order
proof
  show "dict_graph g \<Longrightarrow> static_order g = Inr xs \<Longrightarrow> build_order g xs" for g :: "'a graph" and xs
    by (rule static_order_sound)
  show "dict_graph g \<Longrightarrow> acyclic (edges g) \<Longrightarrow> \<exists>xs. static_order g = Inr xs" for g :: "'a graph"
    using static_order_complete by blast
  show "static_order g = Inl e \<Longrightarrow> e = CycleError" for g :: "'a graph" and e
    by (auto simp: static_order_def split: if_splits)
qed

end
