(* ===== verification/Sha256.thy ===== *)
theory Sha256
  imports Py_Json "HOL-Library.Word"
begin

text \<open>
  \<^verbatim>\<open>hashlib.sha256(...).hexdigest()\<close> (FIPS 180-4) on byte strings, which
  \<^verbatim>\<open>scripts/docker/build.py\<close> uses for its content addresses.
\<close>

unbundle bit_operations_syntax

type_synonym u32 = "32 word"

text \<open>
  The round constants and the initial hash value are the first 32 bits of the fractional parts
  of the cube roots of the first 64 primes and of the square roots of the first eight;
  \<open>sha_k_cube_roots\<close> and \<open>sha_init_square_roots\<close> check the tables.
\<close>

definition sha_k :: "u32 list" where
  "sha_k =
     [1116352408, 1899447441, 3049323471, 3921009573, 961987163, 1508970993,
      2453635748, 2870763221, 3624381080, 310598401, 607225278, 1426881987,
      1925078388, 2162078206, 2614888103, 3248222580, 3835390401, 4022224774,
      264347078, 604807628, 770255983, 1249150122, 1555081692, 1996064986,
      2554220882, 2821834349, 2952996808, 3210313671, 3336571891, 3584528711,
      113926993, 338241895, 666307205, 773529912, 1294757372, 1396182291,
      1695183700, 1986661051, 2177026350, 2456956037, 2730485921, 2820302411,
      3259730800, 3345764771, 3516065817, 3600352804, 4094571909, 275423344,
      430227734, 506948616, 659060556, 883997877, 958139571, 1322822218,
      1537002063, 1747873779, 1955562222, 2024104815, 2227730452, 2361852424,
      2428436474, 2756734187, 3204031479, 3329325298]"

definition sha_init :: "u32 list" where
  "sha_init =
     [1779033703, 3144134277, 1013904242, 2773480762, 1359893119, 2600822924,
      528734635, 1541459225]"

definition sha_primes :: "int list" where
  "sha_primes =
     [2, 3, 5, 7, 11, 13, 17, 19, 23, 29, 31, 37, 41, 43, 47, 53,
      59, 61, 67, 71, 73, 79, 83, 89, 97, 101, 103, 107, 109, 113, 127, 131,
      137, 139, 149, 151, 157, 163, 167, 173, 179, 181, 191, 193, 197, 199, 211, 223,
      227, 229, 233, 239, 241, 251, 257, 263, 269, 271, 277, 281, 283, 293, 307, 311]"

definition int_root :: "nat \<Rightarrow> int \<Rightarrow> int" where
  "int_root e p =
     (if p < 2 ^ e then 1 else if p < 3 ^ e then 2 else if p < 4 ^ e then 3 else if p < 5 ^ e then 4
      else if p < 6 ^ e then 5 else 6)"

definition root_bits :: "nat \<Rightarrow> int \<times> u32 \<Rightarrow> bool" where
  "root_bits e = (\<lambda>(p, k). let r = int_root e p * 2 ^ 32 + uint k in r ^ e \<le> p * 2 ^ (32 * e) \<and> p * 2 ^ (32 * e) < (r + 1) ^ e)"

lemma sha_k_cube_roots: "list_all (root_bits 3) (zip sha_primes sha_k)"
  by (simp add: sha_primes_def sha_k_def root_bits_def int_root_def)

lemma sha_init_square_roots: "list_all (root_bits 2) (zip sha_primes sha_init)"
  by (simp add: sha_primes_def sha_init_def root_bits_def int_root_def)

definition sha_ch :: "u32 \<Rightarrow> u32 \<Rightarrow> u32 \<Rightarrow> u32" where
  "sha_ch x y z = (x AND y) XOR (NOT x AND z)"

definition sha_maj :: "u32 \<Rightarrow> u32 \<Rightarrow> u32 \<Rightarrow> u32" where
  "sha_maj x y z = (x AND y) XOR (x AND z) XOR (y AND z)"

definition big_sigma0 :: "u32 \<Rightarrow> u32" where
  "big_sigma0 x = word_rotr 2 x XOR word_rotr 13 x XOR word_rotr 22 x"

definition big_sigma1 :: "u32 \<Rightarrow> u32" where
  "big_sigma1 x = word_rotr 6 x XOR word_rotr 11 x XOR word_rotr 25 x"

definition small_sigma0 :: "u32 \<Rightarrow> u32" where
  "small_sigma0 x = word_rotr 7 x XOR word_rotr 18 x XOR drop_bit 3 x"

definition small_sigma1 :: "u32 \<Rightarrow> u32" where
  "small_sigma1 x = word_rotr 17 x XOR word_rotr 19 x XOR drop_bit 10 x"

text \<open>The message schedule: 16 words of the block, then 48 computed ones.\<close>

fun schedule :: "nat \<Rightarrow> u32 list \<Rightarrow> u32 list" where
  "schedule 0 ws = ws"
| "schedule (Suc n) ws =
     (let t = length ws
      in schedule n (ws @ [small_sigma1 (ws ! (t - 2)) + ws ! (t - 7) +
                           small_sigma0 (ws ! (t - 15)) + ws ! (t - 16)]))"

type_synonym sha_state = "u32 \<times> u32 \<times> u32 \<times> u32 \<times> u32 \<times> u32 \<times> u32 \<times> u32"

fun sha_round :: "u32 \<times> u32 \<Rightarrow> sha_state \<Rightarrow> sha_state" where
  "sha_round (k, w) (a, b, c, d, e, f, g, h) =
     (let t1 = h + big_sigma1 e + sha_ch e f g + k + w;
          t2 = big_sigma0 a + sha_maj a b c
      in (t1 + t2, a, b, c, d + t1, e, f, g))"

fun sha_compress :: "sha_state \<Rightarrow> u32 list \<Rightarrow> sha_state" where
  "sha_compress (a, b, c, d, e, f, g, h) block =
     (case fold sha_round (zip sha_k (schedule 48 block)) (a, b, c, d, e, f, g, h) of
        (a', b', c', d', e', f', g', h') \<Rightarrow>
          (a + a', b + b', c + c', d + d', e + e', f + f', g + g', h + h'))"

text \<open>Padding: a 1 bit, zeros, and the bit length modulo \<open>2 ^ 64\<close> as eight bytes.\<close>

definition be_bytes :: "nat \<Rightarrow> nat \<Rightarrow> nat list" where
  "be_bytes k n = map (\<lambda>i. n div 256 ^ (k - 1 - i) mod 256) [0..<k]"

definition sha_pad :: "nat list \<Rightarrow> nat list" where
  "sha_pad bs =
     bs @ [128] @ replicate ((119 - length bs mod 64) mod 64) 0 @ be_bytes 8 (8 * length bs)"

fun be_words :: "nat list \<Rightarrow> u32 list" where
  "be_words (a # b # c # d # rest) =
     word_of_nat (((a * 256 + b) * 256 + c) * 256 + d) # be_words rest"
| "be_words _ = []"

function sha_blocks :: "sha_state \<Rightarrow> u32 list \<Rightarrow> sha_state" where
  "sha_blocks st ws = (if length ws < 16 then st else sha_blocks (sha_compress st (take 16 ws)) (drop 16 ws))"
  by pat_completeness auto
termination
  by (relation "measure (\<lambda>(st, ws). length ws)") auto

declare sha_blocks.simps [simp del]

definition sha256_words :: "string \<Rightarrow> u32 list" where
  "sha256_words s =
     (case sha_blocks (sha_init ! 0, sha_init ! 1, sha_init ! 2, sha_init ! 3,
                       sha_init ! 4, sha_init ! 5, sha_init ! 6, sha_init ! 7)
            (be_words (sha_pad (map of_char s))) of
        (a, b, c, d, e, f, g, h) \<Rightarrow> [a, b, c, d, e, f, g, h])"

definition hex8 :: "u32 \<Rightarrow> string" where
  "hex8 w = map (\<lambda>i. hex_digit (unat w div 16 ^ (7 - i) mod 16)) [0..<8]"

definition sha256_hex :: "string \<Rightarrow> string" where
  "sha256_hex s = concat (map hex8 (sha256_words s))"

section \<open>The shape of a digest\<close>

definition is_hex :: "char \<Rightarrow> bool" where
  "is_hex c \<longleftrightarrow> (48 \<le> (of_char c :: nat) \<and> (of_char c :: nat) \<le> 57) \<or>
     (97 \<le> (of_char c :: nat) \<and> (of_char c :: nat) \<le> 102)"

lemma hex_digit_is_hex: "n < 16 \<Longrightarrow> is_hex (hex_digit n)"
  by (auto simp: hex_digit_def is_hex_def)

lemma hex8_shape: "length (hex8 w) = 8 \<and> list_all is_hex (hex8 w)"
  by (simp add: hex8_def list_all_iff hex_digit_is_hex)

text \<open>A digest as the image tags use it: 64 lower-case hexadecimal digits.\<close>

definition digest_ok :: "string \<Rightarrow> bool" where
  "digest_ok s \<longleftrightarrow> length s = 64 \<and> list_all is_hex s"

lemma sha256_words_length: "length (sha256_words s) = 8"
  by (simp add: sha256_words_def split: prod.splits)

lemma concat_hex8:
  "length (concat (map hex8 ws)) = 8 * length ws \<and> list_all is_hex (concat (map hex8 ws))"
  using hex8_shape by (induction ws) auto

text \<open>What the clients of a hash function rely on.\<close>

locale hex_digest =
  fixes digest :: "string \<Rightarrow> string"
  assumes digest_shape: "digest_ok (digest m)"
begin

lemma digest_length: "length (digest m) = 64"
  using digest_shape [of m] by (simp add: digest_ok_def)

lemma digest_hex: "c \<in> set (digest m) \<Longrightarrow> is_hex c"
  using digest_shape [of m] by (auto simp: digest_ok_def list_all_iff)

lemma digest_no_sep: "CHR ''/'' \<notin> set (digest m)" "CHR '':'' \<notin> set (digest m)"
  "CHR ''-'' \<notin> set (digest m)"
  using digest_hex [of "CHR ''/''" m] digest_hex [of "CHR '':''" m] digest_hex [of "CHR ''-''" m]
  by (auto simp: is_hex_def)

end

interpretation sha256: hex_digest sha256_hex
  by unfold_locales
    (use concat_hex8 sha256_words_length in \<open>auto simp: digest_ok_def sha256_hex_def\<close>)

end
