(* ===== verification/Docker_Tags.thy ===== *)
theory Docker_Tags
  imports Docker_Config Topo_Sort Sha256
begin

text \<open>
  The \<^verbatim>\<open>DockerBuilder\<close> of \<^verbatim>\<open>scripts/docker/build.py\<close>: loading its configuration, the build order of
  the images and the content-addressed tags with their memo table.
\<close>

section \<open>The builder and its configuration\<close>

text \<open>
  The attributes of a \<^verbatim>\<open>DockerBuilder\<close>; the memo table \<^verbatim>\<open>generated_tags\<close>, the only attribute that
  changes after construction, is passed separately.
\<close>

record builder =
  b_config_path :: ppath
  b_search_paths :: "ppath list"
  b_repo :: string
  b_namespace :: string
  b_arch :: string
  b_packages :: "string list dict"
  b_keys :: "string list dict"
  b_repositories :: "string list dict"
  b_images :: "json dict"

definition new_builder :: "ppath \<Rightarrow> ppath list \<Rightarrow> builder" where
  "new_builder config_path search_paths =
     \<lparr>b_config_path = config_path, b_search_paths = search_paths, b_repo = [],
      b_namespace = ''devkit'', b_arch = ''amd64'', b_packages = [], b_keys = [],
      b_repositories = [], b_images = []\<rparr>"

definition load_registry_config :: "json \<Rightarrow> builder \<Rightarrow> builder res" where
  "load_registry_config config b =
     res_bind (parse_registry_config config)
       (\<lambda>(repo, namespace). Inr (b\<lparr>b_repo := repo, b_namespace := namespace\<rparr>))"

definition package_args :: "json \<Rightarrow> string list res" where
  "package_args settings =
     res_bind (py_getitem settings ''packages'') (\<lambda>p.
     res_bind (py_items p) (\<lambda>kvs.
     res_map (\<lambda>(k, v). if \<not> py_truth v then Inl (SystemExit 1)
                        else Inr (k @ ''='' @ py_str v)) kvs))"

definition pair_args :: "string \<Rightarrow> json \<Rightarrow> string list res" where
  "pair_args key settings =
     res_bind (py_getitem settings key) (\<lambda>p.
     res_bind (py_items p) (\<lambda>kvs.
     res_map (\<lambda>(k, v). Inr (k @ ''='' @ py_str v)) kvs))"

definition load_image_settings :: "string \<times> json \<Rightarrow> builder \<Rightarrow> builder res" where
  "load_image_settings = (\<lambda>(img, settings) b.
     res_bind (py_contains ''packages'' settings) (\<lambda>h1.
     res_bind (if h1 then res_bind (package_args settings)
                 (\<lambda>xs. Inr (b\<lparr>b_packages := AList.update img xs (b_packages b)\<rparr>)) else Inr b) (\<lambda>b1.
     res_bind (py_contains ''keys'' settings) (\<lambda>h2.
     res_bind (if h2 then res_bind (pair_args ''keys'' settings)
                 (\<lambda>xs. Inr (b1\<lparr>b_keys := AList.update img xs (b_keys b1)\<rparr>)) else Inr b1) (\<lambda>b2.
     res_bind (py_contains ''repositories'' settings) (\<lambda>h3.
     if h3 then res_bind (pair_args ''repositories'' settings)
                 (\<lambda>xs. Inr (b2\<lparr>b_repositories := AList.update img xs (b_repositories b2)\<rparr>)) else Inr b2))))))"

definition load_images_config :: "json \<Rightarrow> builder \<Rightarrow> builder res" where
  "load_images_config config b =
     res_bind (py_getitem config ''docker'') (\<lambda>d.
     res_bind (py_contains ''images'' d) (\<lambda>has.
     if \<not> has then Inr b else
     res_bind (py_getitem d ''images'') (\<lambda>i.
     res_bind (py_items i) (\<lambda>kvs. res_fold load_image_settings kvs b))))"

text \<open>\<^verbatim>\<open>_load_config\<close>: a missing file is fine, a bad one (JSONDecodeError, ValueError) exits with 1.\<close>

definition load_config :: "fsys \<Rightarrow> loc \<Rightarrow> builder \<Rightarrow> builder res" where
  "load_config fs cwd b =
     (if \<not> path_exists fs cwd (b_config_path b) then Inr b
      else
        res_bind (read_bytes fs cwd (b_config_path b)) (\<lambda>bytes.
        res_catch
          (res_bind (if utf8_valid bytes then json_loads bytes else Inl UnicodeDecodeError) (\<lambda>config.
           res_bind (validate_config config CONFIG_SCHEMA []) (\<lambda>_.
           res_bind (py_contains ''docker'' config) (\<lambda>d.
           if d then res_bind (load_registry_config config b) (load_images_config config)
           else Inr b))))
          (\<lambda>e. if is_ValueError e then Some (Inl (SystemExit 1)) else None)))"

definition docker_builder :: "fsys \<Rightarrow> loc \<Rightarrow> ppath \<Rightarrow> ppath list \<Rightarrow> builder res" where
  "docker_builder fs cwd config_path search_paths =
     res_bind (load_config fs cwd (new_builder config_path search_paths)) (\<lambda>b.
     res_bind (load_image_configs fs cwd search_paths) (\<lambda>imgs. Inr (b\<lparr>b_images := imgs\<rparr>)))"

definition get_image_tag :: "builder \<Rightarrow> string \<Rightarrow> string \<Rightarrow> string" where
  "get_image_tag b image_name sha =
     (let image_path = b_namespace b @ ''/'' @ image_name;
          tag_suffix = b_arch b @ ''-'' @ sha
      in if b_repo b \<noteq> [] then b_repo b @ ''/'' @ image_path @ '':'' @ tag_suffix
         else image_path @ '':'' @ tag_suffix)"

section \<open>Build order\<close>

text \<open>
  Python sets have no fixed iteration order: \<open>so\<close> is the order in which a set is iterated and
  \<open>pop\<close> the element \<^verbatim>\<open>set.pop\<close> takes. Nothing but the two conditions below is known of \<open>so\<close>.
\<close>

type_synonym set_order = "string list \<Rightarrow> string list"

definition set_order_ok :: "set_order \<Rightarrow> bool" where
  "set_order_ok so \<longleftrightarrow> (\<forall>xs. distinct (so xs) \<and> set (so xs) = set xs)"

definition set_pop :: "('a list \<Rightarrow> 'a) \<Rightarrow> 'a list \<Rightarrow> 'a" where
  "set_pop pop xs = (if pop xs \<in> set xs then pop xs else hd xs)"

definition deps_graph :: "set_order \<Rightarrow> json dict \<Rightarrow> string graph res" where
  "deps_graph so configs =
     res_map (\<lambda>(name, conf). res_bind (conf_deps conf) (\<lambda>ds. Inr (name, so (map snd ds)))) configs"

text \<open>The loop of \<^verbatim>\<open>get_dependency_subgraph\<close> over \<^verbatim>\<open>nodes_to_visit\<close> and \<^verbatim>\<open>visited_nodes\<close>.\<close>

function visit :: "('a list \<Rightarrow> 'a) \<Rightarrow> 'a graph \<Rightarrow> 'a list \<Rightarrow> 'a list \<Rightarrow> 'a list" where
  "visit pop g to_visit visited =
     (if to_visit = [] then visited
      else
        (let n = set_pop pop to_visit; rest = removeAll n to_visit
         in if n \<in> set visited then visit pop g rest visited
            else visit pop g (List.union (preds g n) rest) (n # visited)))"
  by pat_completeness auto
termination
proof (relation "measures [
      \<lambda>(pop, g, to_visit, visited). length (filter (\<lambda>k. k \<notin> set visited) (map fst g)),
      \<lambda>(pop, g, to_visit, visited). length to_visit]", goal_cases)
  case 1
  show ?case by simp
next
  case (2 pop g to_visit visited n rest)
  then have "n \<in> set to_visit" by (auto simp: set_pop_def)
  then have "length rest < length to_visit" using 2 by (simp add: length_removeAll_less)
  then show ?case by simp
next
  case (3 pop g to_visit visited n rest)
  then have n: "n \<in> set to_visit" by (auto simp: set_pop_def)
  show ?case
  proof (cases "n \<in> fst ` set g")
    case True
    then have "length (filter (\<lambda>k. k \<notin> set (n # visited)) (map fst g))
        < length (filter (\<lambda>k. k \<notin> set visited) (map fst g))"
      using 3 by (intro length_filter_strict_mono [of _ _ _ n]) auto
    then show ?thesis by simp
  next
    case False
    then have "preds g n = []" by (auto simp: preds_def dest!: map_of_SomeD split: option.splits) force
    moreover have "length rest < length to_visit" using n 3 by (simp add: length_removeAll_less)
    moreover have "length (filter (\<lambda>k. k \<notin> set (n # visited)) (map fst g))
        \<le> length (filter (\<lambda>k. k \<notin> set visited) (map fst g))"
      by (rule length_filter_mono) auto
    ultimately show ?thesis by (auto simp: List.union_def)
  qed
qed

declare visit.simps [simp del]

definition subgraph :: "set_order \<Rightarrow> string graph \<Rightarrow> string list \<Rightarrow> string graph" where
  "subgraph so g visited = [(n, preds g n). n \<leftarrow> so visited, n \<in> set (map fst g)]"

text \<open>A cycle (any exception of the sorter) is logged and exits with 1.\<close>

definition sort_or_exit :: "string graph \<Rightarrow> string list res" where
  "sort_or_exit g =
     res_catch (static_order g) (\<lambda>e. if is_Exception e then Some (Inl (SystemExit 1)) else None)"

definition get_dependency_subgraph ::
  "set_order \<Rightarrow> (string list \<Rightarrow> string) \<Rightarrow> string list \<Rightarrow> json dict \<Rightarrow> string list res" where
  "get_dependency_subgraph so pop target_image_names image_configs_map =
     res_bind (deps_graph so image_configs_map) (\<lambda>full_graph.
       sort_or_exit (subgraph so full_graph (visit pop full_graph (so target_image_names) [])))"

definition get_build_order ::
  "set_order \<Rightarrow> (string list \<Rightarrow> string) \<Rightarrow> string list \<Rightarrow> builder \<Rightarrow> string list res" where
  "get_build_order so pop target_images b =
     (if target_images \<noteq> [] then get_dependency_subgraph so pop target_images (b_images b)
      else res_bind (deps_graph so (b_images b)) sort_or_exit)"

section \<open>Tags\<close>

definition find_dockerfile :: "fsys \<Rightarrow> loc \<Rightarrow> ppath list \<Rightarrow> string \<Rightarrow> ppath option" where
  "find_dockerfile fs cwd search_paths image_name =
     (let dockerfile_name = image_name @ ''.Dockerfile''
      in List.find (path_exists fs cwd)
           (map (\<lambda>path. path_div path (to_path dockerfile_name)) search_paths))"

definition calculate_sha256 :: "fsys \<Rightarrow> loc \<Rightarrow> ppath \<Rightarrow> string list \<Rightarrow> string res" where
  "calculate_sha256 fs cwd dockerfile_path sorted_build_args =
     res_bind (read_bytes fs cwd dockerfile_path)
       (\<lambda>content. Inr (sha256_hex (content @ concat sorted_build_args)))"

text \<open>The loop over the three \<^verbatim>\<open>extra_*_map\<close> attributes: (argument name, values joined by blanks).\<close>

definition extra_args :: "builder \<Rightarrow> string \<Rightarrow> (string \<times> string) list" where
  "extra_args b image_name =
     [(arg_name, join '' '' val).
        (m, arg_name) \<leftarrow> [(b_packages b, ''EXTRA_PACKAGES''), (b_keys b, ''EXTRA_KEYS''),
                           (b_repositories b, ''EXTRA_REPOSITORIES'')],
        val \<leftarrow> [case map_of m image_name of None \<Rightarrow> [] | Some v \<Rightarrow> v], val \<noteq> []]"

text \<open>The strings \<^verbatim>\<open>arg=value\<close> that go into the hash, sorted.\<close>

definition sha_args :: "builder \<Rightarrow> string \<Rightarrow> (string \<times> string) list \<Rightarrow> string list" where
  "sha_args b image_name dep_tags =
     sort (map (\<lambda>(k, v). k @ ''='' @ v) (dep_tags @ extra_args b image_name))"

text \<open>
  \<^verbatim>\<open>calculate_tag_for_image\<close>, with Python's recursion limit as the first argument: a lookup in the
  memo table, or the tags of the dependencies, the hash and a new entry.
\<close>

fun calculate_tag_for_image ::
  "nat \<Rightarrow> fsys \<Rightarrow> loc \<Rightarrow> builder \<Rightarrow> string \<Rightarrow> string dict \<Rightarrow> (string \<times> string dict) res" where
  "calculate_tag_for_image 0 fs cwd b image_name tags = Inl RecursionError"
| "calculate_tag_for_image (Suc limit) fs cwd b image_name tags =
     (case map_of tags image_name of
        Some t \<Rightarrow> Inr (t, tags)
      | None \<Rightarrow>
          res_bind (dict_item (b_images b) image_name) (\<lambda>image_conf.
          res_bind (conf_deps image_conf) (\<lambda>dependencies.
          case find_dockerfile fs cwd (b_search_paths b) image_name of
            None \<Rightarrow> Inl (SystemExit 1)
          | Some dockerfile \<Rightarrow>
              res_bind (res_fold (\<lambda>(arg_name, dep) (args, tags).
                  res_bind (calculate_tag_for_image limit fs cwd b dep tags)
                    (\<lambda>(dep_tag, tags'). Inr (args @ [(arg_name, dep_tag)], tags')))
                  dependencies ([], tags)) (\<lambda>(dep_tags, tags').
              res_bind (calculate_sha256 fs cwd (realpath fs cwd dockerfile)
                          (sha_args b image_name dep_tags)) (\<lambda>sha.
              let tag = get_image_tag b image_name sha
              in Inr (tag, AList.update image_name tag tags'))))))"

definition calculate_tags_loop ::
  "nat \<Rightarrow> fsys \<Rightarrow> loc \<Rightarrow> builder \<Rightarrow> string list \<Rightarrow> string dict \<Rightarrow> string dict res" where
  "calculate_tags_loop limit fs cwd b =
     res_fold (\<lambda>image_name tags.
       res_bind (calculate_tag_for_image limit fs cwd b image_name tags) (\<lambda>(t, tags'). Inr tags'))"

definition calculate_tags ::
  "nat \<Rightarrow> set_order \<Rightarrow> (string list \<Rightarrow> string) \<Rightarrow> fsys \<Rightarrow> loc \<Rightarrow> string list \<Rightarrow> builder \<Rightarrow> string dict
   \<Rightarrow> string list res" where
  "calculate_tags limit so pop fs cwd target_images b tags =
     res_bind (get_build_order so pop target_images b) (\<lambda>images_to_process.
     res_bind (calculate_tags_loop limit fs cwd b images_to_process tags) (\<lambda>tags'.
     res_map (dict_item tags') images_to_process))"

definition get_all_docker_image_tags ::
  "nat \<Rightarrow> set_order \<Rightarrow> (string list \<Rightarrow> string) \<Rightarrow> fsys \<Rightarrow> loc \<Rightarrow> ppath \<Rightarrow> ppath list \<Rightarrow> string list
   \<Rightarrow> string list res" where
  "get_all_docker_image_tags limit so pop fs cwd config_path search_paths target_images =
     res_bind (docker_builder fs cwd config_path search_paths) (\<lambda>b.
     calculate_tags limit so pop fs cwd target_images b [])"

end
