(* ===== verification/Docker_Order.thy ===== *)
theory Docker_Order
  imports Docker_Tags
begin

text \<open>
  The build order of \<^verbatim>\<open>DockerBuilder.get_build_order\<close> and \<^verbatim>\<open>get_dependency_subgraph\<close>: which images are
  processed, in which order, and when the script gives up.
\<close>

section \<open>The worklist computes reachability\<close>

lemma set_pop_in: "xs \<noteq> [] \<Longrightarrow> set_pop pop xs \<in> set xs"
  by (simp add: set_pop_def)

text \<open>Everything pending or visited is returned, and the result is closed under predecessors.\<close>

lemma visit_closed:
  assumes "\<forall>v \<in> set visited. set (preds g v) \<subseteq> set visited \<union> set to_visit"
  shows "set visited \<union> set to_visit \<subseteq> set (visit pop g to_visit visited) \<and>
    (\<forall>v \<in> set (visit pop g to_visit visited). set (preds g v) \<subseteq> set (visit pop g to_visit visited))"
  using assms
proof (induction pop g to_visit visited rule: visit.induct)
  case (1 pop g to_visit visited)
  show ?case
  proof (cases "to_visit = []")
    case True
    then show ?thesis using "1.prems" by (auto simp: visit.simps)
  next
    case False
    let ?n = "set_pop pop to_visit"
    have n: "?n \<in> set to_visit" using False by (rule set_pop_in)
    show ?thesis
    proof (cases "?n \<in> set visited")
      case True
      have "\<forall>v \<in> set visited. set (preds g v) \<subseteq> set visited \<union> set (removeAll ?n to_visit)"
        using "1.prems" True by fastforce
      note IH = "1.IH"(1) [OF False refl refl True this]
      have "visit pop g to_visit visited = visit pop g (removeAll ?n to_visit) visited"
        using True False by (simp add: visit.simps [of pop g to_visit] Let_def)
      with IH n True show ?thesis by auto
    next
      case F: False
      have "\<forall>v \<in> set (?n # visited). set (preds g v) \<subseteq>
          set (?n # visited) \<union> set (List.union (preds g ?n) (removeAll ?n to_visit))"
        using "1.prems" by fastforce
      note IH = "1.IH"(2) [OF False refl refl F this]
      have "visit pop g to_visit visited =
          visit pop g (List.union (preds g ?n) (removeAll ?n to_visit)) (?n # visited)"
        using F False by (simp add: visit.simps [of pop g to_visit] Let_def)
      with IH n F show ?thesis by auto
    qed
  qed
qed

lemma visit_reachable:
  "n \<in> set (visit pop g to_visit visited) \<Longrightarrow>
     n \<in> set visited \<or> (\<exists>t \<in> set to_visit. (n, t) \<in> (edges g)\<^sup>*)"
proof (induction pop g to_visit visited rule: visit.induct)
  case (1 pop g to_visit visited)
  show ?case
  proof (cases "to_visit = []")
    case True
    then show ?thesis using "1.prems" by (auto simp: visit.simps)
  next
    case False
    let ?n = "set_pop pop to_visit"
    have n: "?n \<in> set to_visit" using False by (rule set_pop_in)
    show ?thesis
    proof (cases "?n \<in> set visited")
      case True
      then have "n \<in> set (visit pop g (removeAll ?n to_visit) visited)"
        using "1.prems" False by (simp add: visit.simps [of pop g to_visit] Let_def)
      from "1.IH"(1) [OF False refl refl True this] show ?thesis by auto
    next
      case F: False
      then have "n \<in> set (visit pop g (List.union (preds g ?n) (removeAll ?n to_visit)) (?n # visited))"
        using "1.prems" False by (simp add: visit.simps [of pop g to_visit] Let_def)
      from "1.IH"(2) [OF False refl refl F this] consider
          "n = ?n" | "n \<in> set visited" | t where "t \<in> set (preds g ?n)" "(n, t) \<in> (edges g)\<^sup>*"
        | t where "t \<in> set to_visit" "(n, t) \<in> (edges g)\<^sup>*" by auto
      then show ?thesis
      proof cases
        case 3
        then have "(n, ?n) \<in> (edges g)\<^sup>*"
          by (auto simp: edges_def intro: rtrancl_into_rtrancl)
        with n show ?thesis by blast
      qed (use n in auto)
    qed
  qed
qed

lemma set_visit: "set (visit pop g ts []) = {n. \<exists>t \<in> set ts. (n, t) \<in> (edges g)\<^sup>*}" (is "?V = ?R")
proof
  show "?V \<subseteq> ?R" using visit_reachable [of _ pop g ts "[]"] by auto
  have c: "set ts \<subseteq> ?V" "\<And>v p. v \<in> ?V \<Longrightarrow> (p, v) \<in> edges g \<Longrightarrow> p \<in> ?V"
    using visit_closed [of "[]" g ts pop] by (auto simp: edges_def)
  show "?R \<subseteq> ?V"
  proof clarify
    fix n t assume "(n, t) \<in> (edges g)\<^sup>*" "t \<in> set ts"
    then show "n \<in> ?V" by (induction rule: converse_rtrancl_induct) (use c in auto)
  qed
qed

section \<open>The dependency relation\<close>

text \<open>\<open>(d, n)\<close>: the image \<open>n\<close> names the image \<open>d\<close> in its \<^verbatim>\<open>deps\<close>.\<close>

definition depends :: "json dict \<Rightarrow> (string \<times> string) set" where
  "depends configs = {(d, n). \<exists>conf ds. map_of configs n = Some conf \<and> conf_deps conf = Inr ds \<and>
     d \<in> snd ` set ds}"

lemma map_of_res_map:
  "res_map (\<lambda>(k, v). res_bind (f v) (\<lambda>y. Inr (k, h y))) xs = Inr ys \<Longrightarrow>
     map fst ys = map fst xs \<and>
     (\<forall>k. (map_of xs k = None \<longleftrightarrow> map_of ys k = None) \<and>
          (\<forall>v. map_of xs k = Some v \<longrightarrow> (\<exists>y. f v = Inr y \<and> map_of ys k = Some (h y))))"
proof (induction xs arbitrary: ys)
  case (Cons p xs)
  obtain k v where p: "p = (k, v)" by fastforce
  from Cons.prems obtain y ys' where y: "f v = Inr y"
    and ys': "res_map (\<lambda>(k, v). res_bind (f v) (\<lambda>y. Inr (k, h y))) xs = Inr ys'" "ys = (k, h y) # ys'"
    by (auto simp: p)
  from Cons.IH [OF ys'(1)] show ?case by (auto simp: p y ys'(2))
qed simp

lemma deps_graph_facts:
  assumes "deps_graph so configs = Inr g"
  shows "map fst g = map fst configs"
    and "map_of configs k = None \<longleftrightarrow> map_of g k = None"
    and "map_of configs k = Some conf \<Longrightarrow>
      \<exists>ds. conf_deps conf = Inr ds \<and> map_of g k = Some (so (map snd ds))"
  using map_of_res_map [OF assms [unfolded deps_graph_def]] by auto

lemma deps_graph_dict:
  assumes "set_order_ok so" and "distinct (map fst configs)" and "deps_graph so configs = Inr g"
  shows "dict_graph g"
proof -
  note F = deps_graph_facts [OF assms(3)]
  have d: "distinct (map fst g)" using F assms(2) by simp
  have "distinct ps" if "(n, ps) \<in> set g" for n ps
  proof -
    have "map_of g n = Some ps" using that d by simp
    moreover from this obtain v where "map_of configs n = Some v"
      using F(2) [of n] by (cases "map_of configs n") auto
    ultimately have "\<exists>ys. ps = so ys" using F(3) [of n v] by auto
    then show ?thesis using assms(1) by (auto simp: set_order_ok_def)
  qed
  with d show ?thesis by (auto simp: dict_graph_def)
qed

lemma edges_deps_graph:
  assumes "set_order_ok so" and "deps_graph so configs = Inr g"
  shows "edges g = depends configs"
proof -
  note F = deps_graph_facts [OF assms(2)]
  have so: "set (so xs) = set xs" for xs using assms(1) by (simp add: set_order_ok_def)
  have "d \<in> set (preds g n) \<longleftrightarrow> (\<exists>conf ds. map_of configs n = Some conf \<and> conf_deps conf = Inr ds \<and>
     d \<in> snd ` set ds)" for d n
  proof (cases "map_of configs n")
    case None
    then have "map_of g n = None" using F(2) by blast
    then show ?thesis using None by (simp add: preds_def)
  next
    case (Some conf)
    then obtain ds where "conf_deps conf = Inr ds" "map_of g n = Some (so (map snd ds))"
      using F(3) by blast
    then show ?thesis using Some by (simp add: preds_def so)
  qed
  then show ?thesis by (auto simp: edges_def depends_def)
qed

lemma keys_deps_graph: "deps_graph so configs = Inr g \<Longrightarrow> map fst g = map fst configs"
  by (rule deps_graph_facts(1))

section \<open>The subgraph of the targets\<close>

lemma map_of_subgraph:
  assumes "set_order_ok so"
  shows "map_of (subgraph so g vs) n =
    (if n \<in> set vs \<and> n \<in> set (map fst g) then Some (preds g n) else None)"
proof -
  have "map_of [(n, preds g n). n \<leftarrow> xs, n \<in> set (map fst g)] n =
      (if n \<in> set xs \<and> n \<in> set (map fst g) then Some (preds g n) else None)" for xs
    by (induction xs) auto
  then show ?thesis using assms by (simp add: subgraph_def set_order_ok_def)
qed

lemma subgraph_dict:
  assumes so: "set_order_ok so" and g: "dict_graph g"
  shows "dict_graph (subgraph so g vs)"
proof -
  have "map fst [(n, preds g n). n \<leftarrow> xs, n \<in> set (map fst g)] = filter (\<lambda>n. n \<in> set (map fst g)) xs" for xs
    by (induction xs) auto
  then have "map fst (subgraph so g vs) = filter (\<lambda>n. n \<in> set (map fst g)) (so vs)"
    by (simp add: subgraph_def)
  moreover have "distinct (so vs)" using so by (simp add: set_order_ok_def)
  ultimately show ?thesis
    using preds_distinct [OF g] by (auto simp: dict_graph_def subgraph_def)
qed

lemma preds_key: "p \<in> set (preds g n) \<Longrightarrow> n \<in> set (map fst g)"
  unfolding preds_def by (cases "map_of g n") (auto dest!: map_of_SomeD simp: image_iff intro!: bexI)

lemma preds_subgraph:
  assumes "set_order_ok so"
  shows "preds (subgraph so g vs) n = (if n \<in> set vs then preds g n else [])"
  using preds_key [of _ g n]
  by (auto simp: preds_def [of "subgraph so g vs"] map_of_subgraph [OF assms] simp del: set_map)
     (metis list.set_intros(1) neq_Nil_conv)

lemma nodes_subgraph:
  assumes so: "set_order_ok so"
  shows "set (ts_nodes (subgraph so g vs)) =
    {n \<in> set vs. n \<in> set (map fst g)} \<union> {p. \<exists>n \<in> set vs. p \<in> set (preds g n)}"
proof -
  have "set (subgraph so g vs) = (\<lambda>n. (n, preds g n)) ` {n \<in> set vs. n \<in> set (map fst g)}"
    using so by (auto simp: subgraph_def set_order_ok_def)
  then have "fst ` set (subgraph so g vs) = {n \<in> set vs. n \<in> set (map fst g)}"
    "(\<Union>(n, ps) \<in> set (subgraph so g vs). set ps) = {p. \<exists>n \<in> set vs. p \<in> set (preds g n)}"
    using preds_key [of _ g] by (simp_all add: image_image del: set_map) blast
  then show ?thesis unfolding set_ts_nodes by blast
qed

lemma acyclic_restrict:
  "acyclic {(p, n). p \<in> set (preds g n) \<and> n \<in> V} \<longleftrightarrow> (\<forall>n \<in> V. (n, n) \<notin> (edges g)\<^sup>+)"
  if closed: "\<And>n p. n \<in> V \<Longrightarrow> (p, n) \<in> edges g \<Longrightarrow> p \<in> V"
proof -
  let ?E = "{(p, n). p \<in> set (preds g n) \<and> n \<in> V}"
  have sub: "?E \<subseteq> edges g" by (auto simp: edges_def)
  have up: "(a, b) \<in> ?E\<^sup>+" if "(a, b) \<in> (edges g)\<^sup>+" "b \<in> V" for a b
    using that
  proof (induction rule: converse_trancl_induct)
    case (base a)
    then show ?case by (auto simp: edges_def)
  next
    case (step a c)
    from step have "(c, b) \<in> ?E\<^sup>+" by blast
    then obtain d where "(c, d) \<in> ?E" by (meson tranclD)
    then have "c \<in> V" using closed by (auto simp: edges_def)
    then have "(a, c) \<in> ?E" using step by (auto simp: edges_def)
    with step show ?case by (auto intro: trancl_into_trancl2)
  qed
  have "n \<in> V \<and> (n, n) \<in> (edges g)\<^sup>+" if "(n, n) \<in> ?E\<^sup>+" for n
    using tranclD2 [OF that] trancl_mono [OF that sub] by auto
  then show ?thesis unfolding acyclic_def using up by blast
qed

section \<open>The build order\<close>

lemma sort_or_exit_cases:
  assumes "dict_graph g"
  shows "sort_or_exit g = (if acyclic (edges g) then Inr (kahn_start g) else Inl (SystemExit 1))"
    and "sort_or_exit g = Inr xs \<Longrightarrow> build_order g xs"
  using graphlib.sorter_cycle_iff [OF assms] static_order_complete [OF assms]
    graphlib.sorter_sound [OF assms, of xs]
  by (auto simp: sort_or_exit_def)

text \<open>The graph that is sorted, and what the search found, for targets or for all images.\<close>

definition sorted_graph :: "set_order \<Rightarrow> (string list \<Rightarrow> string) \<Rightarrow> string list \<Rightarrow> string graph \<Rightarrow> string graph" where
  "sorted_graph so pop ts g = (if ts \<noteq> [] then subgraph so g (visit pop g (so ts) []) else g)"

lemma get_build_order_eq:
  "get_build_order so pop ts b =
     res_bind (deps_graph so (b_images b)) (\<lambda>g. sort_or_exit (sorted_graph so pop ts g))"
  by (simp add: get_build_order_def get_dependency_subgraph_def sorted_graph_def)

text \<open>The images a run is about: everything, or the targets with all they depend on.\<close>

definition wanted :: "builder \<Rightarrow> string list \<Rightarrow> string set" where
  "wanted b ts =
     (if ts = [] then fst ` set (b_images b) \<union> Domain (depends (b_images b))
      else {n. \<exists>t \<in> set ts. (n = t \<and> n \<in> fst ` set (b_images b)) \<or> (n, t) \<in> (depends (b_images b))\<^sup>+})"

text \<open>The graph of the configurations, its nodes and what the worklist loop visits.\<close>

lemma graph_preds:
  assumes "set_order_ok so" and "deps_graph so (b_images b) = Inr g"
  shows "p \<in> set (preds g n) \<longleftrightarrow> (p, n) \<in> depends (b_images b)"
  using edges_deps_graph [OF assms] by (auto simp: edges_def)

lemma graph_keys:
  "deps_graph so (b_images b) = Inr g \<Longrightarrow> set (map fst g) = fst ` set (b_images b)"
  using keys_deps_graph by (metis list.set_map)

lemma graph_nodes:
  assumes so: "set_order_ok so" and imgs: "distinct (map fst (b_images b))"
    and g: "deps_graph so (b_images b) = Inr g"
  shows "set (ts_nodes g) = fst ` set (b_images b) \<union> Domain (depends (b_images b))"
proof -
  have "(n, ps) \<in> set g \<Longrightarrow> set ps = set (preds g n)" for n ps
    using deps_graph_dict [OF so imgs g] by (simp add: preds_def dict_graph_def)
  moreover have "(p, n) \<in> depends (b_images b) \<Longrightarrow> \<exists>ps. (n, ps) \<in> set g" for p n
    using preds_key [of p g n] by (fastforce simp: graph_preds [OF so g])
  ultimately have "(\<Union>(n, ps) \<in> set g. set ps) = Domain (depends (b_images b))"
    using graph_preds [OF so g] by fastforce
  then show ?thesis unfolding set_ts_nodes using graph_keys [OF g] by simp
qed

lemma visited_set:
  assumes "set_order_ok so" and "deps_graph so (b_images b) = Inr g"
  shows "set (visit pop g (so ts) []) = {n. \<exists>t \<in> set ts. (n, t) \<in> (depends (b_images b))\<^sup>*}"
  using assms by (simp add: set_visit edges_deps_graph [OF assms] set_order_ok_def)

lemma visited_wanted:
  assumes "set_order_ok so" and "deps_graph so (b_images b) = Inr g" and "ts \<noteq> []"
  shows "wanted b ts \<subseteq> set (visit pop g (so ts) [])"
  using assms(3) by (auto simp: wanted_def visited_set [OF assms(1,2)] intro: trancl_into_rtrancl)

lemma subgraph_nodes:
  assumes so: "set_order_ok so" and g: "deps_graph so (b_images b) = Inr g" and ts: "ts \<noteq> []"
  shows "set (ts_nodes (subgraph so g (visit pop g (so ts) []))) = wanted b ts"
proof -
  let ?D = "depends (b_images b)" and ?V = "visit pop g (so ts) []"
  note V = visited_set [OF so g, of pop ts]
  have "(\<exists>m. (n, m) \<in> ?D \<and> (m, t) \<in> ?D\<^sup>*) \<longleftrightarrow> (n, t) \<in> ?D\<^sup>+" for n t
    by (meson rtrancl_into_trancl2 tranclD)
  then have "(\<exists>m. (\<exists>t \<in> set ts. (m, t) \<in> ?D\<^sup>*) \<and> (n, m) \<in> ?D) \<longleftrightarrow> (\<exists>t \<in> set ts. (n, t) \<in> ?D\<^sup>+)" for n
    by blast
  then have "{p. \<exists>n \<in> set ?V. (p, n) \<in> ?D} = {p. \<exists>t \<in> set ts. (p, t) \<in> ?D\<^sup>+}"
    unfolding V by simp
  moreover have "set (ts_nodes (subgraph so g ?V)) =
      {n. n \<in> set ?V \<and> n \<in> fst ` set (b_images b)} \<union> {p. \<exists>n \<in> set ?V. (p, n) \<in> ?D}"
    unfolding nodes_subgraph [OF so] graph_keys [OF g] graph_preds [OF so g] by blast
  ultimately show ?thesis unfolding wanted_def V using ts by (auto simp: rtrancl_eq_or_trancl)
qed

lemma subgraph_acyclic:
  assumes so: "set_order_ok so" and g: "deps_graph so (b_images b) = Inr g" and ts: "ts \<noteq> []"
  shows "acyclic (edges (subgraph so g (visit pop g (so ts) []))) \<longleftrightarrow>
    (\<forall>n \<in> wanted b ts. (n, n) \<notin> (depends (b_images b))\<^sup>+)"
proof -
  let ?D = "depends (b_images b)" and ?V = "visit pop g (so ts) []"
  note V = visited_set [OF so g, of pop ts] and e = edges_deps_graph [OF so g]
  have "edges (subgraph so g ?V) = {(p, n). p \<in> set (preds g n) \<and> n \<in> set ?V}"
    by (auto simp: edges_def preds_subgraph [OF so] split: if_splits)
  moreover have "\<And>n p. n \<in> set ?V \<Longrightarrow> (p, n) \<in> edges g \<Longrightarrow> p \<in> set ?V"
    unfolding V e by (auto intro: converse_rtrancl_into_rtrancl)
  ultimately have "acyclic (edges (subgraph so g ?V)) \<longleftrightarrow> (\<forall>n \<in> set ?V. (n, n) \<notin> ?D\<^sup>+)"
    using acyclic_restrict [of "set ?V" g] by (simp add: e)
  moreover have "n \<in> wanted b ts" if "n \<in> set ?V" "(n, n) \<in> ?D\<^sup>+" for n
    using that ts by (auto simp: V wanted_def intro: trancl_rtrancl_trancl)
  ultimately show ?thesis using visited_wanted [OF assms, of pop] by blast
qed

lemma sorted_graph_facts:
  assumes so: "set_order_ok so" and imgs: "distinct (map fst (b_images b))"
    and g: "deps_graph so (b_images b) = Inr g"
  shows "dict_graph (sorted_graph so pop ts g)"
    and "set (ts_nodes (sorted_graph so pop ts g)) = wanted b ts"
    and "n \<in> wanted b ts \<Longrightarrow> set (preds (sorted_graph so pop ts g) n) = {d. (d, n) \<in> depends (b_images b)}"
    and "acyclic (edges (sorted_graph so pop ts g)) \<longleftrightarrow>
      (\<forall>n \<in> wanted b ts. (n, n) \<notin> (depends (b_images b))\<^sup>+)"
proof -
  have dg: "dict_graph g" by (rule deps_graph_dict [OF so imgs g])
  show "dict_graph (sorted_graph so pop ts g)"
    using dg subgraph_dict [OF so dg] by (simp add: sorted_graph_def)
  show "set (ts_nodes (sorted_graph so pop ts g)) = wanted b ts"
    using graph_nodes [OF assms] subgraph_nodes [OF so g] by (simp add: sorted_graph_def wanted_def)
  show "set (preds (sorted_graph so pop ts g) n) = {d. (d, n) \<in> depends (b_images b)}" if "n \<in> wanted b ts"
    using that visited_wanted [OF so g] graph_preds [OF so g]
    by (auto simp: sorted_graph_def preds_subgraph [OF so])
  have "(n, n) \<in> (depends (b_images b))\<^sup>+ \<Longrightarrow> n \<in> wanted b []" for n
    by (auto simp: wanted_def dest: tranclD)
  then show "acyclic (edges (sorted_graph so pop ts g)) \<longleftrightarrow>
      (\<forall>n \<in> wanted b ts. (n, n) \<notin> (depends (b_images b))\<^sup>+)"
    using subgraph_acyclic [OF so g] edges_deps_graph [OF so g]
    by (cases "ts = []") (auto simp: sorted_graph_def acyclic_def)
qed

lemma get_build_order_iff:
  assumes "set_order_ok so" and "distinct (map fst (b_images b))"
    and "deps_graph so (b_images b) = Inr g"
  shows "get_build_order so pop ts b =
    (if \<forall>n \<in> wanted b ts. (n, n) \<notin> (depends (b_images b))\<^sup>+
     then Inr (kahn_start (sorted_graph so pop ts g)) else Inl (SystemExit 1))"
  using sort_or_exit_cases(1) [OF sorted_graph_facts(1) [OF assms]] sorted_graph_facts(4) [OF assms]
  by (simp add: get_build_order_eq assms(3))

lemma get_build_order_sound:
  assumes "set_order_ok so" and "distinct (map fst (b_images b))"
    and "get_build_order so pop ts b = Inr xs"
  shows "distinct xs" and "set xs = wanted b ts"
    and "xs = as @ n # bs \<Longrightarrow> (d, n) \<in> depends (b_images b) \<Longrightarrow> d \<in> set as"
proof -
  obtain g where g: "deps_graph so (b_images b) = Inr g" and s: "sort_or_exit (sorted_graph so pop ts g) = Inr xs"
    using assms(3) by (auto simp: get_build_order_eq)
  note F = sorted_graph_facts [OF assms(1,2) g]
  have bo: "build_order (sorted_graph so pop ts g) xs" by (rule sort_or_exit_cases(2) [OF F(1) s])
  show "distinct xs" and X: "set xs = wanted b ts" using bo F(2) by (auto simp: build_order_def)
  assume xs: "xs = as @ n # bs" and d: "(d, n) \<in> depends (b_images b)"
  have "n \<in> wanted b ts" using X xs by auto
  then have "d \<in> set (preds (sorted_graph so pop ts g) n)" using F(3) d by blast
  then show "d \<in> set as" using bo xs unfolding build_order_def ordered_def by blast
qed

text \<open>Every image of a list comes after the images it depends on.\<close>

definition deps_first :: "json dict \<Rightarrow> string list \<Rightarrow> bool" where
  "deps_first configs xs \<longleftrightarrow>
     (\<forall>as n bs d. xs = as @ n # bs \<longrightarrow> (d, n) \<in> depends configs \<longrightarrow> d \<in> set as)"

section \<open>Properties\<close>

definition demo_images :: "json dict" where
  "demo_images =
     [(''app'', JObj [(''deps'', JObj [(''BASE_IMAGE'', JStr ''base''), (''TOOL_IMAGE'', JStr ''tool'')])]),
      (''base'', JObj [(''deps'', JObj [])]),
      (''tool'', JObj [(''deps'', JObj [(''BASE_IMAGE'', JStr ''base'')])]),
      (''ring'', JObj [(''deps'', JObj [(''RING_IMAGE'', JStr ''ring'')])])]"

definition demo_builder :: builder where
  "demo_builder = (new_builder (to_path ''devkit.json'') [to_path ''images''])\<lparr>b_images := demo_images\<rparr>"

lemma set_order_remdups [simp]: "set_order_ok remdups"
  by (simp add: set_order_ok_def)

lemma demo_facts:
  "distinct (map fst (b_images demo_builder))"
  "deps_graph remdups (b_images demo_builder) =
     Inr [(''app'', [''base'', ''tool'']), (''base'', []), (''tool'', [''base'']), (''ring'', [''ring''])]"
  "get_build_order remdups hd [''app''] demo_builder = Inr [''base'', ''tool'', ''app'']"
  by (simp add: demo_builder_def demo_images_def, code_simp, code_simp)

text \<open>
  C8: a build order lists every image of the run exactly once (the targets that are declared and all
  images they depend on; every declared image when no target is given), each after the images it
  depends on, whatever order Python's sets are iterated in.
\<close>

theorem build_order_correct:
  assumes "set_order_ok so" and "distinct (map fst (b_images b))"
    and "get_build_order so pop targets b = Inr xs"
  shows "distinct xs \<and> set xs = wanted b targets \<and> deps_first (b_images b) xs"
  using get_build_order_sound [OF assms] by (auto simp: deps_first_def)

theorem build_order_correct_witness:
  "distinct [''base'', ''tool'', ''app''] \<and> set [''base'', ''tool'', ''app''] = wanted demo_builder [''app''] \<and>
   deps_first (b_images demo_builder) [''base'', ''tool'', ''app'']"
  using build_order_correct [OF set_order_remdups demo_facts(1,3)] .

text \<open>
  C9: the script gives up on the order (exit code 1) if and only if an image of the run depends on
  itself; cycles among other images do not matter.
\<close>

theorem build_order_exit_iff_cycle:
  assumes "set_order_ok so" and "distinct (map fst (b_images b))"
    and "deps_graph so (b_images b) = Inr g"
  shows "get_build_order so pop targets b = Inl (SystemExit 1) \<longleftrightarrow>
    (\<exists>n. n \<in> wanted b targets \<and> (n, n) \<in> (depends (b_images b))\<^sup>+)"
  using get_build_order_iff [OF assms, of pop targets] by (auto split: if_splits)

theorem build_order_exit_iff_cycle_witness:
  "get_build_order remdups hd [''ring''] demo_builder = Inl (SystemExit 1) \<longleftrightarrow>
   (\<exists>n. n \<in> wanted demo_builder [''ring''] \<and> (n, n) \<in> (depends (b_images demo_builder))\<^sup>+)"
  using build_order_exit_iff_cycle [OF set_order_remdups demo_facts(1,2)] .

end
