(* ===== verification/Docker_Tag_Spec.thy ===== *)
theory Docker_Tag_Spec
  imports Docker_Order
begin

text \<open>
  What a tag is, without the memo table: \<open>image_tag\<close> relates an image to the tag that its
  Dockerfile, its settings and the tags of its dependencies determine. The memoised recursion of
  \<^verbatim>\<open>calculate_tag_for_image\<close> implements it, and \<^verbatim>\<open>calculate_tags\<close> never recurses deeper than one level.
\<close>

section \<open>The reference specification\<close>

inductive image_tag :: "fsys \<Rightarrow> loc \<Rightarrow> builder \<Rightarrow> string \<Rightarrow> string \<Rightarrow> bool" for fs cwd b where
  tag: "map_of (b_images b) name = Some conf \<Longrightarrow> conf_deps conf = Inr deps \<Longrightarrow>
    find_dockerfile fs cwd (b_search_paths b) name = Some dockerfile \<Longrightarrow>
    list_all2 (\<lambda>d t. image_tag fs cwd b (snd d) t) deps ts \<Longrightarrow>
    calculate_sha256 fs cwd (realpath fs cwd dockerfile) (sha_args b name (zip (map fst deps) ts)) = Inr sha \<Longrightarrow>
    image_tag fs cwd b name (get_image_tag b name sha)"

lemma list_all2_functional:
  "list_all2 (\<lambda>x y. \<forall>z. P x z \<longrightarrow> z = y) xs ys \<Longrightarrow> list_all2 P xs zs \<Longrightarrow> zs = ys"
  by (induction xs ys arbitrary: zs rule: list_all2_induct) (auto simp: list_all2_Cons1)

text \<open>A tag is a function of the image, its files and its settings.\<close>

lemma image_tag_functional: "image_tag fs cwd b n t \<Longrightarrow> image_tag fs cwd b n u \<Longrightarrow> u = t"
proof (induction arbitrary: u rule: image_tag.induct)
  case (tag name conf deps dockerfile ts sha)
  from tag.prems show ?case
  proof (cases rule: image_tag.cases)
    case (tag conf' deps' dockerfile' ts' sha')
    have d: "conf' = conf" "deps' = deps" "dockerfile' = dockerfile"
      using tag tag.hyps \<open>map_of (b_images b) name = Some conf\<close> \<open>conf_deps conf = Inr deps\<close>
        \<open>find_dockerfile fs cwd (b_search_paths b) name = Some dockerfile\<close> by auto
    have "list_all2 (\<lambda>d t. \<forall>u. image_tag fs cwd b (snd d) u \<longrightarrow> u = t) deps ts"
      using \<open>list_all2 _ deps ts\<close> by (rule list_all2_mono) auto
    then have "ts' = ts" using tag(5) unfolding d by (rule list_all2_functional)
    then show ?thesis using tag \<open>calculate_sha256 _ _ _ _ = Inr sha\<close> by (simp add: d)
  qed
qed

section \<open>The memo table\<close>

definition memo_ok :: "fsys \<Rightarrow> loc \<Rightarrow> builder \<Rightarrow> string dict \<Rightarrow> bool" where
  "memo_ok fs cwd b tags \<longleftrightarrow> (\<forall>n t. map_of tags n = Some t \<longrightarrow> image_tag fs cwd b n t)"

text \<open>The loop over the dependencies, which threads the memo table.\<close>

definition dep_tag_loop ::
  "nat \<Rightarrow> fsys \<Rightarrow> loc \<Rightarrow> builder \<Rightarrow> (string \<times> string) list \<Rightarrow> (string \<times> string) list \<times> string dict
   \<Rightarrow> ((string \<times> string) list \<times> string dict) res" where
  "dep_tag_loop limit fs cwd b = res_fold (\<lambda>(arg_name, dep) (args, tags).
     res_bind (calculate_tag_for_image limit fs cwd b dep tags)
       (\<lambda>(dep_tag, tags'). Inr (args @ [(arg_name, dep_tag)], tags')))"

lemma dep_tag_loop_simps:
  "dep_tag_loop limit fs cwd b [] s = Inr s"
  "dep_tag_loop limit fs cwd b ((arg, dep) # ds) (args, tags) =
     res_bind (calculate_tag_for_image limit fs cwd b dep tags)
       (\<lambda>(t, tags'). dep_tag_loop limit fs cwd b ds (args @ [(arg, t)], tags'))"
proof -
  show "dep_tag_loop limit fs cwd b ((arg, dep) # ds) (args, tags) =
     res_bind (calculate_tag_for_image limit fs cwd b dep tags)
       (\<lambda>(t, tags'). dep_tag_loop limit fs cwd b ds (args @ [(arg, t)], tags'))"
    by (cases "calculate_tag_for_image limit fs cwd b dep tags") (auto simp: dep_tag_loop_def)
qed (simp add: dep_tag_loop_def)

lemma calculate_tag_unfold:
  "calculate_tag_for_image (Suc limit) fs cwd b image_name tags =
     (case map_of tags image_name of
        Some t \<Rightarrow> Inr (t, tags)
      | None \<Rightarrow>
          res_bind (dict_item (b_images b) image_name) (\<lambda>image_conf.
          res_bind (conf_deps image_conf) (\<lambda>deps.
          case find_dockerfile fs cwd (b_search_paths b) image_name of
            None \<Rightarrow> Inl (SystemExit 1)
          | Some dockerfile \<Rightarrow>
              res_bind (dep_tag_loop limit fs cwd b deps ([], tags)) (\<lambda>(dep_tags, tags').
              res_bind (calculate_sha256 fs cwd (realpath fs cwd dockerfile)
                          (sha_args b image_name dep_tags)) (\<lambda>sha.
              Inr (get_image_tag b image_name sha,
                   AList.update image_name (get_image_tag b image_name sha) tags'))))))"
  unfolding calculate_tag_for_image.simps dep_tag_loop_def Let_def by (rule refl)

lemma calculate_tag_memo:
  "map_of tags n = Some t \<Longrightarrow> calculate_tag_for_image (Suc k) fs cwd b n tags = Inr (t, tags)"
  by simp

declare calculate_tag_for_image.simps(2) [simp del]

definition memo_extends :: "string dict \<Rightarrow> string dict \<Rightarrow> bool" where
  "memo_extends tags tags' \<longleftrightarrow> map_of tags \<subseteq>\<^sub>m map_of tags'"

lemma memo_ok_update:
  "memo_ok fs cwd b tags \<Longrightarrow> image_tag fs cwd b n t \<Longrightarrow> memo_ok fs cwd b (AList.update n t tags)"
  by (auto simp: memo_ok_def update_conv' split: if_splits)

lemma memo_extends_update:
  assumes "memo_ok fs cwd b tags" and "image_tag fs cwd b n t"
  shows "memo_extends tags (AList.update n t tags)"
proof -
  have "map_of tags n = Some u \<Longrightarrow> u = t" for u
    using assms image_tag_functional by (metis memo_ok_def)
  then show ?thesis by (auto simp: memo_extends_def map_le_def update_conv' dom_def)
qed

lemma memo_extends_trans: "memo_extends r s \<Longrightarrow> memo_extends s t \<Longrightarrow> memo_extends r t"
  unfolding memo_extends_def by (rule map_le_trans)

lemma dep_tag_loop_sound:
  assumes "\<And>dep tags t tags'. memo_ok fs cwd b tags \<Longrightarrow>
      calculate_tag_for_image limit fs cwd b dep tags = Inr (t, tags') \<Longrightarrow>
      image_tag fs cwd b dep t \<and> memo_ok fs cwd b tags' \<and> memo_extends tags tags'"
    and "memo_ok fs cwd b tags" and "dep_tag_loop limit fs cwd b ds (args, tags) = Inr (args', tags')"
  shows "memo_ok fs cwd b tags' \<and> memo_extends tags tags' \<and>
    (\<exists>ts. args' = args @ zip (map fst ds) ts \<and> list_all2 (\<lambda>d t. image_tag fs cwd b (snd d) t) ds ts)"
  using assms(2,3)
proof (induction ds arbitrary: args tags)
  case Nil
  then show ?case by (auto simp: dep_tag_loop_simps memo_extends_def)
next
  case (Cons d ds)
  obtain arg dep where d: "d = (arg, dep)" by fastforce
  from Cons.prems(2) obtain t tags1 where t: "calculate_tag_for_image limit fs cwd b dep tags = Inr (t, tags1)"
    and r: "dep_tag_loop limit fs cwd b ds (args @ [(arg, t)], tags1) = Inr (args', tags')"
    by (auto simp: d dep_tag_loop_simps)
  note H = assms(1) [OF Cons.prems(1) t]
  from Cons.IH [OF _ r] H obtain ts where I: "memo_ok fs cwd b tags'" "memo_extends tags1 tags'"
    "args' = (args @ [(arg, t)]) @ zip (map fst ds) ts"
    "list_all2 (\<lambda>d t. image_tag fs cwd b (snd d) t) ds ts" by blast
  then have "args' = args @ zip (map fst (d # ds)) (t # ts)"
    "list_all2 (\<lambda>d t. image_tag fs cwd b (snd d) t) (d # ds) (t # ts)"
    using H by (auto simp: d)
  with I H memo_extends_trans show ?case by blast
qed

text \<open>Whatever the recursion returns is the tag, and the memo table only gains correct entries.\<close>

lemma calculate_tag_sound:
  "memo_ok fs cwd b tags \<Longrightarrow> calculate_tag_for_image limit fs cwd b name tags = Inr (t, tags') \<Longrightarrow>
     image_tag fs cwd b name t \<and> memo_ok fs cwd b tags' \<and> memo_extends tags tags' \<and>
     map_of tags' name = Some t"
proof (induction limit arbitrary: name tags t tags')
  case (Suc limit)
  show ?case
  proof (cases "map_of tags name")
    case (Some u)
    then show ?thesis using Suc.prems by (auto simp: memo_ok_def memo_extends_def calculate_tag_memo)
  next
    case None
    from Suc.prems(2) None obtain conf deps df dts tags1 sha where
      s: "map_of (b_images b) name = Some conf" "conf_deps conf = Inr deps"
        "find_dockerfile fs cwd (b_search_paths b) name = Some df"
        "dep_tag_loop limit fs cwd b deps ([], tags) = Inr (dts, tags1)"
        "calculate_sha256 fs cwd (realpath fs cwd df) (sha_args b name dts) = Inr sha"
      and t: "t = get_image_tag b name sha" "tags' = AList.update name t tags1"
      by (auto simp: calculate_tag_unfold dict_item_def
          split: option.splits)
    have "memo_ok fs cwd b tags1 \<and> memo_extends tags tags1 \<and>
      (\<exists>ts. dts = [] @ zip (map fst deps) ts \<and> list_all2 (\<lambda>d t. image_tag fs cwd b (snd d) t) deps ts)"
      by (rule dep_tag_loop_sound [OF _ Suc.prems(1) s(4)]) (use Suc.IH in blast)
    then have m: "memo_ok fs cwd b tags1" "memo_extends tags tags1"
      and it: "image_tag fs cwd b name t"
      using image_tag.tag [OF s(1-3)] s(5) t(1) by auto
    show ?thesis
      using it memo_ok_update [OF m(1) it] memo_extends_trans [OF m(2) memo_extends_update [OF m(1) it]]
      by (simp add: t(2) update_conv')
  qed
qed simp

section \<open>Along a build order the memo table answers every recursive call\<close>

lemma dep_tag_loop_known:
  "\<forall>d \<in> set ds. map_of tags (snd d) \<noteq> None \<Longrightarrow>
     dep_tag_loop (Suc k) fs cwd b ds (args, tags) =
     Inr (args @ map (\<lambda>d. (fst d, the (map_of tags (snd d)))) ds, tags)"
proof (induction ds arbitrary: args)
  case (Cons d ds)
  obtain arg dep where d: "d = (arg, dep)" by fastforce
  obtain t where "map_of tags dep = Some t" using Cons.prems by (auto simp: d)
  then show ?case using Cons by (simp add: d dep_tag_loop_simps calculate_tag_memo)
qed (simp add: dep_tag_loop_simps)

text \<open>An image can be tagged: it is declared, has a Dockerfile and the file can be read.\<close>

definition image_ready :: "fsys \<Rightarrow> loc \<Rightarrow> builder \<Rightarrow> string \<Rightarrow> bool" where
  "image_ready fs cwd b n \<longleftrightarrow>
     (case map_of (b_images b) n of
        None \<Rightarrow> False
      | Some conf \<Rightarrow> \<not> isl (conf_deps conf) \<and>
          (case find_dockerfile fs cwd (b_search_paths b) n of
             None \<Rightarrow> False
           | Some df \<Rightarrow> \<not> isl (read_bytes fs cwd (realpath fs cwd df))))"

lemma image_tag_ready: "image_tag fs cwd b n t \<Longrightarrow> image_ready fs cwd b n"
  by (erule image_tag.cases) (auto simp: image_ready_def calculate_sha256_def)

lemma deps_known:
  assumes "\<And>d. (d, n) \<in> depends (b_images b) \<Longrightarrow> map_of tags d \<noteq> None"
    and "map_of (b_images b) n = Some conf" and "conf_deps conf = Inr ds"
  shows "\<forall>d \<in> set ds. map_of tags (snd d) \<noteq> None"
  using assms by (force simp: depends_def)

lemma calculate_tag_known:
  assumes "\<And>d. (d, n) \<in> depends (b_images b) \<Longrightarrow> map_of tags d \<noteq> None"
  shows "calculate_tag_for_image (Suc (Suc k)) fs cwd b n tags \<noteq> Inl RecursionError"
    and "image_ready fs cwd b n \<Longrightarrow> \<exists>r. calculate_tag_for_image (Suc (Suc k)) fs cwd b n tags = Inr r"
proof -
  have loop: "dep_tag_loop (Suc k) fs cwd b ds ([], tags) =
      Inr (map (\<lambda>d. (fst d, the (map_of tags (snd d)))) ds, tags)"
    if "map_of (b_images b) n = Some conf" "conf_deps conf = Inr ds" for conf ds
    using dep_tag_loop_known [OF deps_known [OF assms that]] by simp
  have conf: "conf_deps conf \<noteq> Inl RecursionError" for conf
    using conf_deps_error by blast
  have rd: "read_bytes fs cwd p \<noteq> Inl RecursionError" for p
    by (auto simp: read_bytes_def split: option.splits node.splits)
  note U = calculate_tag_unfold [of "Suc k" fs cwd b n tags]
  show "calculate_tag_for_image (Suc (Suc k)) fs cwd b n tags \<noteq> Inl RecursionError"
  proof (cases "map_of tags n = None \<and> (\<exists>cf ds df. map_of (b_images b) n = Some cf \<and>
      conf_deps cf = Inr ds \<and> find_dockerfile fs cwd (b_search_paths b) n = Some df)")
    case True
    then obtain cf ds df where c: "map_of tags n = None" "map_of (b_images b) n = Some cf"
      "conf_deps cf = Inr ds" "find_dockerfile fs cwd (b_search_paths b) n = Some df" by blast
    show ?thesis unfolding U using loop [OF c(2,3)] rd
      by (simp add: c dict_item_def calculate_sha256_def res_bind_Inl_iff)
  next
    case False
    then show ?thesis unfolding U using conf
      by (auto simp: dict_item_def res_bind_Inl_iff split: option.splits)
  qed
  show "\<exists>r. calculate_tag_for_image (Suc (Suc k)) fs cwd b n tags = Inr r" if "image_ready fs cwd b n"
  proof (cases "map_of tags n")
    case None
    from that obtain cf ds df c where c: "map_of (b_images b) n = Some cf" "conf_deps cf = Inr ds"
      "find_dockerfile fs cwd (b_search_paths b) n = Some df"
      "read_bytes fs cwd (realpath fs cwd df) = Inr c"
      by (auto simp: image_ready_def isl_def split: option.splits) (metis sum.collapse(2) sum.disc(2) isl_def)
    show ?thesis unfolding U using loop [OF c(1,2)]
      by (simp add: c None dict_item_def calculate_sha256_def)
  qed (simp add: U)
qed

lemma calculate_tags_loop_simps:
  "calculate_tags_loop limit fs cwd b [] tags = Inr tags"
  "calculate_tags_loop limit fs cwd b (x # xs) tags =
     res_bind (calculate_tag_for_image limit fs cwd b x tags)
       (\<lambda>(t, tags'). calculate_tags_loop limit fs cwd b xs tags')"
proof -
  show "calculate_tags_loop limit fs cwd b (x # xs) tags =
     res_bind (calculate_tag_for_image limit fs cwd b x tags)
       (\<lambda>(t, tags'). calculate_tags_loop limit fs cwd b xs tags')"
    by (cases "calculate_tag_for_image limit fs cwd b x tags") (auto simp: calculate_tags_loop_def)
qed (simp add: calculate_tags_loop_def)

lemma calculate_tags_loop_sound:
  "memo_ok fs cwd b tags \<Longrightarrow> calculate_tags_loop limit fs cwd b xs tags = Inr tags' \<Longrightarrow>
     memo_ok fs cwd b tags' \<and> memo_extends tags tags' \<and> (\<forall>x \<in> set xs. map_of tags' x \<noteq> None)"
proof (induction xs arbitrary: tags)
  case (Cons x xs)
  from Cons.prems(2) obtain t tags1 where t: "calculate_tag_for_image limit fs cwd b x tags = Inr (t, tags1)"
    and r: "calculate_tags_loop limit fs cwd b xs tags1 = Inr tags'"
    by (auto simp: calculate_tags_loop_simps)
  note S = calculate_tag_sound [OF Cons.prems(1) t]
  note R = Cons.IH [OF _ r]
  have "map_of tags' x = Some t"
    using S R by (auto simp: memo_extends_def map_le_def dom_def)
  with S R memo_extends_trans show ?case by auto
qed (auto simp: calculate_tags_loop_simps memo_extends_def)

lemma calculate_tags_loop_order:
  assumes "deps_first (b_images b) (as @ xs)" and "memo_ok fs cwd b tags"
    and "\<forall>a \<in> set as. map_of tags a \<noteq> None"
  shows "calculate_tags_loop (Suc (Suc k)) fs cwd b xs tags \<noteq> Inl RecursionError \<and>
    ((\<forall>x \<in> set xs. image_ready fs cwd b x) \<longrightarrow>
      (\<exists>tags'. calculate_tags_loop (Suc (Suc k)) fs cwd b xs tags = Inr tags'))"
  using assms
proof (induction xs arbitrary: as tags)
  case (Cons x xs)
  have known: "(d, x) \<in> depends (b_images b) \<Longrightarrow> map_of tags d \<noteq> None" for d
    using Cons.prems(1,3) unfolding deps_first_def by blast
  note K = calculate_tag_known [where n = x and b = b and k = k and fs = fs and cwd = cwd, OF known]
  show ?case
  proof (cases "calculate_tag_for_image (Suc (Suc k)) fs cwd b x tags")
    case (Inl e)
    then show ?thesis using K by (auto simp: calculate_tags_loop_simps)
  next
    case (Inr r)
    obtain t tags1 where r: "r = (t, tags1)" by fastforce
    note S = calculate_tag_sound [OF Cons.prems(2) Inr [unfolded r]]
    have "\<forall>a \<in> set (as @ [x]). map_of tags1 a \<noteq> None"
      using S Cons.prems(3) by (force simp: memo_extends_def map_le_def dom_def)
    from Cons.IH [of "as @ [x]" tags1] this S Cons.prems(1) show ?thesis
      by (simp add: calculate_tags_loop_simps Inr r)
  qed
qed (simp add: calculate_tags_loop_simps)

section \<open>The tags of a run\<close>

lemma calculate_tags_sound:
  assumes "memo_ok fs cwd b tags" and "calculate_tags limit so pop fs cwd ts b tags = Inr ys"
  obtains xs where "get_build_order so pop ts b = Inr xs" and "list_all2 (image_tag fs cwd b) xs ys"
proof -
  from assms(2) obtain xs tags' where xs: "get_build_order so pop ts b = Inr xs"
    and l: "calculate_tags_loop limit fs cwd b xs tags = Inr tags'"
    and m: "res_map (dict_item tags') xs = Inr ys"
    by (auto simp: calculate_tags_def)
  note S = calculate_tags_loop_sound [OF assms(1) l]
  have "res_map (dict_item tags') xs = Inr (map (\<lambda>x. the (map_of tags' x)) xs)"
    using S by (intro res_map_Inr) (auto simp: dict_item_def)
  then have "ys = map (\<lambda>x. the (map_of tags' x)) xs" using m by simp
  then have "list_all2 (image_tag fs cwd b) xs ys"
    using S by (auto simp: list_all2_conv_all_nth memo_ok_def)
  with xs that show thesis by blast
qed

lemma calculate_tags_order:
  assumes "set_order_ok so" and "distinct (map fst (b_images b))" and "memo_ok fs cwd b tags"
    and xs: "get_build_order so pop ts b = Inr xs"
  shows "calculate_tags (Suc (Suc k)) so pop fs cwd ts b tags \<noteq> Inl RecursionError"
    and "\<forall>x \<in> wanted b ts. image_ready fs cwd b x \<Longrightarrow>
      \<exists>ys. calculate_tags (Suc (Suc k)) so pop fs cwd ts b tags = Inr ys"
proof -
  note B = get_build_order_sound [OF assms(1,2) xs]
  have "deps_first (b_images b) ([] @ xs)" using B(3) by (auto simp: deps_first_def)
  note L = calculate_tags_loop_order [OF this assms(3), of k]
  have m: "res_map (dict_item tags') xs = Inr (map (\<lambda>x. the (map_of tags' x)) xs)"
    if "calculate_tags_loop (Suc (Suc k)) fs cwd b xs tags = Inr tags'" for tags'
    using calculate_tags_loop_sound [OF assms(3) that] by (intro res_map_Inr) (auto simp: dict_item_def)
  show "calculate_tags (Suc (Suc k)) so pop fs cwd ts b tags \<noteq> Inl RecursionError"
    using L m by (auto simp: calculate_tags_def xs res_bind_Inl_iff)
  show "\<exists>ys. calculate_tags (Suc (Suc k)) so pop fs cwd ts b tags = Inr ys"
    if "\<forall>x \<in> wanted b ts. image_ready fs cwd b x"
    using L m that by (auto simp: calculate_tags_def xs B(2))
qed

lemma calculate_tags_iff:
  assumes "set_order_ok so" and "distinct (map fst (b_images b))" and "memo_ok fs cwd b tags"
    and "deps_graph so (b_images b) = Inr g"
  shows "(\<exists>ys. calculate_tags (Suc (Suc k)) so pop fs cwd ts b tags = Inr ys) \<longleftrightarrow>
    (\<forall>n \<in> wanted b ts. image_ready fs cwd b n \<and> (n, n) \<notin> (depends (b_images b))\<^sup>+)"
proof
  assume "\<exists>ys. calculate_tags (Suc (Suc k)) so pop fs cwd ts b tags = Inr ys"
  then obtain ys xs where xs: "get_build_order so pop ts b = Inr xs"
    and l: "list_all2 (image_tag fs cwd b) xs ys"
    using calculate_tags_sound [OF assms(3)] by metis
  have "image_ready fs cwd b x" if "x \<in> set xs" for x
    using l that image_tag_ready by (metis in_set_conv_nth list_all2_conv_all_nth)
  moreover have "\<forall>n \<in> wanted b ts. (n, n) \<notin> (depends (b_images b))\<^sup>+"
    using xs unfolding get_build_order_iff [OF assms(1,2,4)] by (auto split: if_splits)
  ultimately show "\<forall>n \<in> wanted b ts. image_ready fs cwd b n \<and> (n, n) \<notin> (depends (b_images b))\<^sup>+"
    using get_build_order_sound(2) [OF assms(1,2) xs] by blast
next
  assume R: "\<forall>n \<in> wanted b ts. image_ready fs cwd b n \<and> (n, n) \<notin> (depends (b_images b))\<^sup>+"
  then have "get_build_order so pop ts b = Inr (kahn_start (sorted_graph so pop ts g))"
    unfolding get_build_order_iff [OF assms(1,2,4)] by simp
  from calculate_tags_order(2) [OF assms(1-3) this] R
  show "\<exists>ys. calculate_tags (Suc (Suc k)) so pop fs cwd ts b tags = Inr ys" by blast
qed

section \<open>The order of the dependencies in deps.json does not matter\<close>

definition same_deps :: "json dict \<Rightarrow> json dict \<Rightarrow> bool" where
  "same_deps imgs imgs' \<longleftrightarrow> (\<forall>n. rel_option
     (\<lambda>c c'. \<exists>ds ds'. conf_deps c = Inr ds \<and> conf_deps c' = Inr ds' \<and> mset ds = mset ds')
     (map_of imgs n) (map_of imgs' n))"

lemma same_deps_sym: "same_deps imgs imgs' \<Longrightarrow> same_deps imgs' imgs"
  unfolding same_deps_def
proof (rule allI, drule spec)
  fix n
  let ?R = "\<lambda>c c'. \<exists>ds ds'. conf_deps c = Inr ds \<and> conf_deps c' = Inr ds' \<and> mset ds = mset ds'"
  assume "rel_option ?R (map_of imgs n) (map_of imgs' n)"
  then show "rel_option ?R (map_of imgs' n) (map_of imgs n)"
    by (cases "map_of imgs n"; cases "map_of imgs' n") auto
qed

lemma list_all2_permuted:
  assumes "list_all2 R xs ys" and "mset xs = mset xs'"
  obtains ys' where "list_all2 R xs' ys'" and "mset (zip xs' ys') = mset (zip xs ys)"
proof -
  have l: "length xs = length ys" using assms(1) by (rule list_all2_lengthD)
  have "list_all2 (\<lambda>x p. fst p = x) xs (zip xs ys)"
    using l by (simp add: list_all2_conv_all_nth)
  from list_all2_reorder_left_invariance [OF this assms(2) [symmetric]] obtain ps where
    ps: "list_all2 (\<lambda>x p. fst p = x) xs' ps" "mset (zip xs ys) = mset ps" by (metis (full_types))
  have m: "map fst ps = xs'" using ps(1) by (induction xs' ps rule: list_all2_induct) auto
  then have z: "zip xs' (map snd ps) = ps" by (metis zip_map_fst_snd)
  have "R x y" if "(x, y) \<in> set ps" for x y
    using that assms(1) ps(2) by (metis case_prodD list_all2_iff set_mset_mset)
  then have "list_all2 R xs' (map snd ps)"
    unfolding list_all2_iff z using m by auto
  with z ps(2) that show thesis by metis
qed

lemma sha_args_mset:
  assumes "mset dts = mset dts'"
  shows "sha_args b n dts = sha_args (b\<lparr>b_images := imgs\<rparr>) n dts'"
  unfolding sha_args_def by (rule sort_mset_eq) (simp add: assms extra_args_def)

lemma image_tag_same_deps:
  assumes "image_tag fs cwd b n t" and "same_deps (b_images b) imgs"
  shows "image_tag fs cwd (b\<lparr>b_images := imgs\<rparr>) n t"
  using assms(1)
proof (induction rule: image_tag.induct)
  case (tag name conf deps df ts sha)
  from assms(2) tag.hyps(1,2) obtain conf' deps' where
    c: "map_of imgs name = Some conf'" "conf_deps conf' = Inr deps'" "mset deps = mset deps'"
    unfolding same_deps_def by (fastforce simp: option_rel_Some1 dest!: spec [of _ name])
  have "list_all2 (\<lambda>d t. image_tag fs cwd (b\<lparr>b_images := imgs\<rparr>) (snd d) t) deps ts"
    using tag.IH by (rule list_all2_mono) simp
  then obtain ts' where t: "list_all2 (\<lambda>d t. image_tag fs cwd (b\<lparr>b_images := imgs\<rparr>) (snd d) t) deps' ts'"
    and z: "mset (zip deps' ts') = mset (zip deps ts)" using c(3) by (rule list_all2_permuted)
  have "image_mset (\<lambda>(d, t). (fst d, t)) (mset (zip deps' ts')) = image_mset (\<lambda>(d, t). (fst d, t)) (mset (zip deps ts))"
    using z by simp
  then have "mset (zip (map fst deps) ts) = mset (zip (map fst deps') ts')"
    by (simp add: zip_map1 flip: mset_map)
  from sha_args_mset [OF this] tag.hyps(4)
  have "calculate_sha256 fs cwd (realpath fs cwd df) (sha_args (b\<lparr>b_images := imgs\<rparr>) name (zip (map fst deps') ts')) = Inr sha"
    by simp
  moreover have "get_image_tag (b\<lparr>b_images := imgs\<rparr>) name sha = get_image_tag b name sha"
    by (simp add: get_image_tag_def Let_def cong: if_cong)
  ultimately show ?case
    using image_tag.tag [of "b\<lparr>b_images := imgs\<rparr>" name, OF _ c(2) _ t, of df sha] c(1) tag.hyps(3)
    by simp
qed

section \<open>The hash input has no separators\<close>

lemma calculate_sha256_boundary:
  assumes "read_bytes fs cwd p = Inr (c @ x)" and "read_bytes fs cwd q = Inr c"
    and "concat args = x @ concat args'"
  shows "calculate_sha256 fs cwd p args' = calculate_sha256 fs cwd q args"
  using assms by (simp add: calculate_sha256_def)

section \<open>Properties\<close>

definition demo_fs :: fsys where
  "demo_fs = [([], Dir), ([''w''], Dir), ([''w'', ''images''], Dir),
     ([''w'', ''images'', ''base.Dockerfile''], File ''FROM debian'' 420),
     ([''w'', ''images'', ''tool.Dockerfile''], File ''ARG BASE_IMAGE'' 420),
     ([''w'', ''images'', ''app.Dockerfile''], File ''ARG TOOL_IMAGE'' 420)]"

lemma demo_base:
  "get_build_order remdups hd [''base''] demo_builder = Inr [''base'']"
  "find_dockerfile demo_fs [''w''] [to_path ''images''] ''base'' = Some (to_path ''images/base.Dockerfile'')"
  "read_bytes demo_fs [''w''] (realpath demo_fs [''w''] (to_path ''images/base.Dockerfile'')) = Inr ''FROM debian''"
  by code_simp+

lemma demo_sp: "b_search_paths demo_builder = [to_path ''images'']"
  "map_of (b_images demo_builder) ''base'' = Some (JObj [(''deps'', JObj [])])"
  "extra_args demo_builder ''base'' = []"
  by (simp_all add: demo_builder_def new_builder_def extra_args_def demo_images_def)

lemma demo_tags:
  "calculate_tags 2 remdups hd demo_fs [''w''] [''base''] demo_builder [] =
     Inr [get_image_tag demo_builder ''base'' (sha256_hex ''FROM debian'')]"
proof -
  have "calculate_tag_for_image 2 demo_fs [''w''] demo_builder ''base'' [] =
      Inr (get_image_tag demo_builder ''base'' (sha256_hex ''FROM debian''),
           [(''base'', get_image_tag demo_builder ''base'' (sha256_hex ''FROM debian''))])"
    unfolding numeral_2_eq_2 calculate_tag_unfold
    by (simp add: demo_sp demo_base dict_item_def conf_deps_def dep_tag_loop_simps calculate_sha256_def
        sha_args_def)
  then show ?thesis by (simp add: calculate_tags_def demo_base calculate_tags_loop_simps dict_item_def)
qed

lemma demo_memo: "memo_ok fs cwd b []"
  by (simp add: memo_ok_def)

text \<open>
  C7: the tags that \<^verbatim>\<open>calculate_tags\<close> returns are, image by image along the build order, the tags of
  the reference specification; neither the memo table, the set iteration order nor the targets of
  the run have an influence.
\<close>

theorem tags_match_spec:
  assumes "memo_ok fs cwd b tags" and "calculate_tags limit so pop fs cwd targets b tags = Inr ys"
  shows "\<exists>xs. get_build_order so pop targets b = Inr xs \<and> list_all2 (image_tag fs cwd b) xs ys"
  using calculate_tags_sound [OF assms] by metis

theorem tags_match_spec_witness:
  "\<exists>xs. get_build_order remdups hd [''base''] demo_builder = Inr xs \<and>
     list_all2 (image_tag demo_fs [''w''] demo_builder) xs
       [get_image_tag demo_builder ''base'' (sha256_hex ''FROM debian'')]"
  using tags_match_spec [OF demo_memo demo_tags] .

text \<open>
  C10: a run produces its tags if and only if every image it is about is declared, has a readable
  Dockerfile and is not on a dependency cycle; two frames of recursion are enough.
\<close>

theorem tags_exist_iff:
  assumes "set_order_ok so" and "distinct (map fst (b_images b))" and "memo_ok fs cwd b tags"
    and "deps_graph so (b_images b) = Inr g"
  shows "(\<exists>ys. calculate_tags (Suc (Suc k)) so pop fs cwd targets b tags = Inr ys) \<longleftrightarrow>
    (\<forall>n \<in> wanted b targets. image_ready fs cwd b n \<and> (n, n) \<notin> (depends (b_images b))\<^sup>+)"
  by (rule calculate_tags_iff [OF assms])

theorem tags_exist_iff_witness:
  "(\<exists>ys. calculate_tags 2 remdups hd demo_fs [''w''] [''app''] demo_builder [] = Inr ys) \<longleftrightarrow>
   wanted demo_builder [''app''] \<subseteq> {n. image_ready demo_fs [''w''] demo_builder n \<and>
     (n, n) \<notin> (depends (b_images demo_builder))\<^sup>+}"
  using tags_exist_iff [OF set_order_remdups demo_facts(1) demo_memo demo_facts(2), of 0]
  by (simp add: subset_iff Ball_def numeral_2_eq_2)

text \<open>
  C11: \<^verbatim>\<open>calculate_tags\<close> processes the images dependencies first, so the recursion of
  \<^verbatim>\<open>calculate_tag_for_image\<close> never runs into Python's recursion limit, however deep the images are nested.
\<close>

theorem tags_never_recurse_deeply:
  assumes "set_order_ok so" and "distinct (map fst (b_images b))" and "memo_ok fs cwd b tags"
    and "get_build_order so pop targets b = Inr xs"
  shows "calculate_tags (Suc (Suc k)) so pop fs cwd targets b tags \<noteq> Inl RecursionError"
  by (rule calculate_tags_order(1) [OF assms])

theorem tags_never_recurse_deeply_witness:
  "calculate_tags 2 remdups hd demo_fs [''w''] [''app''] demo_builder [] \<noteq> Inl RecursionError"
  using tags_never_recurse_deeply [OF set_order_remdups demo_facts(1) demo_memo demo_facts(3), of 0]
  by (simp add: numeral_2_eq_2)

text \<open>
  C15: The order in which \<^verbatim>\<open>deps.json\<close> lists the dependencies of the images has no influence on the tag
  that \<^verbatim>\<open>calculate_tag_for_image\<close> computes for any image.
\<close>

theorem tag_ignores_deps_order:
  assumes "same_deps (b_images b) imgs"
    and "calculate_tag_for_image limit fs cwd b n [] = Inr (t, tags)"
    and "calculate_tag_for_image limit' fs cwd (b\<lparr>b_images := imgs\<rparr>) n [] = Inr (t', tags')"
  shows "t' = t"
proof -
  have "image_tag fs cwd b n t" using calculate_tag_sound [OF demo_memo assms(2)] by blast
  then have "image_tag fs cwd (b\<lparr>b_images := imgs\<rparr>) n t" by (rule image_tag_same_deps [OF _ assms(1)])
  moreover have "image_tag fs cwd (b\<lparr>b_images := imgs\<rparr>) n t'"
    using calculate_tag_sound [OF demo_memo assms(3)] by blast
  ultimately show ?thesis by (rule image_tag_functional)
qed

definition demo_images_swapped :: "json dict" where
  "demo_images_swapped = AList.update ''app''
     (JObj [(''deps'', JObj [(''TOOL_IMAGE'', JStr ''tool''), (''BASE_IMAGE'', JStr ''base'')])]) demo_images"

lemma demo_same_deps: "same_deps (b_images demo_builder) demo_images_swapped"
  unfolding same_deps_def
  by (simp add: demo_builder_def demo_images_swapped_def demo_images_def conf_deps_def dict_item_def)

lemma demo_dockerfiles:
  "find_dockerfile demo_fs [''w''] [to_path ''images''] ''tool'' = Some (to_path ''images/tool.Dockerfile'')"
  "find_dockerfile demo_fs [''w''] [to_path ''images''] ''app'' = Some (to_path ''images/app.Dockerfile'')"
  "read_bytes demo_fs [''w''] (realpath demo_fs [''w''] (to_path ''images/tool.Dockerfile'')) = Inr ''ARG BASE_IMAGE''"
  "read_bytes demo_fs [''w''] (realpath demo_fs [''w''] (to_path ''images/app.Dockerfile'')) = Inr ''ARG TOOL_IMAGE''"
  by code_simp+

lemma demo_app_tag:
  assumes "b_search_paths b = [to_path ''images'']"
    and "map_of (b_images b) ''base'' = Some (JObj [(''deps'', JObj [])])"
    and "map_of (b_images b) ''tool'' = Some (JObj [(''deps'', JObj [(''BASE_IMAGE'', JStr ''base'')])])"
    and "map_of (b_images b) ''app'' = Some (JObj [(''deps'', JObj ds)])"
    and "ds = [(''BASE_IMAGE'', JStr ''base''), (''TOOL_IMAGE'', JStr ''tool'')] \<or>
      ds = [(''TOOL_IMAGE'', JStr ''tool''), (''BASE_IMAGE'', JStr ''base'')]"
  shows "\<exists>t tags. calculate_tag_for_image 3 demo_fs [''w''] b ''app'' [] = Inr (t, tags)"
  using assms(5) unfolding numeral_3_eq_3
  by (elim disjE) (simp_all add: calculate_tag_unfold assms(1-4) demo_base demo_dockerfiles dict_item_def conf_deps_def
      dep_tag_loop_simps calculate_sha256_def)

theorem tag_ignores_deps_order_witness:
  "\<exists>t tags tags'. calculate_tag_for_image 3 demo_fs [''w''] demo_builder ''app'' [] = Inr (t, tags) \<and>
     calculate_tag_for_image 3 demo_fs [''w''] (demo_builder\<lparr>b_images := demo_images_swapped\<rparr>) ''app'' [] = Inr (t, tags')"
proof -
  obtain t tags t' tags' where
    "calculate_tag_for_image 3 demo_fs [''w''] demo_builder ''app'' [] = Inr (t, tags)"
    "calculate_tag_for_image 3 demo_fs [''w''] (demo_builder\<lparr>b_images := demo_images_swapped\<rparr>) ''app'' [] = Inr (t', tags')"
    using demo_app_tag [of demo_builder] demo_app_tag [of "demo_builder\<lparr>b_images := demo_images_swapped\<rparr>"]
    by (auto simp: demo_sp demo_builder_def new_builder_def demo_images_def demo_images_swapped_def)
  moreover from this have "t' = t" by (rule tag_ignores_deps_order [OF demo_same_deps])
  ultimately show ?thesis by blast
qed

end
