(* ===== verification/Docker_Load.thy ===== *)
theory Docker_Load
  imports Docker_Tags
begin

text \<open>
  What \<^verbatim>\<open>DockerBuilder.__init__\<close> guarantees: after the schema check the loaders cannot fail except by the
  deliberate exit for an empty package version, and the attributes they set are well formed.
\<close>

section \<open>Fields of a validated configuration\<close>

lemma conforms_field_of:
  "conforms (JObj kvs) (Schema ty props extra) \<Longrightarrow> (k, w) \<in> set kvs \<Longrightarrow>
     conforms_field w (map_of props k) extra"
  by auto

lemma conforms_str_map:
  assumes "conforms v str_map_schema"
  obtains kvs where "v = JObj kvs" and "\<And>k w. (k, w) \<in> set kvs \<Longrightarrow> \<exists>s. w = JStr s"
proof -
  obtain kvs where v: "v = JObj kvs" using conforms_dict [OF assms] by blast
  have "\<exists>s. w = JStr s" if "(k, w) \<in> set kvs" for k w
    using conforms_field_of [OF assms [unfolded v] that] unfolding conforms_field.simps map_of.simps
    by (simp only: conforms_str)
  with v that show thesis by blast
qed

lemma image_setting:
  assumes "conforms (JObj kvs) IMAGE_SCHEMA" and "map_of kvs k = Some v"
  shows "conforms v str_map_schema"
proof -
  let ?props = "[(''packages'', str_map_schema), (''keys'', str_map_schema),
      (''repositories'', str_map_schema)]"
  obtain s where s: "map_of ?props k = Some s" and v: "conforms v s"
    using assms(1) map_of_SomeD [OF assms(2)] unfolding IMAGE_SCHEMA_def by (rule field_cases)
  from map_of_SomeD [OF s] have "s = str_map_schema" by auto
  with v show ?thesis by (simp only:)
qed

text \<open>No package of an image has an empty version.\<close>

definition versions_ok :: "json \<Rightarrow> bool" where
  "versions_ok settings \<longleftrightarrow>
     (case settings of
        JObj kvs \<Rightarrow> (case map_of kvs ''packages'' of
            Some (JObj ps) \<Rightarrow> list_all (\<lambda>(k, v). py_truth v) ps
          | _ \<Rightarrow> True)
      | _ \<Rightarrow> True)"

lemma package_args_conforms:
  assumes "conforms (JObj kvs) IMAGE_SCHEMA" and "map_of kvs ''packages'' = Some v"
  shows "package_args (JObj kvs) =
    (if versions_ok (JObj kvs) then Inr (map (\<lambda>(k, w). k @ ''='' @ py_str w) (case v of JObj ps \<Rightarrow> ps))
     else Inl (SystemExit 1))"
proof -
  obtain ps where v: "v = JObj ps" using conforms_str_map [OF image_setting [OF assms]] by blast
  have "res_map (\<lambda>(k, v). if \<not> py_truth v then Inl (SystemExit 1) else Inr (k @ ''='' @ py_str v)) ps =
      (if list_all (\<lambda>(k, v). py_truth v) ps then Inr (map (\<lambda>(k, w). k @ ''='' @ py_str w) ps)
       else Inl (SystemExit 1))"
    by (induction ps) auto
  then show ?thesis by (simp add: package_args_def dict_item_def assms(2) v versions_ok_def)
qed

lemma pair_args_conforms:
  assumes "conforms (JObj kvs) IMAGE_SCHEMA" and "map_of kvs k = Some v"
  shows "pair_args k (JObj kvs) = Inr (map (\<lambda>(k, w). k @ ''='' @ py_str w) (case v of JObj ps \<Rightarrow> ps))"
proof -
  obtain ps where v: "v = JObj ps" using conforms_str_map [OF image_setting [OF assms]] by blast
  have "res_map (\<lambda>(k, v). Inr (k @ ''='' @ py_str v)) ps = Inr (map (\<lambda>(k, w). k @ ''='' @ py_str w) ps)"
    by (induction ps) auto
  then show ?thesis by (simp add: pair_args_def dict_item_def assms(2) v)
qed

text \<open>The fields of a builder the loaders leave alone.\<close>

definition same_frame :: "builder \<Rightarrow> builder \<Rightarrow> bool" where
  "same_frame b b' \<longleftrightarrow> b_config_path b' = b_config_path b \<and> b_search_paths b' = b_search_paths b \<and>
     b_arch b' = b_arch b \<and> b_repo b' = b_repo b \<and> b_namespace b' = b_namespace b"

lemma load_image_settings_conforms:
  assumes "conforms settings IMAGE_SCHEMA"
  shows "if versions_ok settings then \<exists>b'. load_image_settings (img, settings) b = Inr b' \<and> same_frame b b'
    else load_image_settings (img, settings) b = Inl (SystemExit 1)"
proof -
  obtain kvs where s: "settings = JObj kvs"
    using assms conforms_dict unfolding IMAGE_SCHEMA_def by blast
  note C = assms [unfolded s]
  have nopkg: "versions_ok (JObj kvs)" if "map_of kvs ''packages'' = None"
    by (simp add: versions_ok_def that)
  show ?thesis
    using package_args_conforms [OF C] pair_args_conforms [OF C] nopkg
    by (cases "map_of kvs ''packages''"; cases "map_of kvs ''keys''"; cases "map_of kvs ''repositories''")
      (simp_all add: load_image_settings_def s same_frame_def del: conforms.simps)
qed

lemma same_frame_trans: "same_frame a b \<Longrightarrow> same_frame b c \<Longrightarrow> same_frame a c"
  by (simp add: same_frame_def)

lemma load_settings_fold:
  "(\<And>k v. (k, v) \<in> set kvs \<Longrightarrow> conforms v IMAGE_SCHEMA) \<Longrightarrow>
     if \<forall>(k, v) \<in> set kvs. versions_ok v
     then \<exists>b'. res_fold load_image_settings kvs b = Inr b' \<and> same_frame b b'
     else res_fold load_image_settings kvs b = Inl (SystemExit 1)"
proof (induction kvs arbitrary: b)
  case (Cons p kvs)
  obtain k v where p: "p = (k, v)" by fastforce
  have "conforms v IMAGE_SCHEMA" using Cons.prems p by auto
  note L = load_image_settings_conforms [OF this, of k b]
  show ?case
  proof (cases "versions_ok v")
    case True
    then obtain b1 where b1: "load_image_settings (k, v) b = Inr b1" "same_frame b b1" using L by auto
    have "if \<forall>(k, v) \<in> set kvs. versions_ok v
       then \<exists>b'. res_fold load_image_settings kvs b1 = Inr b' \<and> same_frame b1 b'
       else res_fold load_image_settings kvs b1 = Inl (SystemExit 1)"
      by (rule Cons.IH) (use Cons.prems in auto)
    then show ?thesis using b1 True same_frame_trans [OF b1(2)] by (auto simp: p split: if_splits)
  next
    case False
    then show ?thesis using L by (auto simp: p)
  qed
qed (simp add: same_frame_def)

section \<open>The loader\<close>

definition config_images :: "json \<Rightarrow> json dict" where
  "config_images config =
     (case config of JObj kvs \<Rightarrow> (case map_of kvs ''docker'' of Some (JObj dkvs) \<Rightarrow>
        (case map_of dkvs ''images'' of Some (JObj ikvs) \<Rightarrow> ikvs | _ \<Rightarrow> []) | _ \<Rightarrow> []) | _ \<Rightarrow> [])"

text \<open>What the loader accepts: the schema and a version for every package.\<close>

definition config_ok :: "json \<Rightarrow> bool" where
  "config_ok config \<longleftrightarrow> conforms config CONFIG_SCHEMA \<and> list_all (\<lambda>(k, v). versions_ok v) (config_images config)"

lemma load_images_config_conforms:
  assumes "conforms (JObj kvs) CONFIG_SCHEMA" and "map_of kvs ''docker'' = Some d"
  shows "if list_all (\<lambda>(k, v). versions_ok v) (config_images (JObj kvs))
    then \<exists>b'. load_images_config (JObj kvs) b = Inr b' \<and> same_frame b b'
    else load_images_config (JObj kvs) b = Inl (SystemExit 1)"
proof -
  obtain dkvs where d: "d = JObj dkvs"
    and dc: "conforms (JObj dkvs) (Schema (Some TDict) docker_props AddNone)"
    using config_docker [OF assms] .
  show ?thesis
  proof (cases "map_of dkvs ''images''")
    case None
    then show ?thesis
      by (simp add: load_images_config_def config_images_def dict_item_def assms(2) d same_frame_def)
  next
    case (Some i)
    have ic: "conforms i (Schema (Some TDict) [] (AddSchema IMAGE_SCHEMA))"
      using docker_field [OF dc Some] by (simp del: conforms.simps)
    obtain ikvs where i: "i = JObj ikvs" using conforms_dict [OF ic] by blast
    have "conforms v IMAGE_SCHEMA" if "(k, v) \<in> set ikvs" for k v
      using conforms_field_of [OF ic [unfolded i] that] by (simp del: conforms.simps)
    then have "if \<forall>(k, v) \<in> set ikvs. versions_ok v
       then \<exists>b'. res_fold load_image_settings ikvs b = Inr b' \<and> same_frame b b'
       else res_fold load_image_settings ikvs b = Inl (SystemExit 1)"
      by (rule load_settings_fold)
    then show ?thesis
      by (simp add: load_images_config_def config_images_def dict_item_def assms(2) d Some i list_all_iff)
  qed
qed

lemma load_config_cases:
  assumes "path_exists fs cwd (b_config_path b)" and "read_bytes fs cwd (b_config_path b) = Inr bytes"
  shows "if utf8_valid bytes \<and> (\<exists>config. json_loads bytes = Inr config \<and> config_ok config)
    then \<exists>b'. load_config fs cwd b = Inr b' \<and> b_search_paths b' = b_search_paths b \<and> b_arch b' = b_arch b
    else load_config fs cwd b = Inl (SystemExit 1)"
proof (cases "utf8_valid bytes \<and> (\<exists>config. json_loads bytes = Inr config)")
  case False
  have "json_loads bytes = Inl e \<Longrightarrow> is_ValueError e" for e
    by (auto simp: json_loads_def split: option.splits if_splits)
  then show ?thesis using False assms
    by (cases "json_loads bytes") (auto simp: load_config_def)
next
  case True
  then obtain config where u: "utf8_valid bytes" and c: "json_loads bytes = Inr config" by blast
  have V: "validate_config config CONFIG_SCHEMA [] = Inr () \<longleftrightarrow> conforms config CONFIG_SCHEMA"
    by (rule validate_config_iff_conforms [OF json_loads_wf [OF c] CONFIG_SCHEMA_wf])
  show ?thesis
  proof (cases "conforms config CONFIG_SCHEMA")
    case False
    then obtain e where e: "validate_config config CONFIG_SCHEMA [] = Inl e"
      using V by (cases "validate_config config CONFIG_SCHEMA []") auto
    then obtain m where "e = ValueError m" using validate_config_error by blast
    then show ?thesis using False assms u c e by (auto simp: load_config_def config_ok_def)
  next
    case True
    obtain kvs where k: "config = JObj kvs"
      using True conforms_dict unfolding CONFIG_SCHEMA_def by blast
    obtain repo ns where p: "parse_registry_config config = Inr (repo, ns)"
      using parse_registry_config_conforms [OF True] .
    show ?thesis
    proof (cases "map_of kvs ''docker''")
      case None
      have "config_ok config" using True None by (simp add: config_ok_def k config_images_def)
      then show ?thesis using u c assms V True None by (simp add: load_config_def k)
    next
      case (Some d)
      note L = load_images_config_conforms [OF True [unfolded k] Some,
          of "b\<lparr>b_repo := repo, b_namespace := ns\<rparr>"]
      have "load_config fs cwd b = res_catch
          (load_images_config config (b\<lparr>b_repo := repo, b_namespace := ns\<rparr>))
          (\<lambda>e. if is_ValueError e then Some (Inl (SystemExit 1)) else None)"
        using u c assms V True Some p by (simp add: load_config_def load_registry_config_def k)
      then show ?thesis using L u c True
        by (auto simp: config_ok_def k same_frame_def split: if_splits)
    qed
  qed
qed

text \<open>The attributes that go into every tag are well formed.\<close>

definition builder_ok :: "builder \<Rightarrow> bool" where
  "builder_ok b \<longleftrightarrow> repo_ok (b_repo b) \<and> namespace_ok (b_namespace b) \<and> b_arch b = ''amd64''"

lemma new_builder_ok: "builder_ok (new_builder cp sp)"
  by (simp add: builder_ok_def new_builder_def repo_ok_def namespace_ok_def)

lemma load_config_ok:
  assumes "builder_ok b" and "load_config fs cwd b = Inr b'"
  shows "builder_ok b' \<and> b_search_paths b' = b_search_paths b"
proof (cases "path_exists fs cwd (b_config_path b)")
  case False
  then show ?thesis using assms by (simp add: load_config_def)
next
  case True
  then obtain bytes where r: "read_bytes fs cwd (b_config_path b) = Inr bytes"
    using assms(2) by (auto simp: load_config_def)
  have "\<exists>config. utf8_valid bytes \<and> json_loads bytes = Inr config \<and> config_ok config"
    using load_config_cases [OF True r] assms(2) by (auto split: if_splits)
  then obtain config where c: "utf8_valid bytes" "json_loads bytes = Inr config"
    "conforms config CONFIG_SCHEMA" by (auto simp: config_ok_def)
  have V: "validate_config config CONFIG_SCHEMA [] = Inr ()"
    using validate_config_iff_conforms [OF json_loads_wf [OF c(2)] CONFIG_SCHEMA_wf] c(3) by blast
  obtain kvs where k: "config = JObj kvs"
    using c(3) conforms_dict unfolding CONFIG_SCHEMA_def by blast
  obtain repo ns where p: "parse_registry_config config = Inr (repo, ns)" "repo_ok repo" "namespace_ok ns"
    using parse_registry_config_conforms [OF c(3)] .
  show ?thesis
  proof (cases "map_of kvs ''docker''")
    case None
    then show ?thesis using c V True r assms by (simp add: load_config_def k)
  next
    case (Some d)
    let ?b = "b\<lparr>b_repo := repo, b_namespace := ns\<rparr>"
    have "load_config fs cwd b = res_catch (load_images_config config ?b)
          (\<lambda>e. if is_ValueError e then Some (Inl (SystemExit 1)) else None)"
      using c V True r Some p by (simp add: load_config_def load_registry_config_def k)
    then have "load_images_config config ?b = Inr b'"
      using assms(2) load_images_config_conforms [OF c(3) [unfolded k] Some, of ?b]
      by (auto simp: k split: if_splits)
    then have "same_frame ?b b'"
      using load_images_config_conforms [OF c(3) [unfolded k] Some, of ?b] by (auto simp: k split: if_splits)
    then show ?thesis using assms(1) p by (simp add: same_frame_def builder_ok_def)
  qed
qed

lemma docker_builder_ok:
  assumes "docker_builder fs cwd cp sp = Inr b"
  shows "builder_ok b" and "distinct (map fst (b_images b))" and "b_search_paths b = sp"
proof -
  from assms obtain b1 imgs where l: "load_config fs cwd (new_builder cp sp) = Inr b1"
    and i: "load_image_configs fs cwd sp = Inr imgs" and b: "b = b1\<lparr>b_images := imgs\<rparr>"
    by (auto simp: docker_builder_def)
  note O = load_config_ok [OF new_builder_ok l]
  show "builder_ok b" "distinct (map fst (b_images b))" "b_search_paths b = sp"
    using O load_image_configs_distinct [OF i] by (simp_all add: b builder_ok_def new_builder_def)
qed

section \<open>Properties\<close>

definition demo_config_fs :: "string \<Rightarrow> fsys" where
  "demo_config_fs bytes = [([], Dir), ([''devkit.json''], File bytes 420)]"



text \<open>
  C18: a constructed \<^verbatim>\<open>DockerBuilder\<close> is well formed: its repository is empty or of the form
  host/project/repository, its namespace is \<^verbatim>\<open>devkit\<close> or starts with \<^verbatim>\<open>devkit/\<close>, the architecture is amd64, the
  images have distinct names and the search paths are the given ones.
\<close>

theorem builder_well_formed:
  assumes "docker_builder fs cwd config_path search_paths = Inr b"
  shows "builder_ok b \<and> distinct (map fst (b_images b)) \<and> b_search_paths b = search_paths"
  using docker_builder_ok [OF assms] by simp

definition demo_config :: string where
  "demo_config = map (\<lambda>c. if c = CHR 0x27 then CHR 0x22 else c)
     (''{'' @ [CHR 0x27] @ ''docker'' @ [CHR 0x27] @ '':{'' @ [CHR 0x27] @ ''registry'' @ [CHR 0x27] @ '':{'' @
      [CHR 0x27] @ ''namespace'' @ [CHR 0x27] @ '':'' @ [CHR 0x27] @ ''tca'' @ [CHR 0x27] @ ''}}}'')"

theorem builder_well_formed_witness:
  "builder_ok ((new_builder (to_path ''devkit.json'') [])\<lparr>b_namespace := ''devkit/tca''\<rparr>) \<and>
   distinct (map fst (b_images ((new_builder (to_path ''devkit.json'') [])\<lparr>b_namespace := ''devkit/tca''\<rparr>))) \<and>
   b_search_paths ((new_builder (to_path ''devkit.json'') [])\<lparr>b_namespace := ''devkit/tca''\<rparr>) = []"
  by (rule builder_well_formed [of "demo_config_fs demo_config" "[]" "to_path ''devkit.json''"]) code_simp

end
