(* ===== verification/Py_Regex.thy ===== *)
theory Py_Regex
  imports Py_Text
begin

text \<open>
  The fragment of Python's \<^verbatim>\<open>re\<close> that the scripts use: literals, repeated character classes, optional and
  capturing groups and \<^verbatim>\<open>$\<close>. \<open>re_results\<close> lists every way to match a prefix of the subject in the order in which
  the backtracking engine tries them; \<^verbatim>\<open>match\<close> takes the first one.
\<close>

datatype re =
    Lit string
  | Rep nat "char \<Rightarrow> bool"
  | Many "char \<Rightarrow> bool"
  | Opt re
  | Grp re
  | Cat "re list"
  | Eol

text \<open>A result: what is left of the subject and the captured groups in order.\<close>

fun re_results :: "re \<Rightarrow> string \<Rightarrow> (string \<times> string list) list" where
  "re_results (Lit l) s = (if startswith s l then [(drop (length l) s, [])] else [])"
| "re_results (Rep n p) s =
     (if n \<le> length s \<and> list_all p (take n s) then [(drop n s, [])] else [])"
| "re_results (Many p) s = map (\<lambda>k. (drop k s, [])) (rev [0..<Suc (length (takeWhile p s))])"
| "re_results (Opt r) s = re_results r s @ [(s, [])]"
| "re_results (Grp r) s =
     map (\<lambda>(t, gs). (t, gs @ [take (length s - length t) s])) (re_results r s)"
| "re_results (Cat []) s = [(s, [])]"
| "re_results (Cat (r # rs)) s =
     concat (map (\<lambda>(t, gs). map (\<lambda>(u, hs). (u, gs @ hs)) (re_results (Cat rs) t)) (re_results r s))"
| "re_results Eol s = (if s = [] \<or> s = [CHR 0x0A] then [(s, [])] else [])"

definition re_match :: "re \<Rightarrow> string \<Rightarrow> string list option" where
  "re_match r s = (case re_results r s of [] \<Rightarrow> None | (t, gs) # _ \<Rightarrow> Some gs)"

section \<open>The results as a relation\<close>

abbreviation results :: "re \<Rightarrow> string \<Rightarrow> (string \<times> string list) set" where
  "results r s \<equiv> set (re_results r s)"

lemma results_Lit: "(t, gs) \<in> results (Lit l) s \<longleftrightarrow> s = l @ t \<and> gs = []"
  by (auto simp: startswith_iff)

lemma results_Rep: "(t, gs) \<in> results (Rep n p) s \<longleftrightarrow> (\<exists>x. s = x @ t \<and> length x = n \<and> list_all p x \<and> gs = [])"
proof
  assume "(t, gs) \<in> results (Rep n p) s"
  then have "n \<le> length s" "list_all p (take n s)" "t = drop n s" "gs = []" by (auto split: if_splits)
  then show "\<exists>x. s = x @ t \<and> length x = n \<and> list_all p x \<and> gs = []"
    by (intro exI [of _ "take n s"]) simp
qed auto

lemma takeWhile_prefix_iff:
  "k \<le> length (takeWhile p s) \<longleftrightarrow> k \<le> length s \<and> list_all p (take k s)"
proof
  assume k: "k \<le> length (takeWhile p s)"
  then have "take k s = take k (takeWhile p s)"
    by (metis append_take_drop_id takeWhile_eq_take take_take min.absorb1)
  then show "k \<le> length s \<and> list_all p (take k s)"
    using k length_takeWhile_le [of p s] by (auto simp: list_all_iff dest!: in_set_takeD set_takeWhileD)
next
  assume "k \<le> length s \<and> list_all p (take k s)"
  then have "takeWhile p (take k s @ drop k s) = take k s @ takeWhile p (drop k s)"
    by (intro takeWhile_append2) (auto simp: list_all_iff)
  then show "k \<le> length (takeWhile p s)"
    using \<open>k \<le> length s \<and> list_all p (take k s)\<close> by (metis append_take_drop_id le_add1 length_append length_take min.absorb2)
qed

lemma results_Many: "(t, gs) \<in> results (Many p) s \<longleftrightarrow> (\<exists>x. s = x @ t \<and> list_all p x \<and> gs = [])"
proof
  assume "(t, gs) \<in> results (Many p) s"
  then obtain k where "k < Suc (length (takeWhile p s))" and k: "t = drop k s" "gs = []"
    by (auto simp del: upt_Suc)
  then show "\<exists>x. s = x @ t \<and> list_all p x \<and> gs = []"
    using takeWhile_prefix_iff [of k p s] by (intro exI [of _ "take k s"]) auto
next
  assume "\<exists>x. s = x @ t \<and> list_all p x \<and> gs = []"
  then obtain x where x: "s = x @ t" "list_all p x" "gs = []" by blast
  then have "length x \<le> length (takeWhile p s)" by (simp add: takeWhile_prefix_iff)
  then have "length x < Suc (length (takeWhile p s))" by simp
  moreover have "drop (length x) s = t" using x by simp
  ultimately have "(t, []) \<in> (\<lambda>k. (drop k s, [])) ` {0..<Suc (length (takeWhile p s))}"
    by (metis (no_types, lifting) atLeastLessThan_iff image_iff le0)
  then show "(t, gs) \<in> results (Many p) s" using x(3) by (simp only: re_results.simps set_map set_rev set_upt)
qed

lemma results_Opt: "(t, gs) \<in> results (Opt r) s \<longleftrightarrow> (t, gs) \<in> results r s \<or> (t = s \<and> gs = [])"
  by auto

lemma results_Cat_Nil: "(t, gs) \<in> results (Cat []) s \<longleftrightarrow> t = s \<and> gs = []"
  by auto

lemma results_Cat:
  "(t, gs) \<in> results (Cat (r # rs)) s \<longleftrightarrow>
     (\<exists>u g1 g2. (u, g1) \<in> results r s \<and> (t, g2) \<in> results (Cat rs) u \<and> gs = g1 @ g2)"
  by force

lemma results_Grp:
  "(t, gs) \<in> results (Grp r) s \<longleftrightarrow>
     (\<exists>g. (t, g) \<in> results r s \<and> gs = g @ [take (length s - length t) s])"
  by force

lemma results_Eol: "(t, gs) \<in> results Eol s \<longleftrightarrow> t = s \<and> (s = [] \<or> s = [CHR 0x0A]) \<and> gs = []"
  by auto

lemmas results_rules = results_Lit results_Rep results_Many results_Opt results_Cat_Nil results_Cat
  results_Eol

text \<open>When all results agree on the groups, the engine's first result is that one.\<close>

lemma re_match_unique:
  assumes "\<And>t hs. (t, hs) \<in> results r s \<Longrightarrow> hs = gs" and "(t, gs) \<in> results r s"
  shows "re_match r s = Some gs"
proof (cases "re_results r s")
  case (Cons p ps)
  obtain u hs where p: "p = (u, hs)" by fastforce
  then have "(u, hs) \<in> results r s" using Cons by simp
  then have "hs = gs" by (rule assms(1))
  then show ?thesis unfolding re_match_def Cons p by simp
qed (use assms(2) in simp)

lemma re_match_SomeD:
  assumes "re_match r s = Some gs"
  shows "\<exists>t. (t, gs) \<in> results r s"
proof (cases "re_results r s")
  case (Cons p ps)
  then show ?thesis using assms by (cases p) (auto simp: re_match_def)
qed (use assms in \<open>simp add: re_match_def\<close>)

end
