(* ===== verification/Docker_Cleanup.thy ===== *)
theory Docker_Cleanup
  imports Docker_Tag_Spec Docker_Load Py_Regex
begin

text \<open>
  \<^verbatim>\<open>scripts/docker_cleanup.py\<close>: which images are candidates for removal, and the cancellable removal in
  batches that runs in a background thread.
\<close>

section \<open>Candidates\<close>

definition CLEANUP_BATCH_SIZE :: int where
  "CLEANUP_BATCH_SIZE = 4"

definition CLEANUP_THRESHOLD_DAYS :: int where
  "CLEANUP_THRESHOLD_DAYS = 7"

definition ALLOWED_IMAGE_NAMES :: "string list" where
  "ALLOWED_IMAGE_NAMES =
     [''build-env'', ''build-env-debian'', ''build-env-rockylinux'', ''clion-ide'', ''dev-env'', ''gcloud-env'',
      ''goland-ide'', ''ide-env'', ''intellij-ide'', ''nitro-cli-linux6'', ''pycharm-ide'', ''tool-env'',
      ''vscode-ide'', ''vscode-server'']"

text \<open>The character classes of \<^verbatim>\<open>IMAGE_PATTERN\<close>.\<close>

definition re_dot :: "char \<Rightarrow> bool" where
  "re_dot c \<longleftrightarrow> c \<noteq> CHR 0x0A"

definition name_char :: "char \<Rightarrow> bool" where
  "name_char c \<longleftrightarrow> c \<noteq> CHR ''/'' \<and> c \<noteq> CHR '':''"

definition arch_char :: "char \<Rightarrow> bool" where
  "arch_char c \<longleftrightarrow> c \<in> set ''abcdefghijklmnopqrstuvwxyzABCDEFGHIJKLMNOPQRSTUVWXYZ0123456789_''"

definition hash_char :: "char \<Rightarrow> bool" where
  "hash_char c \<longleftrightarrow> c \<in> set ''abcdef0123456789''"

definition IMAGE_PATTERN :: re where
  "IMAGE_PATTERN = Cat
     [Opt (Cat [Many re_dot, Lit ''/'']), Lit ''devkit'', Opt (Cat [Lit ''/'', Many re_dot]), Lit ''/'',
      Grp (Cat [Rep 1 name_char, Many name_char]), Lit '':'',
      Grp (Cat [Rep 1 arch_char, Many arch_char]), Lit ''-'', Grp (Rep 64 hash_char), Eol]"

definition filter_allowed_images :: "string list \<Rightarrow> string list" where
  "filter_allowed_images images =
     filter (\<lambda>img. case re_match IMAGE_PATTERN img of
         Some (image_name # _) \<Rightarrow> image_name \<in> set ALLOWED_IMAGE_NAMES
       | _ \<Rightarrow> False) images"

text \<open>\<^verbatim>\<open>except Exception\<close>: a SystemExit of the tag calculation is not caught.\<close>

definition get_ignored_images ::
  "nat \<Rightarrow> set_order \<Rightarrow> (string list \<Rightarrow> string) \<Rightarrow> fsys \<Rightarrow> loc \<Rightarrow> ppath \<Rightarrow> ppath list \<Rightarrow> string list res" where
  "get_ignored_images limit so pop fs cwd config_path search_paths =
     res_catch (get_all_docker_image_tags limit so pop fs cwd config_path search_paths [])
       (\<lambda>e. if is_Exception e then Some (Inr []) else None)"

definition images_cmd :: "string \<Rightarrow> int \<Rightarrow> string list" where
  "images_cmd img_prefix threshold_days =
     [''docker'', ''images'', ''--filter'', ''reference='' @ img_prefix @ ''/*'',
      ''--filter'', ''until='' @ show_int (threshold_days * 24) @ ''h'',
      ''--format'', ''{{.Repository}}:{{.Tag}}'']"

definition get_images :: "runner \<Rightarrow> string \<Rightarrow> int \<Rightarrow> string list script" where
  "get_images run img_prefix threshold_days =
     io_catch
       (io_bind (run_checked run (images_cmd img_prefix threshold_days))
         (\<lambda>(out, err). io_return (splitlines (strip out))))
       (\<lambda>e. if is_CalledProcessError e \<or> is_FileNotFound e then Some (io_return []) else None)"

definition get_images_to_cleanup ::
  "runner \<Rightarrow> nat \<Rightarrow> set_order \<Rightarrow> (string list \<Rightarrow> string) \<Rightarrow> ppath \<Rightarrow> ppath list \<Rightarrow> int \<Rightarrow> string list script" where
  "get_images_to_cleanup run limit so pop config_path search_paths threshold_days =
     io_bind (query_res (\<lambda>w. get_image_prefix (w_fs w) (w_cwd w) config_path)) (\<lambda>img_prefix.
     io_bind (get_images run img_prefix threshold_days) (\<lambda>all_images.
     if all_images = [] then io_return []
     else
       let allowed_images = filter_allowed_images all_images in
       if allowed_images = [] then io_return []
       else
         io_bind (query_res (\<lambda>w. get_ignored_images limit so pop (w_fs w) (w_cwd w) config_path search_paths))
           (\<lambda>ignored_images. io_return (filter (\<lambda>img. img \<notin> set ignored_images) allowed_images))))"

section \<open>Removal\<close>

text \<open>
  The thread shares the cancel event with the rest of the program. \<open>cancel k\<close> is the state of the
  event when it is looked at for the \<open>k\<close>-th time (\<^verbatim>\<open>is_set\<close> or the result of \<^verbatim>\<open>wait\<close>), and the count of looks is
  part of the thread's state. \<open>polls w tag\<close> is how often a started \<^verbatim>\<open>docker rmi\<close> is still running when polled.
\<close>

type_synonym 'a thread = "(world \<times> nat, 'a) io"

definition on_world :: "'a script \<Rightarrow> 'a thread" where
  "on_world m = (\<lambda>(w, k). case m w of (r, w') \<Rightarrow> (r, (w', k)))"

definition look :: "(nat \<Rightarrow> bool) \<Rightarrow> bool thread" where
  "look cancel = (\<lambda>(w, k). (Inr (cancel k), (w, Suc k)))"

definition rmi_cmd :: "string \<Rightarrow> string list" where
  "rmi_cmd tag = [''docker'', ''rmi'', tag]"

definition terminate :: "string list \<Rightarrow> unit script" where
  "terminate cmd = (\<lambda>w. (Inr (), w\<lparr>w_trace := w_trace w @ [Killed cmd]\<rparr>))"

text \<open>The loop \<^verbatim>\<open>while proc.poll() is None\<close>; the result tells whether the batch is left.\<close>

fun poll_loop :: "(nat \<Rightarrow> bool) \<Rightarrow> string \<Rightarrow> nat \<Rightarrow> bool thread" where
  "poll_loop cancel tag 0 = io_return False"
| "poll_loop cancel tag (Suc n) =
     io_bind (look cancel) (\<lambda>c.
       if c then io_bind (on_world (terminate (rmi_cmd tag))) (\<lambda>_. io_return True)
       else poll_loop cancel tag n)"

definition remove_image :: "runner \<Rightarrow> (world \<Rightarrow> string \<Rightarrow> nat) \<Rightarrow> (nat \<Rightarrow> bool) \<Rightarrow> string \<Rightarrow> bool thread" where
  "remove_image run polls cancel tag =
     io_catch
       (io_bind (on_world (query (\<lambda>w. polls w tag))) (\<lambda>n.
        io_bind (on_world (run_unchecked run (rmi_cmd tag))) (\<lambda>_.
        poll_loop cancel tag n)))
       (\<lambda>e. if is_Exception e then Some (io_return False) else None)"

fun cleanup_images_batch ::
  "runner \<Rightarrow> (world \<Rightarrow> string \<Rightarrow> nat) \<Rightarrow> (nat \<Rightarrow> bool) \<Rightarrow> string list \<Rightarrow> unit thread" where
  "cleanup_images_batch run polls cancel [] = io_return ()"
| "cleanup_images_batch run polls cancel (tag # tags) =
     io_bind (look cancel) (\<lambda>c.
       if c then io_return ()
       else io_bind (remove_image run polls cancel tag) (\<lambda>left.
         if left then io_return () else cleanup_images_batch run polls cancel tags))"

text \<open>\<^verbatim>\<open>range(0, len(all), batch_size)\<close> and the slices: a step of zero raises, a negative one gives nothing.\<close>

function chunks :: "nat \<Rightarrow> 'a list \<Rightarrow> 'a list list" where
  "chunks n xs = (if n = 0 \<or> xs = [] then [] else take n xs # chunks n (drop n xs))"
  by pat_completeness auto
termination by (relation "measure (\<lambda>(n, xs). length xs)") auto

declare chunks.simps [simp del]

definition batches :: "int \<Rightarrow> 'a list \<Rightarrow> 'a list list res" where
  "batches batch_size xs =
     (if batch_size = 0 then Inl (ValueError ''range() arg 3 must not be zero'')
      else if batch_size < 0 then Inr [] else Inr (chunks (nat batch_size) xs))"

fun batch_loop ::
  "runner \<Rightarrow> (world \<Rightarrow> string \<Rightarrow> nat) \<Rightarrow> (nat \<Rightarrow> bool) \<Rightarrow> string list list \<Rightarrow> unit thread" where
  "batch_loop run polls cancel [] = io_return ()"
| "batch_loop run polls cancel (batch # rest) =
     io_bind (cleanup_images_batch run polls cancel batch) (\<lambda>_.
     io_bind (look cancel) (\<lambda>c. if c then io_return () else batch_loop run polls cancel rest))"

record cleanup_args =
  ca_config_path :: ppath
  ca_search_paths :: "ppath list"
  ca_batch_size :: int
  ca_threshold_days :: int

definition cleanup_images ::
  "runner \<Rightarrow> (world \<Rightarrow> string \<Rightarrow> nat) \<Rightarrow> nat \<Rightarrow> set_order \<Rightarrow> (string list \<Rightarrow> string) \<Rightarrow> (nat \<Rightarrow> bool)
   \<Rightarrow> cleanup_args \<Rightarrow> unit thread" where
  "cleanup_images run polls limit so pop cancel args =
     io_bind (look cancel) (\<lambda>c.
       if c then io_return ()
       else
         io_bind (on_world (get_images_to_cleanup run limit so pop (ca_config_path args)
                    (ca_search_paths args) (ca_threshold_days args))) (\<lambda>all_to_cleanup.
         io_bind (io_lift (batches (ca_batch_size args) all_to_cleanup)) (\<lambda>bs.
         batch_loop run polls cancel bs)))"

text \<open>\<^verbatim>\<open>start_background_cleanup\<close>: the thread runs \<^verbatim>\<open>cleanup_images\<close> with a fresh event and the given arguments.\<close>

definition start_background_cleanup ::
  "runner \<Rightarrow> (world \<Rightarrow> string \<Rightarrow> nat) \<Rightarrow> nat \<Rightarrow> set_order \<Rightarrow> (string list \<Rightarrow> string) \<Rightarrow> cleanup_args
   \<Rightarrow> (nat \<Rightarrow> bool) \<Rightarrow> unit thread" where
  "start_background_cleanup run polls limit so pop args = (\<lambda>cancel. cleanup_images run polls limit so pop cancel args)"

text \<open>\<^verbatim>\<open>main\<close> after argument parsing: nobody sets the event; Ctrl-C ends the run quietly.\<close>

definition cleanup_main ::
  "runner \<Rightarrow> (world \<Rightarrow> string \<Rightarrow> nat) \<Rightarrow> nat \<Rightarrow> set_order \<Rightarrow> (string list \<Rightarrow> string) \<Rightarrow> cleanup_args \<Rightarrow> unit thread" where
  "cleanup_main run polls limit so pop args =
     io_catch (cleanup_images run polls limit so pop (\<lambda>_. False) args)
       (\<lambda>e. if e = KeyboardInterrupt then Some (io_return ()) else None)"

section \<open>The image pattern\<close>

text \<open>The fields of a reference the pattern accepts.\<close>

definition image_ref :: "string \<Rightarrow> string \<Rightarrow> string \<Rightarrow> string \<Rightarrow> string \<Rightarrow> string" where
  "image_ref p name arch h rest = p @ ''/'' @ name @ '':'' @ arch @ ''-'' @ h @ rest"

definition ref_ok :: "string \<Rightarrow> string \<Rightarrow> string \<Rightarrow> string \<Rightarrow> string \<Rightarrow> bool" where
  "ref_ok p name arch h rest \<longleftrightarrow>
     list_all re_dot p \<and> ''devkit'' \<in> set (split_on (CHR ''/'') p) \<and>
     name \<noteq> [] \<and> list_all name_char name \<and> arch \<noteq> [] \<and> list_all arch_char arch \<and>
     length h = 64 \<and> list_all hash_char h \<and> (rest = [] \<or> rest = [CHR 0x0A])"

lemma component_iff:
  "c \<in> set (split_on d p) \<longleftrightarrow>
     d \<notin> set c \<and> (\<exists>x y. p = x @ c @ y \<and> (x = [] \<or> (\<exists>a. x = a @ [d])) \<and> (y = [] \<or> (\<exists>b. y = d # b)))"
    (is "_ \<longleftrightarrow> ?R p")
proof
  assume c: "c \<in> set (split_on d p)"
  then have "d \<notin> set c" by (rule split_on_no_sep)
  moreover from c obtain as bs where s: "split_on d p = as @ c # bs" by (meson split_list)
  have "p = join [d] (as @ c # bs)" using join_split_on [of d p] s by simp
  moreover have "\<exists>x y. join [d] (as @ c # bs) = x @ c @ y \<and> (x = [] \<or> (\<exists>a. x = a @ [d])) \<and> (y = [] \<or> (\<exists>b. y = d # b))"
  proof -
    have 1: "\<exists>y. join [d] (c # bs) = c @ y \<and> (y = [] \<or> (\<exists>b. y = d # b))"
      by (cases bs) auto
    have 2: "\<exists>x. join [d] (as @ zs) = x @ join [d] zs \<and> (x = [] \<or> (\<exists>a. x = a @ [d]))" if "zs \<noteq> []" for zs
      using that
    proof (induction as)
      case (Cons q as)
      then obtain x where x: "join [d] (as @ zs) = x @ join [d] zs" "x = [] \<or> (\<exists>a. x = a @ [d])" by blast
      have "as @ zs \<noteq> []" using that by simp
      then have "join [d] ((q # as) @ zs) = (q @ [d] @ x) @ join [d] zs"
        using x(1) by (cases "as @ zs") auto
      moreover have "\<exists>a. q @ [d] @ x = a @ [d]" using x(2) by auto
      ultimately show ?case by blast
    qed simp
    obtain y where y: "join [d] (c # bs) = c @ y" "y = [] \<or> (\<exists>b. y = d # b)" using 1 by blast
    obtain x where "join [d] (as @ c # bs) = x @ join [d] (c # bs)" "x = [] \<or> (\<exists>a. x = a @ [d])"
      using 2 [of "c # bs"] by blast
    with y show ?thesis by metis
  qed
  ultimately show "?R p" by simp
next
  assume R: "?R p"
  then obtain x y where p: "p = x @ c @ y" and x: "x = [] \<or> (\<exists>a. x = a @ [d])"
    and y: "y = [] \<or> (\<exists>b. y = d # b)" and c: "d \<notin> set c" by blast
  have tail: "c \<in> set (split_on d (c @ y))"
    using y c split_on_append [of d c] split_on_none [of d c] by auto
  have "split_on d (a @ d # s) = butlast (split_on d a) @ last (split_on d a) # split_on d s" for a s
    by (induction a) (auto split: list.splits)
  then have pre: "split_on d (a @ d # s) = split_on d a @ split_on d s" for a s
    by (metis append_Cons append_Nil append_assoc append_butlast_last_id split_on_nonempty)
  show "c \<in> set (split_on d p)"
    using x tail pre p by auto
qed

lemma results_Grp_plus:
  "(t, gs) \<in> results (Grp (Cat [Rep 1 P, Many P])) s \<longleftrightarrow>
     (\<exists>x. s = x @ t \<and> x \<noteq> [] \<and> list_all P x \<and> gs = [x])"
proof
  assume "(t, gs) \<in> results (Grp (Cat [Rep 1 P, Many P])) s"
  then obtain g where g: "(t, g) \<in> results (Cat [Rep 1 P, Many P]) s"
    and gs: "gs = g @ [take (length s - length t) s]" unfolding results_Grp by blast
  from g obtain u x y where "s = x @ u" "length x = 1" "list_all P x" "u = y @ t" "list_all P y" "g = []"
    unfolding results_Cat results_Rep results_Many results_Cat_Nil by auto
  then show "\<exists>x. s = x @ t \<and> x \<noteq> [] \<and> list_all P x \<and> gs = [x]"
    using gs by (intro exI [of _ "x @ y"]) auto
next
  assume "\<exists>x. s = x @ t \<and> x \<noteq> [] \<and> list_all P x \<and> gs = [x]"
  then obtain c x where x: "s = (c # x) @ t" "P c" "list_all P x" "gs = [c # x]"
    by (metis list.pred_inject(2) neq_Nil_conv)
  have "(t, []) \<in> results (Cat [Rep 1 P, Many P]) s"
  proof -
    have "(x @ t, []) \<in> results (Rep 1 P) s" unfolding results_Rep using x by (intro exI [of _ "[c]"]) auto
    moreover have "(t, []) \<in> results (Many P) (x @ t)" unfolding results_Many using x by blast
    ultimately show ?thesis unfolding results_Cat results_Cat_Nil by blast
  qed
  then show "(t, gs) \<in> results (Grp (Cat [Rep 1 P, Many P])) s"
    unfolding results_Grp using x by (intro exI [of _ "[]"]) simp
qed

lemma results_Grp_Rep:
  "(t, gs) \<in> results (Grp (Rep n P)) s \<longleftrightarrow> (\<exists>x. s = x @ t \<and> length x = n \<and> list_all P x \<and> gs = [x])"
  unfolding results_Grp results_Rep by auto

lemma results_before:
  "(t, gs) \<in> results (Opt (Cat [Many P, Lit l])) s \<longleftrightarrow>
     gs = [] \<and> (\<exists>x. s = x @ t \<and> (x = [] \<or> (\<exists>a. x = a @ l \<and> list_all P a)))"
  unfolding results_Opt results_Cat results_Many results_Lit results_Cat_Nil by auto

lemma results_after:
  "(t, gs) \<in> results (Opt (Cat [Lit l, Many P])) s \<longleftrightarrow>
     gs = [] \<and> (\<exists>y. s = y @ t \<and> (y = [] \<or> (\<exists>b. y = l @ b \<and> list_all P b)))"
  unfolding results_Opt results_Cat results_Many results_Lit results_Cat_Nil by auto

text \<open>One element of a sequence at a time.\<close>

definition slash_before :: "string \<Rightarrow> bool" where
  "slash_before x \<longleftrightarrow> x = [] \<or> (\<exists>a. x = a @ ''/'' \<and> list_all re_dot a)"

definition slash_after :: "string \<Rightarrow> bool" where
  "slash_after y \<longleftrightarrow> y = [] \<or> (\<exists>b. y = ''/'' @ b \<and> list_all re_dot b)"

lemma cat_Lit: "(t, gs) \<in> results (Cat (Lit l # rs)) s \<longleftrightarrow> (\<exists>u. s = l @ u \<and> (t, gs) \<in> results (Cat rs) u)"
  unfolding results_Cat results_Lit by (simp del: re_results.simps)

lemma cat_before:
  "(t, gs) \<in> results (Cat (Opt (Cat [Many re_dot, Lit ''/'']) # rs)) s \<longleftrightarrow>
     (\<exists>x u. s = x @ u \<and> slash_before x \<and> (t, gs) \<in> results (Cat rs) u)"
  unfolding results_Cat results_before slash_before_def by (auto simp del: re_results.simps)

lemma cat_after:
  "(t, gs) \<in> results (Cat (Opt (Cat [Lit ''/'', Many re_dot]) # rs)) s \<longleftrightarrow>
     (\<exists>y u. s = y @ u \<and> slash_after y \<and> (t, gs) \<in> results (Cat rs) u)"
  unfolding results_Cat results_after slash_after_def by (auto simp del: re_results.simps)

lemma cat_plus:
  "(t, gs) \<in> results (Cat (Grp (Cat [Rep 1 P, Many P]) # rs)) s \<longleftrightarrow>
     (\<exists>x u hs. s = x @ u \<and> x \<noteq> [] \<and> list_all P x \<and> gs = x # hs \<and> (t, hs) \<in> results (Cat rs) u)"
proof
  assume "(t, gs) \<in> results (Cat (Grp (Cat [Rep 1 P, Many P]) # rs)) s"
  then show "\<exists>x u hs. s = x @ u \<and> x \<noteq> [] \<and> list_all P x \<and> gs = x # hs \<and> (t, hs) \<in> results (Cat rs) u"
    unfolding results_Cat results_Grp_plus by fastforce
next
  assume "\<exists>x u hs. s = x @ u \<and> x \<noteq> [] \<and> list_all P x \<and> gs = x # hs \<and> (t, hs) \<in> results (Cat rs) u"
  then obtain x u hs where x: "s = x @ u" "x \<noteq> []" "list_all P x" "gs = [x] @ hs" "(t, hs) \<in> results (Cat rs) u"
    by auto
  then show "(t, gs) \<in> results (Cat (Grp (Cat [Rep 1 P, Many P]) # rs)) s"
    unfolding results_Cat results_Grp_plus by blast
qed

lemma cat_rep_eol:
  "(t, gs) \<in> results (Cat [Grp (Rep n P), Eol]) s \<longleftrightarrow>
     (\<exists>h. s = h @ t \<and> length h = n \<and> list_all P h \<and> (t = [] \<or> t = [CHR 0x0A]) \<and> gs = [h])"
  unfolding results_Cat results_Grp_Rep results_Eol results_Cat_Nil by auto

lemmas cat_elims = cat_before [THEN iffD1, elim_format] cat_after [THEN iffD1, elim_format]
  cat_Lit [THEN iffD1, elim_format] cat_plus [THEN iffD1, elim_format] cat_rep_eol [THEN iffD1, elim_format]

lemmas cat_intros = cat_before [THEN iffD2] cat_after [THEN iffD2] cat_Lit [THEN iffD2] cat_plus [THEN iffD2]
  cat_rep_eol [THEN iffD2]

lemma devkit_component:
  "list_all re_dot p \<and> ''devkit'' \<in> set (split_on (CHR ''/'') p) \<longleftrightarrow>
     (\<exists>x y. p = x @ ''devkit'' @ y \<and> slash_before x \<and> slash_after y)" (is "?L \<longleftrightarrow> ?R")
proof
  assume ?L
  then obtain x y where "p = x @ ''devkit'' @ y" "x = [] \<or> (\<exists>a. x = a @ ''/'')" "y = [] \<or> (\<exists>b. y = CHR ''/'' # b)"
    unfolding component_iff by blast
  with \<open>?L\<close> show ?R by (intro exI [of _ x] exI [of _ y]) (auto simp: slash_before_def slash_after_def)
next
  assume ?R
  then obtain x y where xy: "p = x @ ''devkit'' @ y" "x = [] \<or> (\<exists>a. x = a @ ''/'' \<and> list_all re_dot a)"
    "y = [] \<or> (\<exists>b. y = ''/'' @ b \<and> list_all re_dot b)" by (auto simp: slash_before_def slash_after_def)
  have "list_all re_dot p" using xy by (auto simp: re_dot_def)
  moreover have "''devkit'' \<in> set (split_on (CHR ''/'') p)"
    unfolding component_iff using xy by (intro conjI exI [of _ x] exI [of _ y]) auto
  ultimately show ?L by simp
qed

text \<open>Exactly the references of the documented form, and the groups are their fields.\<close>

lemma image_pattern_results:
  "(t, gs) \<in> results IMAGE_PATTERN s \<longleftrightarrow>
     (\<exists>p name arch h. s = image_ref p name arch h t \<and> ref_ok p name arch h t \<and> gs = [name, arch, h])"
proof
  assume "(t, gs) \<in> results IMAGE_PATTERN s"
  then obtain x y name arch h where
    s: "s = x @ ''devkit'' @ y @ ''/'' @ name @ '':'' @ arch @ ''-'' @ h @ t" and gs: "gs = [name, arch, h]"
    and c: "slash_before x" "slash_after y"
    and r: "name \<noteq> []" "list_all name_char name" "arch \<noteq> []" "list_all arch_char arch" "length h = 64"
      "list_all hash_char h" "t = [] \<or> t = [CHR 0x0A]"
    unfolding IMAGE_PATTERN_def by (elim cat_elims exE conjE) (hypsubst_thin, blast)
  have "list_all re_dot (x @ ''devkit'' @ y) \<and> ''devkit'' \<in> set (split_on (CHR ''/'') (x @ ''devkit'' @ y))"
    unfolding devkit_component using c by blast
  then have "ref_ok (x @ ''devkit'' @ y) name arch h t" using r by (simp add: ref_ok_def)
  moreover have "s = image_ref (x @ ''devkit'' @ y) name arch h t" using s by (simp add: image_ref_def)
  ultimately show "\<exists>p name arch h. s = image_ref p name arch h t \<and> ref_ok p name arch h t \<and> gs = [name, arch, h]"
    using gs by blast
next
  assume "\<exists>p name arch h. s = image_ref p name arch h t \<and> ref_ok p name arch h t \<and> gs = [name, arch, h]"
  then obtain p name arch h where s: "s = image_ref p name arch h t" and r: "ref_ok p name arch h t"
    and gs: "gs = [name, arch, h]" by blast
  obtain x y where xy: "p = x @ ''devkit'' @ y" "slash_before x" "slash_after y"
    using r devkit_component [of p] unfolding ref_ok_def by blast
  have s': "s = x @ ''devkit'' @ y @ ''/'' @ name @ '':'' @ arch @ ''-'' @ h @ t"
    using s xy by (simp add: image_ref_def)
  have f: "name \<noteq> []" "list_all name_char name" "arch \<noteq> []" "list_all arch_char arch" "length h = 64"
      "list_all hash_char h" "t = [] \<or> t = [CHR 0x0A]" using r by (simp_all add: ref_ok_def)
  show "(t, gs) \<in> results IMAGE_PATTERN s"
    unfolding IMAGE_PATTERN_def gs
    by (rule cat_intros exI conjI s' refl xy f)+
qed

text \<open>The fields are determined by the reference: the last slash and the last colon.\<close>

lemma split_last_unique:
  assumes "a @ c # b = a' @ c # b'" and "c \<notin> set b" and "c \<notin> set b'"
  shows "a = a' \<and> b = b'"
  using assms by (auto simp: append_eq_append_conv2 append_eq_Cons_conv Cons_eq_append_conv)

lemma arch_not_sep: "list_all arch_char a \<Longrightarrow> CHR ''/'' \<notin> set a \<and> CHR '':'' \<notin> set a \<and> CHR ''-'' \<notin> set a"
proof -
  have "\<not> arch_char (CHR ''/'')" "\<not> arch_char (CHR '':'')" "\<not> arch_char (CHR ''-'')" by code_simp+
  then show "list_all arch_char a \<Longrightarrow> CHR ''/'' \<notin> set a \<and> CHR '':'' \<notin> set a \<and> CHR ''-'' \<notin> set a"
    unfolding list_all_iff by blast
qed

lemma hash_not_sep:
  "list_all hash_char a \<Longrightarrow> CHR ''/'' \<notin> set a \<and> CHR '':'' \<notin> set a \<and> CHR ''-'' \<notin> set a \<and> CHR 0x0A \<notin> set a"
proof -
  have "\<not> hash_char (CHR ''/'')" "\<not> hash_char (CHR '':'')" "\<not> hash_char (CHR ''-'')" "\<not> hash_char (CHR 0x0A)"
    by code_simp+
  then show "list_all hash_char a \<Longrightarrow> CHR ''/'' \<notin> set a \<and> CHR '':'' \<notin> set a \<and> CHR ''-'' \<notin> set a \<and> CHR 0x0A \<notin> set a"
    unfolding list_all_iff by blast
qed

lemma ref_unique:
  assumes "image_ref p n a h t = image_ref p' n' a' h' t'" and "ref_ok p n a h t" and "ref_ok p' n' a' h' t'"
  shows "n = n' \<and> a = a' \<and> h = h' \<and> t = t'"
proof -
  have sep: "CHR '':'' \<notin> set (a @ ''-'' @ h @ t) \<and> CHR ''/'' \<notin> set (n @ '':'' @ a @ ''-'' @ h @ t) \<and>
      CHR ''-'' \<notin> set (h @ t)" if "ref_ok p n a h t" for p n a h t
  proof -
    have "CHR ''/'' \<notin> set n" using that by (auto simp: ref_ok_def list_all_iff name_char_def)
    moreover have "list_all arch_char a" "list_all hash_char h" "t = [] \<or> t = [CHR 0x0A]"
      using that by (simp_all add: ref_ok_def)
    ultimately show ?thesis using arch_not_sep [of a] hash_not_sep [of h] by auto
  qed
  have tl: "t = (if last (h @ t) = CHR 0x0A then [CHR 0x0A] else [])" if "ref_ok p n a h t" for p n a h t
  proof (cases "t = []")
    case True
    have "h \<noteq> []" using that by (auto simp: ref_ok_def)
    then have "last h \<in> set h" by simp
    with hash_not_sep [of h] that True show ?thesis by (auto simp: ref_ok_def)
  qed (use that in \<open>auto simp: ref_ok_def\<close>)
  have 1: "n @ '':'' @ a @ ''-'' @ h @ t = n' @ '':'' @ a' @ ''-'' @ h' @ t'"
    using split_last_unique [of p "CHR ''/''"] sep [OF assms(2)] sep [OF assms(3)] assms(1)
    by (simp add: image_ref_def)
  then have 2: "n = n'" "a @ ''-'' @ h @ t = a' @ ''-'' @ h' @ t'"
    using split_last_unique [of n "CHR '':''"] sep [OF assms(2)] sep [OF assms(3)] by auto
  then have 3: "a = a'" "h @ t = h' @ t'"
    using split_last_unique [of a "CHR ''-''"] sep [OF assms(2)] sep [OF assms(3)] by auto
  then have "t = t'" using tl [OF assms(2)] tl [OF assms(3)] by simp
  with 2 3 show ?thesis by simp
qed

lemma image_pattern_match:
  "ref_ok p n a h t \<Longrightarrow> re_match IMAGE_PATTERN (image_ref p n a h t) = Some [n, a, h]"
proof (rule re_match_unique)
  assume r: "ref_ok p n a h t"
  show "(t, [n, a, h]) \<in> results IMAGE_PATTERN (image_ref p n a h t)"
    unfolding image_pattern_results using r by blast
  fix u hs
  assume "(u, hs) \<in> results IMAGE_PATTERN (image_ref p n a h t)"
  then show "hs = [n, a, h]" unfolding image_pattern_results using r ref_unique by metis
qed

lemma image_pattern_SomeD:
  "re_match IMAGE_PATTERN s = Some gs \<Longrightarrow>
     \<exists>p n a h t. s = image_ref p n a h t \<and> ref_ok p n a h t \<and> gs = [n, a, h]"
  using re_match_SomeD image_pattern_results by blast

end
