(* ===== verification/Docker_Images.thy ===== *)
theory Docker_Images
  imports Docker_Tag_Spec Docker_Load
begin

text \<open>
  The part of \<^verbatim>\<open>scripts/docker/build.py\<close> that runs \<^verbatim>\<open>docker\<close>: checking for an image, building, pulling and
  pushing it, the loop over the build order and \<^verbatim>\<open>main\<close> after argument parsing.
\<close>

section \<open>Commands\<close>

definition nl :: string where
  "nl = [CHR 0x0A]"

definition inspect_cmd :: "string \<Rightarrow> string list" where
  "inspect_cmd tag = [''docker'', ''image'', ''inspect'', tag]"

definition manifest_inspect_cmd :: "string \<Rightarrow> string list" where
  "manifest_inspect_cmd tag = [''docker'', ''manifest'', ''inspect'', tag]"

definition pull_cmd :: "string \<Rightarrow> string list" where
  "pull_cmd tag = [''docker'', ''pull'', tag]"

definition push_cmd :: "string \<Rightarrow> string list" where
  "push_cmd tag = [''docker'', ''push'', tag]"

text \<open>The loop over the flat list of names and values: a name without a value is an IndexError.\<close>

fun build_arg_flags :: "string list \<Rightarrow> string list res" where
  "build_arg_flags [] = Inr []"
| "build_arg_flags [arg_name] = Inl IndexError"
| "build_arg_flags (arg_name # arg_value # rest) =
     res_bind (build_arg_flags rest)
       (\<lambda>flags. Inr (''--build-arg'' # (arg_name @ ''='' @ arg_value) # flags))"

definition docker_build_cmd ::
  "string \<Rightarrow> string \<Rightarrow> bool \<Rightarrow> string list \<Rightarrow> string \<Rightarrow> string list" where
  "docker_build_cmd tag dockerfile_path no_cache flags context_path =
     [''docker'', ''buildx'', ''build'', ''--tag'', tag, ''--file'', dockerfile_path] @
     (if no_cache then [''--no-cache''] else []) @ flags @ [context_path]"

section \<open>One image\<close>

definition check_docker_cmd :: "runner \<Rightarrow> string list \<Rightarrow> string \<Rightarrow> ppath option \<Rightarrow> unit script" where
  "check_docker_cmd run cmd error_msg log_file =
     io_catch (io_bind (run_checked run cmd) (\<lambda>_. io_return ()))
       (\<lambda>e. if is_CalledProcessError e \<or> is_FileNotFound e
             then Some (io_bind (if log_file \<noteq> None then print_to Stderr (''ERROR: '' @ error_msg @ nl) else io_return ())
                    (\<lambda>_. sys_exit 1))
             else None)"

definition check_docker_installed :: "runner \<Rightarrow> ppath option \<Rightarrow> unit script" where
  "check_docker_installed run =
     check_docker_cmd run [''docker'', ''--version'']
       ''Docker is not installed or not in PATH. Please install Docker.''"

definition check_docker_buildx_installed :: "runner \<Rightarrow> ppath option \<Rightarrow> unit script" where
  "check_docker_buildx_installed run =
     check_docker_cmd run [''docker'', ''buildx'', ''version'']
       ''Docker Buildx is not installed or not enabled. Please install/enable Docker Buildx.''"

definition check_if_image_exists_locally :: "runner \<Rightarrow> string \<Rightarrow> bool script" where
  "check_if_image_exists_locally run tag =
     io_bind (run_unchecked run (inspect_cmd tag)) (\<lambda>(returncode, _, _). io_return (returncode = 0))"

definition check_if_image_exists_in_remote_registry :: "runner \<Rightarrow> string \<Rightarrow> bool script" where
  "check_if_image_exists_in_remote_registry run tag =
     io_bind (run_unchecked run (manifest_inspect_cmd tag)) (\<lambda>(returncode, _, _). io_return (returncode = 0))"

definition build_image ::
  "runner \<Rightarrow> string \<Rightarrow> string \<Rightarrow> string list \<Rightarrow> string \<Rightarrow> bool \<Rightarrow> unit script" where
  "build_image run tag dockerfile_path build_args_list context_path no_cache =
     io_bind (print_to Stderr (''Building image: '' @ tag @ ''...'')) (\<lambda>_.
     io_bind (io_lift (build_arg_flags build_args_list)) (\<lambda>flags.
     io_bind (run_checked run (docker_build_cmd tag dockerfile_path no_cache flags context_path)) (\<lambda>_.
     print_to Stderr ('' [OK]'' @ nl))))"

definition pull_image_from_registry :: "runner \<Rightarrow> string \<Rightarrow> unit script" where
  "pull_image_from_registry run tag =
     io_bind (print_to Stderr (''Pulling image: '' @ tag @ ''...'')) (\<lambda>_.
     io_bind (run_checked run (pull_cmd tag)) (\<lambda>_.
     print_to Stderr ('' [OK]'' @ nl)))"

definition push_image_to_registry :: "runner \<Rightarrow> string \<Rightarrow> unit script" where
  "push_image_to_registry run tag =
     io_bind (print_to Stderr (''Pushing image: '' @ tag @ ''...'')) (\<lambda>_.
     io_bind (run_unchecked run (push_cmd tag)) (\<lambda>(returncode, _, _).
     if returncode = 0 then print_to Stderr ('' [OK]'' @ nl) else print_to Stderr ('' [FAILED]'' @ nl)))"

text \<open>The handlers of \<^verbatim>\<open>manage_docker_image\<close>.\<close>

fun manage_failed :: "exn \<Rightarrow> unit script option" where
  "manage_failed (CalledProcessError cmd returncode out err) =
     Some (io_bind (print_to Stderr ('' [FAILED]'' @ nl))
       (\<lambda>_. sys_exit (if returncode \<noteq> 0 then returncode else 1)))"
| "manage_failed (FileNotFoundError _) = Some (sys_exit 1)"
| "manage_failed _ = None"

definition manage_docker_image ::
  "runner \<Rightarrow> string \<Rightarrow> string \<Rightarrow> string list \<Rightarrow> string \<Rightarrow> bool \<Rightarrow> bool \<Rightarrow> string \<Rightarrow> unit script" where
  "manage_docker_image run tag dockerfile_path build_args_list context_path local_image_mode no_cache repo =
     io_catch
       (io_bind (if no_cache then io_return False else check_if_image_exists_locally run tag) (\<lambda>here.
        if here then io_return ()
        else if repo = [] \<or> local_image_mode
        then build_image run tag dockerfile_path build_args_list context_path no_cache
        else
          io_bind (if no_cache then io_return False else check_if_image_exists_in_remote_registry run tag) (\<lambda>there.
          if there then pull_image_from_registry run tag
          else
            io_bind (build_image run tag dockerfile_path build_args_list context_path no_cache) (\<lambda>_.
            push_image_to_registry run tag))))
       manage_failed"

section \<open>All images\<close>

text \<open>The list handed to \<^verbatim>\<open>manage_docker_image\<close>: the tags of the dependencies, then the extra arguments.\<close>

definition build_args_for_manage ::
  "builder \<Rightarrow> string \<Rightarrow> (string \<times> string) list \<Rightarrow> string dict \<Rightarrow> string list res" where
  "build_args_for_manage b image_name dependencies tags =
     res_bind (res_map (\<lambda>(arg_name, dep). res_bind (dict_item tags dep) (\<lambda>t. Inr [arg_name, t])) dependencies)
       (\<lambda>dep_args. Inr (concat dep_args @ concat (map (\<lambda>(k, v). [k, v]) (extra_args b image_name))))"

text \<open>The body of the loop of \<^verbatim>\<open>build_images\<close> after the tag is known.\<close>

definition process_image ::
  "runner \<Rightarrow> builder \<Rightarrow> bool \<Rightarrow> bool \<Rightarrow> string \<Rightarrow> string \<Rightarrow> string dict \<Rightarrow> unit script" where
  "process_image run b no_cache local_flag image_name tag tags =
     io_bind (io_lift (dict_item (b_images b) image_name)) (\<lambda>image_conf.
     io_bind (if local_flag then io_return True
              else io_bind (io_lift (py_get image_conf ''local'' (JBool False)))
                     (\<lambda>v. io_return (py_truth v))) (\<lambda>local_image_mode.
     io_bind (query (\<lambda>w. (find_dockerfile (w_fs w) (w_cwd w) (b_search_paths b) image_name, w_fs w, w_cwd w)))
       (\<lambda>(found, fs, cwd).
     case found of
       None \<Rightarrow> sys_exit 1
     | Some potential_path \<Rightarrow>
         let dockerfile_path = realpath fs cwd potential_path;
             context_path = path_parent dockerfile_path
         in
         io_bind (io_lift (conf_deps image_conf)) (\<lambda>dependencies.
         io_bind (io_lift (build_args_for_manage b image_name dependencies tags)) (\<lambda>build_args.
         manage_docker_image run tag (path_str dockerfile_path) build_args (path_str context_path)
           local_image_mode no_cache (b_repo b))))))"

fun build_loop ::
  "runner \<Rightarrow> nat \<Rightarrow> builder \<Rightarrow> string option \<Rightarrow> bool \<Rightarrow> bool \<Rightarrow> string list \<Rightarrow> string dict \<Rightarrow> string dict script" where
  "build_loop run limit b target_for_print no_cache local_flag [] tags = io_return tags"
| "build_loop run limit b target_for_print no_cache local_flag (image_name # rest) tags =
     io_bind (query_res (\<lambda>w. calculate_tag_for_image limit (w_fs w) (w_cwd w) b image_name tags)) (\<lambda>(tag, tags').
     io_bind (process_image run b no_cache local_flag image_name tag tags') (\<lambda>_.
     if target_for_print = Some image_name
     then io_bind (print_to Stdout (tag @ nl)) (\<lambda>_. sys_exit 0)
     else build_loop run limit b target_for_print no_cache local_flag rest tags'))"

definition build_images ::
  "runner \<Rightarrow> nat \<Rightarrow> set_order \<Rightarrow> (string list \<Rightarrow> string) \<Rightarrow> builder \<Rightarrow> string list \<Rightarrow> bool \<Rightarrow> bool \<Rightarrow> bool
   \<Rightarrow> string dict \<Rightarrow> string dict script" where
  "build_images run limit so pop b target_images print_tag_mode no_cache local_flag tags =
     io_bind (io_lift (get_build_order so pop target_images b)) (\<lambda>images_to_process.
     io_bind (if print_tag_mode
              then (case target_images of [] \<Rightarrow> io_raise IndexError | t # _ \<Rightarrow> io_return (Some t))
              else io_return None) (\<lambda>target_for_print.
     build_loop run limit b target_for_print no_cache local_flag images_to_process tags))"

section \<open>The command line\<close>

record build_args =
  ba_target_images :: "string list"
  ba_print_tag :: bool
  ba_config :: ppath
  ba_search_path :: "ppath list"
  ba_local_only :: bool
  ba_no_cache :: bool
  ba_log_file :: "ppath option"

definition check_targets :: "bool \<Rightarrow> string list \<Rightarrow> string list \<Rightarrow> unit res" where
  "check_targets print_tag targets all_image_names =
     (if print_tag
      then if length targets \<noteq> 1 then Inl (SystemExit 1)
           else if hd targets \<notin> set all_image_names then Inl (SystemExit 1) else Inr ()
      else res_for (\<lambda>ti. if ti \<notin> set all_image_names then Inl (SystemExit 1) else Inr ()) targets)"

definition build_main ::
  "runner \<Rightarrow> nat \<Rightarrow> set_order \<Rightarrow> (string list \<Rightarrow> string) \<Rightarrow> build_args \<Rightarrow> unit script" where
  "build_main run limit so pop args =
     io_bind (check_docker_installed run (ba_log_file args)) (\<lambda>_.
     io_bind (check_docker_buildx_installed run (ba_log_file args)) (\<lambda>_.
     io_bind (query_res (\<lambda>w. docker_builder (w_fs w) (w_cwd w) (ba_config args) (ba_search_path args))) (\<lambda>b.
     io_bind (io_lift (check_targets (ba_print_tag args) (ba_target_images args) (dict_keys (b_images b)))) (\<lambda>_.
     io_bind (build_images run limit so pop b (ba_target_images args) (ba_print_tag args) (ba_no_cache args)
                (ba_local_only args) []) (\<lambda>_. io_return ())))))"

text \<open>\<^verbatim>\<open>ensure_cloudsdk_python_is_set\<close>, run on import.\<close>

definition ensure_cloudsdk_python_is_set :: "unit script" where
  "ensure_cloudsdk_python_is_set = (\<lambda>w.
     (Inr (),
      if dict_has ''CLOUDSDK_PYTHON'' (w_env w) then w
      else (case List.find (\<lambda>c. path_exists (w_fs w) (w_cwd w) (to_path c)) [''/usr/bin/python3'', ''/usr/bin/python''] of
          None \<Rightarrow> w
        | Some c \<Rightarrow> w\<lparr>w_env := AList.update ''CLOUDSDK_PYTHON'' c (w_env w)\<rparr>)))"

end
