(* ===== verification/Docker_Images_Spec.thy ===== *)
theory Docker_Images_Spec
  imports Docker_Images
begin

text \<open>
  What the image builder does to the world: a locale for state relations that docker clients keep,
  interpreted for the trace, for the files and for the set of images docker has; which commands are
  run, which images are there at the end and how failures are reported.
\<close>

section \<open>State relations of a docker client\<close>

definition cmds_ok :: "(string list \<Rightarrow> bool) \<Rightarrow> string \<Rightarrow> bool" where
  "cmds_ok ok tag \<longleftrightarrow> ok (inspect_cmd tag) \<and>
     (\<forall>df nc flags ctx. ok (docker_build_cmd tag df nc flags ctx))"

definition remote_ok :: "(string list \<Rightarrow> bool) \<Rightarrow> string \<Rightarrow> bool" where
  "remote_ok ok tag \<longleftrightarrow> ok (manifest_inspect_cmd tag) \<and> ok (pull_cmd tag) \<and> ok (push_cmd tag)"

locale docker_client = state_rel R for R :: "world \<Rightarrow> world \<Rightarrow> bool" +
  fixes run :: runner and ok :: "string list \<Rightarrow> bool" and out :: "string \<Rightarrow> bool"
  assumes print_err: "keeps R (print_to Stderr m)"
    and print_out: "out m \<Longrightarrow> keeps R (print_to Stdout m)"
    and exec: "ok cmd \<Longrightarrow> keeps R (run_unchecked run cmd)"
begin

lemma keeps_pure: "keeps R (query f)" "keeps R (query_res g)" "keeps R (sys_exit n)"
  by (simp_all add: keeps_def query_def query_res_def sys_exit_def io_raise_def R_refl)

lemma exec_checked: "ok cmd \<Longrightarrow> keeps R (run_checked run cmd)"
  unfolding run_checked_def by (intro keeps_bind exec) (auto intro: keeps_rules split: prod.split)

lemma keeps_check: "ok cmd \<Longrightarrow> keeps R (check_docker_cmd run cmd msg lf)"
  unfolding check_docker_cmd_def
  by (intro keeps_catch keeps_bind exec_checked keeps_return)
    (auto intro!: keeps_bind keeps_return keeps_pure print_err split: if_splits)

lemma keeps_build_image: "cmds_ok ok tag \<Longrightarrow> keeps R (build_image run tag df args ctx nc)"
  unfolding build_image_def
  by (intro keeps_bind print_err keeps_lift exec_checked) (simp add: cmds_ok_def)

lemma keeps_manage_failed: "manage_failed e = Some k \<Longrightarrow> keeps R k"
  by (cases e rule: manage_failed.cases) (auto intro!: keeps_bind print_err keeps_pure)

lemma keeps_manage:
  assumes c: "cmds_ok ok tag" and r: "repo \<noteq> [] \<Longrightarrow> \<not> local \<Longrightarrow> remote_ok ok tag"
  shows "keeps R (manage_docker_image run tag df args ctx local nc repo)"
proof -
  have insp: "keeps R (check_if_image_exists_locally run tag)"
    unfolding check_if_image_exists_locally_def
    by (intro keeps_bind exec) (use c in \<open>auto simp: cmds_ok_def intro: keeps_return split: prod.split\<close>)
  have man: "keeps R (check_if_image_exists_in_remote_registry run tag)"
    and pull: "keeps R (pull_image_from_registry run tag)"
    and push: "keeps R (push_image_to_registry run tag)" if "repo \<noteq> []" "\<not> local"
    unfolding check_if_image_exists_in_remote_registry_def pull_image_from_registry_def
      push_image_to_registry_def
    by ((intro keeps_bind exec exec_checked print_err;
        use r [OF that] in \<open>auto simp: remote_ok_def intro!: keeps_return print_err split: prod.split\<close>)+)
  show ?thesis
    unfolding manage_docker_image_def
    by (intro keeps_catch keeps_bind)
      (auto intro!: keeps_return keeps_bind insp man pull push keeps_build_image c
        dest: keeps_manage_failed)
qed

lemma keeps_process:
  assumes "\<And>t. cmds_ok ok t" and "\<And>t. b_repo b \<noteq> [] \<Longrightarrow> \<not> local \<Longrightarrow> remote_ok ok t"
  shows "keeps R (process_image run b nc local x tag tags)"
proof (cases "local")
  case True
  show ?thesis unfolding process_image_def Let_def
    by (simp add: True)
      (auto intro!: keeps_bind keeps_lift keeps_return keeps_pure keeps_manage assms(1)
        split: prod.split option.split)
next
  case False
  then show ?thesis unfolding process_image_def Let_def
    by (auto intro!: keeps_bind keeps_lift keeps_return keeps_pure keeps_manage assms
        split: prod.split option.split)
qed

lemma keeps_build_loop:
  assumes "\<And>t. cmds_ok ok t" and "\<And>t. b_repo b \<noteq> [] \<Longrightarrow> \<not> local \<Longrightarrow> remote_ok ok t"
    and "\<And>t. target \<noteq> None \<Longrightarrow> out (t @ nl)"
  shows "keeps R (build_loop run limit b target nc local xs tags)"
proof (induction xs arbitrary: tags)
  case (Cons x xs)
  show ?case
    by (auto intro!: keeps_bind keeps_pure keeps_process assms print_out Cons.IH split: prod.split)
qed (simp add: keeps_return)

lemma keeps_build_images:
  assumes "\<And>t. cmds_ok ok t" and "\<And>t. b_repo b \<noteq> [] \<Longrightarrow> \<not> local \<Longrightarrow> remote_ok ok t"
    and "\<And>t. print_tag \<Longrightarrow> out (t @ nl)"
  shows "keeps R (build_images run limit so pop b targets print_tag nc local tags)"
proof (cases print_tag)
  case True
  then show ?thesis unfolding build_images_def
    by (auto intro!: keeps_bind keeps_lift keeps_return keeps_raise keeps_build_loop assms
        split: list.split)
next
  case False
  then show ?thesis unfolding build_images_def
    by (simp, intro keeps_bind keeps_lift keeps_build_loop) (use assms in auto)
qed

end

section \<open>Interpretations\<close>

text \<open>The trace: only permitted commands and permitted output.\<close>

definition permitted :: "(string list \<Rightarrow> bool) \<Rightarrow> (string \<Rightarrow> bool) \<Rightarrow> effect \<Rightarrow> bool" where
  "permitted ok out e = (case e of Exec cmd \<Rightarrow> ok cmd | Killed cmd \<Rightarrow> False | Out Stderr m \<Rightarrow> True | Out Stdout m \<Rightarrow> out m)"

interpretation trace: docker_client "extends (permitted ok out)" run ok out
  by unfold_locales
    (auto intro!: keeps_print keeps_run_unchecked simp: permitted_def)

text \<open>The files and the working directory, when the programs leave the files alone.\<close>

definition site :: "world \<Rightarrow> fsys \<times> loc" where
  "site w = (w_fs w, w_cwd w)"

definition same_site :: "runner \<Rightarrow> world \<Rightarrow> world \<Rightarrow> bool" where
  "same_site run w w' \<longleftrightarrow> (files_kept run \<longrightarrow> site w' = site w)"

interpretation site: docker_client "same_site run" run "\<lambda>_. True" "\<lambda>_. True"
proof
  show "keeps (same_site run) (run_unchecked run cmd)" for cmd
    by (auto simp: keeps_def same_site_def site_def run_unchecked_def files_kept_def Let_def
        split: prod.splits proc.splits) (metis snd_conv)+
qed (auto simp: keeps_def same_site_def site_def print_to_def)

text \<open>
  What the builder relies on docker for, with \<open>P w\<close> the set of tags the daemon has: \<^verbatim>\<open>inspect\<close> succeeds only for an
  image that is there, a successful \<^verbatim>\<open>build --tag\<close> or \<^verbatim>\<open>pull\<close> leaves the image there, and nothing but
  \<^verbatim>\<open>docker rmi\<close> takes one away.
\<close>

definition ran :: "runner \<Rightarrow> world \<Rightarrow> string list \<Rightarrow> world" where
  "ran run w cmd = snd (run_unchecked run cmd w)"

definition succeeds :: "runner \<Rightarrow> world \<Rightarrow> string list \<Rightarrow> bool" where
  "succeeds run w cmd \<longleftrightarrow> (case fst (run w cmd) of Exited rc _ _ \<Rightarrow> rc = 0 | _ \<Rightarrow> False)"

definition is_rmi :: "string list \<Rightarrow> bool" where
  "is_rmi cmd \<longleftrightarrow> take 2 cmd = [''docker'', ''rmi'']"

definition docker_daemon :: "runner \<Rightarrow> (world \<Rightarrow> string set) \<Rightarrow> bool" where
  "docker_daemon run P \<longleftrightarrow>
     (\<forall>w t. succeeds run w (inspect_cmd t) \<longrightarrow> t \<in> P w) \<and>
     (\<forall>w t df nc flags ctx. succeeds run w (docker_build_cmd t df nc flags ctx) \<longrightarrow>
        t \<in> P (ran run w (docker_build_cmd t df nc flags ctx))) \<and>
     (\<forall>w t. succeeds run w (pull_cmd t) \<longrightarrow> t \<in> P (ran run w (pull_cmd t))) \<and>
     (\<forall>w cmd. \<not> is_rmi cmd \<longrightarrow> P w \<subseteq> P (ran run w cmd)) \<and>
     (\<forall>w s m. P w \<subseteq> P (snd (print_to s m w)))"

definition images_grow :: "runner \<Rightarrow> (world \<Rightarrow> string set) \<Rightarrow> world \<Rightarrow> world \<Rightarrow> bool" where
  "images_grow run P w w' \<longleftrightarrow> (docker_daemon run P \<longrightarrow> P w \<subseteq> P w')"

interpretation images: docker_client "images_grow run P" run "\<lambda>cmd. \<not> is_rmi cmd" "\<lambda>_. True"
  by unfold_locales
    (auto simp: images_grow_def keeps_def docker_daemon_def ran_def)

lemma not_rmi [simp]:
  "\<not> is_rmi (inspect_cmd t)" "\<not> is_rmi (docker_build_cmd t df nc flags ctx)"
  "\<not> is_rmi (manifest_inspect_cmd t)" "\<not> is_rmi (pull_cmd t)" "\<not> is_rmi (push_cmd t)"
  by (simp_all add: is_rmi_def inspect_cmd_def docker_build_cmd_def manifest_inspect_cmd_def
      pull_cmd_def push_cmd_def)

lemma cmds_ok_not_rmi [simp]: "cmds_ok (\<lambda>cmd. \<not> is_rmi cmd) t" "remote_ok (\<lambda>cmd. \<not> is_rmi cmd) t"
  by (simp_all add: cmds_ok_def remote_ok_def)

lemma cmds_ok_True [simp]: "cmds_ok (\<lambda>_. True) t" "remote_ok (\<lambda>_. True) t"
  by (simp_all add: cmds_ok_def remote_ok_def)

section \<open>The image is there afterwards\<close>

lemma run_unchecked_InrD:
  assumes "run_unchecked run cmd w = (Inr (rc, out, err), w')"
  shows "w' = ran run w cmd" and "rc = 0 \<longleftrightarrow> succeeds run w cmd"
  using assms unfolding ran_def succeeds_def
  by (auto simp: run_unchecked_def Let_def split: prod.splits proc.splits)

lemma run_checked_InrD:
  assumes "run_checked run cmd w = (Inr r, w')"
  shows "w' = ran run w cmd" and "succeeds run w cmd"
proof -
  obtain rc out err w1 where u: "run_unchecked run cmd w = (Inr (rc, out, err), w1)"
    and r: "(if rc = 0 then io_return (out, err) else io_raise (CalledProcessError cmd rc out err)) w1 = (Inr r, w')"
    using assms unfolding run_checked_def by (elim io_bind_InrE) auto
  show "w' = ran run w cmd" "succeeds run w cmd"
    using r run_unchecked_InrD [OF u] by (auto simp: io_return_def io_raise_def split: if_splits)
qed

lemma print_grow: "docker_daemon run P \<Longrightarrow> print_to s m w = (r, w') \<Longrightarrow> P w \<subseteq> P w'"
  unfolding docker_daemon_def by (metis snd_conv)

lemma build_image_present:
  assumes D: "docker_daemon run P" and "build_image run tag df args ctx nc w = (Inr u, w')"
  shows "tag \<in> P w'"
proof -
  from assms(2) obtain flags w1 w2 r where
    b: "run_checked run (docker_build_cmd tag df nc flags ctx) w1 = (Inr r, w2)"
    and p: "print_to Stderr ('' [OK]'' @ nl) w2 = (Inr u, w')"
    unfolding build_image_def by (elim io_bind_InrE) blast
  have "tag \<in> P w2" using D run_checked_InrD [OF b] unfolding docker_daemon_def by blast
  with print_grow [OF D p] show ?thesis by blast
qed

lemma pull_image_present:
  assumes D: "docker_daemon run P" and "pull_image_from_registry run tag w = (Inr u, w')"
  shows "tag \<in> P w'"
proof -
  from assms(2) obtain w1 w2 r where
    b: "run_checked run (pull_cmd tag) w1 = (Inr r, w2)"
    and p: "print_to Stderr ('' [OK]'' @ nl) w2 = (Inr u, w')"
    unfolding pull_image_from_registry_def by (elim io_bind_InrE) blast
  have "tag \<in> P w2" using D run_checked_InrD [OF b] unfolding docker_daemon_def by blast
  with print_grow [OF D p] show ?thesis by blast
qed

lemma push_grow:
  assumes "docker_daemon run P" and "push_image_to_registry run tag w = (r, w')"
  shows "P w \<subseteq> P w'"
proof -
  have "keeps (images_grow run P) (push_image_to_registry run tag)"
    unfolding push_image_to_registry_def
    by (intro images.keeps_bind images.print_err images.exec) (auto intro: images.print_err split: prod.split)
  from keepsD [OF this assms(2)] assms(1) show ?thesis by (simp add: images_grow_def)
qed

lemma exists_locally_True:
  assumes D: "docker_daemon run P" and "check_if_image_exists_locally run tag w = (Inr True, w')"
  shows "tag \<in> P w'"
proof -
  from assms(2) obtain rc out err where u: "run_unchecked run (inspect_cmd tag) w = (Inr (rc, out, err), w')"
    and "rc = 0" unfolding check_if_image_exists_locally_def
    by (elim io_bind_InrE) (auto simp: io_return_def)
  with run_unchecked_InrD [OF u] have "succeeds run w (inspect_cmd tag)" "w' = ran run w (inspect_cmd tag)" by auto
  then show ?thesis using D not_rmi(1) unfolding docker_daemon_def by blast
qed

lemma io_catch_InrD:
  assumes "io_catch m h w = (Inr x, w')" and "\<And>e k w. h e = Some k \<Longrightarrow> isl (fst (k w))"
  shows "m w = (Inr x, w')"
proof -
  obtain r w1 where m: "m w = (r, w1)" by fastforce
  show ?thesis
  proof (cases r)
    case (Inl e)
    then obtain k where "h e = Some k" "k w1 = (Inr x, w')"
      using assms(1) m by (auto simp: io_catch_def split: option.splits)
    with assms(2) show ?thesis by (metis fst_conv isl_def sum.disc(2))
  qed (use assms(1) m in \<open>auto simp: io_catch_def\<close>)
qed

lemma manage_failed_exits: "manage_failed e = Some k \<Longrightarrow> isl (fst (k w))"
  by (cases e rule: manage_failed.cases)
    (auto simp: sys_exit_def io_raise_def io_bind_def print_to_def)

lemma manage_catch: "io_catch m manage_failed w = (Inr x, w') \<Longrightarrow> m w = (Inr x, w')"
  by (erule io_catch_InrD) (rule manage_failed_exits)

lemma manage_present:
  assumes D: "docker_daemon run P"
    and m: "manage_docker_image run tag df args ctx local nc repo w = (Inr u, w')"
  shows "tag \<in> P w'"
proof -
  from manage_catch [OF m [unfolded manage_docker_image_def]] obtain here w1 where
    h: "(if nc then io_return False else check_if_image_exists_locally run tag) w = (Inr here, w1)"
    and r: "(if here then io_return ()
        else if repo = [] \<or> local then build_image run tag df args ctx nc
        else io_bind (if nc then io_return False else check_if_image_exists_in_remote_registry run tag)
          (\<lambda>there. if there then pull_image_from_registry run tag
            else io_bind (build_image run tag df args ctx nc) (\<lambda>_. push_image_to_registry run tag))) w1 = (Inr u, w')"
    by (rule io_bind_InrE)
  consider here | "\<not> here" "repo = [] \<or> local" | "\<not> here" "\<not> (repo = [] \<or> local)" by blast
  then show ?thesis
  proof cases
    case 1
    then show ?thesis using h r exists_locally_True [OF D, of tag w w1]
      by (auto simp: io_return_def split: if_splits)
  next
    case 2
    then show ?thesis using r build_image_present [OF D] by auto
  next
    case 3
    with r obtain there w2 where
      "(if there then pull_image_from_registry run tag
        else io_bind (build_image run tag df args ctx nc) (\<lambda>_. push_image_to_registry run tag)) w2 = (Inr u, w')"
      by (auto elim: io_bind_InrE)
    then show ?thesis using pull_image_present [OF D] build_image_present [OF D] push_grow [OF D]
      by (cases there) (auto elim!: io_bind_InrE, blast)
  qed
qed

lemma process_present:
  assumes D: "docker_daemon run P" and m: "process_image run b nc local x tag tags w = (Inr u, w')"
  shows "tag \<in> P w'"
proof -
  obtain df args ctx lm w1 where
    "manage_docker_image run tag df args ctx lm nc (b_repo b) w1 = (Inr u, w')"
    using m unfolding process_image_def Let_def
    by (elim io_bind_InrE) (auto simp: sys_exit_def io_raise_def elim!: io_bind_InrE split: option.splits)
  then show ?thesis by (rule manage_present [OF D])
qed

lemma query_res_bind: "io_bind (query_res g) f w = (case g w of Inl e \<Rightarrow> (Inl e, w) | Inr x \<Rightarrow> f x w)"
  by (auto simp: io_bind_def query_res_def split: sum.splits)

lemma process_site:
  "files_kept run \<Longrightarrow> process_image run b nc local x tag tags w = (r, w') \<Longrightarrow> site w' = site w"
  using keepsD [OF site.keeps_process [of b "local" run nc x tag tags]] by (auto simp: same_site_def)

lemma build_loop_grow:
  "docker_daemon run P \<Longrightarrow> build_loop run limit b target nc local xs tags w = (r, w') \<Longrightarrow> P w \<subseteq> P w'"
  using keepsD [OF images.keeps_build_loop [of b "local" target run P limit nc xs tags]]
  by (auto simp: images_grow_def)

text \<open>Every image of the loop has its tag in the memo table and is there at the end.\<close>

lemma build_loop_present:
  assumes D: "docker_daemon run P" and F: "files_kept run"
    and "memo_ok (w_fs w) (w_cwd w) b tags"
    and "build_loop run limit b None nc local xs tags w = (Inr tags', w')"
  shows "memo_ok (w_fs w) (w_cwd w) b tags' \<and> memo_extends tags tags' \<and>
    (\<forall>x \<in> set xs. \<exists>t. map_of tags' x = Some t \<and> t \<in> P w')"
  using assms(3,4)
proof (induction xs arbitrary: tags w)
  case Nil
  then show ?case by (auto simp: io_return_def memo_extends_def)
next
  case (Cons x xs)
  from Cons.prems(2) obtain t tags1 w1 where
    c: "calculate_tag_for_image limit (w_fs w) (w_cwd w) b x tags = Inr (t, tags1)"
    and p: "process_image run b nc local x t tags1 w = (Inr (), w1)"
    and l: "build_loop run limit b None nc local xs tags1 w1 = (Inr tags', w')"
    by (auto simp: query_res_bind elim!: io_bind_InrE split: sum.splits)
  note S = calculate_tag_sound [OF Cons.prems(1) c]
  have s: "w_fs w1 = w_fs w" "w_cwd w1 = w_cwd w" using process_site [OF F p] by (auto simp: site_def)
  note I = Cons.IH [OF _ l, unfolded s]
  have "t \<in> P w'" using process_present [OF D p] build_loop_grow [OF D l] by blast
  moreover have "map_of tags' x = Some t" using S I by (auto simp: memo_extends_def map_le_def dom_def)
  ultimately show ?case using S I memo_extends_trans by auto
qed

lemma build_images_present:
  assumes "docker_daemon run P" and "files_kept run"
    and "set_order_ok so" and "distinct (map fst (b_images b))"
    and "build_images run limit so pop b targets False no_cache local_flag [] w = (Inr tags, w')"
    and "n \<in> wanted b targets"
  shows "\<exists>t. image_tag (w_fs w) (w_cwd w) b n t \<and> t \<in> P w'"
proof -
  from assms(5) obtain xs where xs: "get_build_order so pop targets b = Inr xs"
    and l: "build_loop run limit b None no_cache local_flag xs [] w = (Inr tags, w')"
    by (cases "get_build_order so pop targets b") (auto simp: build_images_def io_raise_def)
  have "memo_ok (w_fs w) (w_cwd w) b []" by (simp add: memo_ok_def)
  note L = build_loop_present [OF assms(1,2) this l]
  show ?thesis using L assms(6) get_build_order_sound(2) [OF assms(3,4) xs] by (fastforce simp: memo_ok_def)
qed

lemma build_images_site:
  assumes "files_kept run" and "build_images run limit so pop b ts print_tag no_cache local_flag tags w = (r, w')"
  shows "w_fs w' = w_fs w" and "w_cwd w' = w_cwd w"
  using keepsD [OF site.keeps_build_images assms(2)] assms(1) by (auto simp: same_site_def site_def)

section \<open>Build arguments and exit codes\<close>

lemma build_arg_flags_pairs:
  "build_arg_flags (concat (map (\<lambda>(k, v). [k, v]) ps)) =
     Inr (concat (map (\<lambda>(k, v). [''--build-arg'', k @ ''='' @ v]) ps))"
  by (induction ps) auto

lemma res_map_deps:
  "res_map (\<lambda>(arg_name, dep). res_bind (dict_item tags dep) (\<lambda>t. Inr [arg_name, t])) ds = Inr xs \<Longrightarrow>
     concat xs = concat (map (\<lambda>(k, v). [k, v]) (map (\<lambda>(a, d). (a, the (map_of tags d))) ds))"
  by (induction ds arbitrary: xs) (auto simp: dict_item_def split: option.splits)

text \<open>The flags the image is built with are its dependencies' tags and the extra arguments.\<close>

lemma build_args_flags:
  assumes "build_args_for_manage b x deps tags = Inr args"
  shows "build_arg_flags args = Inr (concat (map (\<lambda>(k, v). [''--build-arg'', k @ ''='' @ v])
    (map (\<lambda>(a, d). (a, the (map_of tags d))) deps @ extra_args b x)))"
proof -
  from assms obtain xs where
    "res_map (\<lambda>(arg_name, dep). res_bind (dict_item tags dep) (\<lambda>t. Inr [arg_name, t])) deps = Inr xs"
    and "args = concat xs @ concat (map (\<lambda>(k, v). [k, v]) (extra_args b x))"
    by (auto simp: build_args_for_manage_def)
  with res_map_deps have "args = concat (map (\<lambda>(k, v). [k, v])
      (map (\<lambda>(a, d). (a, the (map_of tags d))) deps @ extra_args b x))" by simp
  then show ?thesis by (simp only: build_arg_flags_pairs)
qed

text \<open>How a script may fail on account of docker: with a nonzero exit code, or Ctrl-C.\<close>

definition docker_failure :: "exn \<Rightarrow> bool" where
  "docker_failure e \<longleftrightarrow> e = KeyboardInterrupt \<or> (\<exists>c. c \<noteq> 0 \<and> e = SystemExit c)"

definition raises_only :: "(exn \<Rightarrow> bool) \<Rightarrow> 'a script \<Rightarrow> bool" where
  "raises_only E m \<longleftrightarrow> (\<forall>w e w'. m w = (Inl e, w') \<longrightarrow> E e)"

lemma raises_only_bind:
  "raises_only E m \<Longrightarrow> (\<And>x. raises_only E (f x)) \<Longrightarrow> raises_only E (io_bind m f)"
  unfolding raises_only_def io_bind_def by (auto split: prod.splits sum.splits)

lemma raises_only_simps [simp]:
  "raises_only E (io_return x)" "raises_only E (print_to s m)" "raises_only E (query f)"
  "raises_only E (io_raise e) \<longleftrightarrow> E e" "raises_only E (sys_exit n) \<longleftrightarrow> E (SystemExit n)"
  "raises_only E (io_lift (Inr x))" "raises_only E (io_lift (Inl e)) \<longleftrightarrow> E e"
  by (auto simp: raises_only_def io_return_def print_to_def query_def io_raise_def sys_exit_def io_lift_def)

lemma raises_only_catch:
  assumes "raises_only F m" and "\<And>e. F e \<Longrightarrow> (case h e of None \<Rightarrow> E e | Some k \<Rightarrow> raises_only E k)"
  shows "raises_only E (io_catch m h)"
  using assms unfolding raises_only_def io_catch_def
  by (fastforce split: prod.splits sum.splits option.splits)

definition run_failure :: "exn \<Rightarrow> bool" where
  "run_failure e \<longleftrightarrow> e = KeyboardInterrupt \<or> is_CalledProcessError e \<or> is_FileNotFound e"

lemma raises_run:
  "raises_only run_failure (run_unchecked run cmd)" "raises_only run_failure (run_checked run cmd)"
proof -
  show u: "raises_only run_failure (run_unchecked run cmd)"
    by (auto simp: raises_only_def run_unchecked_def run_failure_def Let_def split: prod.splits proc.splits)
  show "raises_only run_failure (run_checked run cmd)"
    unfolding run_checked_def
    by (rule raises_only_bind [OF u]) (auto simp: run_failure_def split: prod.split)
qed

lemma manage_raises:
  assumes "build_arg_flags args = Inr flags"
  shows "raises_only docker_failure (manage_docker_image run tag df args ctx local nc repo)"
proof -
  have b: "raises_only run_failure (build_image run tag df args ctx nc)" for nc
    unfolding build_image_def assms by (auto intro!: raises_only_bind raises_run)
  have r: "raises_only run_failure (push_image_to_registry run tag)"
    "raises_only run_failure (pull_image_from_registry run tag)"
    "raises_only run_failure (check_if_image_exists_locally run tag)"
    "raises_only run_failure (check_if_image_exists_in_remote_registry run tag)"
    unfolding push_image_to_registry_def pull_image_from_registry_def
      check_if_image_exists_locally_def check_if_image_exists_in_remote_registry_def
    by (auto intro!: raises_only_bind raises_run split: prod.split)
  have h: "case manage_failed e of None \<Rightarrow> docker_failure e | Some k \<Rightarrow> raises_only docker_failure k"
    if "run_failure e" for e
    using that by (cases e rule: manage_failed.cases)
      (auto simp: run_failure_def docker_failure_def intro!: raises_only_bind)
  show ?thesis unfolding manage_docker_image_def
    by (rule raises_only_catch [OF _ h]) (auto intro!: raises_only_bind b r)
qed

section \<open>Standard output\<close>

lemma quiet_printed:
  "extends (permitted ok (\<lambda>_. False)) w w' \<Longrightarrow> printed Stdout (w_trace w') = printed Stdout (w_trace w)"
proof -
  assume "extends (permitted ok (\<lambda>_. False)) w w'"
  then obtain tr where t: "w_trace w' = w_trace w @ tr" "list_all (permitted ok (\<lambda>_. False)) tr"
    by (auto simp: extends_def)
  from t(2) have "printed Stdout tr = []"
    by (induction tr) (auto simp: permitted_def printed_def split: effect.splits stream.splits)
  with t(1) show ?thesis by simp
qed

lemma process_quiet:
  "process_image run b nc local x tag tags w = (r, w') \<Longrightarrow>
     printed Stdout (w_trace w') = printed Stdout (w_trace w)"
  by (rule quiet_printed [OF keepsD [OF trace.keeps_process [of "\<lambda>_. True"]]]) simp_all

lemma process_not_exit0: "process_image run b nc local x tag tags w = (Inl e, w') \<Longrightarrow> e \<noteq> SystemExit 0"
proof -
  let ?E = "\<lambda>e. e \<noteq> SystemExit 0"
  have weak: "raises_only docker_failure m \<Longrightarrow> raises_only ?E m" for m :: "unit script"
    by (auto simp: raises_only_def docker_failure_def)
  have d: "raises_only ?E (io_lift (dict_item imgs k))" for imgs :: "json dict" and k
    by (cases "dict_item imgs k") (auto simp: dict_item_def split: option.splits)
  have g: "raises_only ?E (io_lift (py_get j k v))" for j k v
    by (cases j) auto
  have cd: "raises_only ?E (io_lift (conf_deps j))" for j
    using conf_deps_error [of j] by (cases "conf_deps j") auto
  have m: "raises_only ?E (io_bind (io_lift (build_args_for_manage b x ds tags)) (\<lambda>args.
      manage_docker_image run tag df args ctx lm nc repo))" for ds df ctx lm repo
  proof (cases "build_args_for_manage b x ds tags")
    case (Inl e)
    have "res_map (\<lambda>(arg_name, dep). res_bind (dict_item tags dep) (\<lambda>t. Inr [arg_name, t])) ds \<noteq> Inl (SystemExit 0)"
      by (induction ds) (auto simp: res_bind_Inl_iff dict_item_def split: option.splits)
    then have "e \<noteq> SystemExit 0" using Inl by (auto simp: build_args_for_manage_def res_bind_Inl_iff)
    then show ?thesis by (simp add: Inl)
  next
    case (Inr args)
    then show ?thesis using weak [OF manage_raises [OF build_args_flags [OF Inr]]] by simp
  qed
  have "raises_only ?E (process_image run b nc local x tag tags)"
    unfolding process_image_def Let_def
    by (auto intro!: raises_only_bind d g cd m split: prod.split option.split)
  then show "process_image run b nc local x tag tags w = (Inl e, w') \<Longrightarrow> e \<noteq> SystemExit 0"
    by (auto simp: raises_only_def)
qed

lemma calculate_tag_not_exit0:
  "calculate_tag_for_image limit fs cwd b x tags \<noteq> Inl (SystemExit 0)"
proof (induction limit arbitrary: x tags)
  case (Suc limit)
  have conf: "conf_deps conf \<noteq> Inl (SystemExit 0)" for conf
    using conf_deps_error [of conf] by auto
  have loop: "dep_tag_loop limit fs cwd b ds s \<noteq> Inl (SystemExit 0)" for ds s
  proof (induction ds arbitrary: s)
    case (Cons d ds)
    then show ?case using Suc.IH by (cases d; cases s) (auto simp: dep_tag_loop_simps res_bind_Inl_iff)
  qed (simp add: dep_tag_loop_simps)
  have rd: "read_bytes fs cwd p \<noteq> Inl (SystemExit 0)" for p
    by (auto simp: read_bytes_def split: option.splits node.splits)
  show ?case unfolding calculate_tag_unfold
    using conf loop rd
    by (cases "map_of tags x"; cases "find_dockerfile fs cwd (b_search_paths b) x")
      (auto simp: res_bind_Inl_iff dict_item_def calculate_sha256_def split: option.splits)
qed simp

lemma tag_printed:
  assumes D: "docker_daemon run P" and "process_image run b nc local x t tags w = (Inr u, w1)"
    and "io_bind (print_to Stdout (t @ nl)) (\<lambda>_. sys_exit 0) w1 = (r, w')"
  shows "r = Inl (SystemExit 0) \<and> t \<in> P w' \<and> printed Stdout (w_trace w') = printed Stdout (w_trace w1) @ [t @ nl]"
proof -
  have w': "r = Inl (SystemExit 0)" "w' = snd (print_to Stdout (t @ nl) w1)"
    using assms(3) by (auto simp: io_bind_def print_to_def sys_exit_def io_raise_def)
  have "t \<in> P w1" by (rule process_present [OF D]) (use assms(2) in simp)
  then have "t \<in> P w'" using print_grow [OF D, of Stdout "t @ nl" w1] w' by (metis prod.collapse subsetD)
  then show ?thesis by (simp add: w' print_to_def)
qed

text \<open>Standard output gets nothing, or the tag of the target when the exit code is 0.\<close>

lemma build_loop_prints:
  assumes D: "docker_daemon run P" and F: "files_kept run"
    and "memo_ok (w_fs w) (w_cwd w) b tags"
    and "build_loop run limit b (Some x) nc local xs tags w = (r, w')"
  shows "if r = Inl (SystemExit 0)
    then \<exists>t. image_tag (w_fs w) (w_cwd w) b x t \<and> t \<in> P w' \<and>
      printed Stdout (w_trace w') = printed Stdout (w_trace w) @ [t @ nl]
    else printed Stdout (w_trace w') = printed Stdout (w_trace w) \<and> (\<not> isl r \<longrightarrow> x \<notin> set xs)"
  using assms(3,4)
proof (induction xs arbitrary: tags w)
  case Nil
  then show ?case by (auto simp: io_return_def)
next
  case (Cons y xs)
  show ?case
  proof (cases "calculate_tag_for_image limit (w_fs w) (w_cwd w) b y tags")
    case (Inl e)
    then show ?thesis using Cons.prems(2) calculate_tag_not_exit0 by (auto simp: query_res_bind)
  next
    case (Inr p)
    obtain t tags1 where p: "p = (t, tags1)" by fastforce
    note S = calculate_tag_sound [OF Cons.prems(1) Inr [unfolded p]]
    obtain q w1 where pr: "process_image run b nc local y t tags1 w = (q, w1)" by fastforce
    note Q = process_quiet [OF pr]
    show ?thesis
    proof (cases q)
      case q: (Inl e)
      then have "r = Inl e" "w' = w1"
        using Cons.prems(2) pr Inr by (auto simp: query_res_bind p io_bind_apply_Inl)
      then show ?thesis using Q process_not_exit0 [OF pr [unfolded q]] by simp
    next
      case q: (Inr u)
      have s: "w_fs w1 = w_fs w" "w_cwd w1 = w_cwd w" using process_site [OF F pr] by (auto simp: site_def)
      show ?thesis
      proof (cases "y = x")
        case True
        then have "io_bind (print_to Stdout (t @ nl)) (\<lambda>_. sys_exit 0) w1 = (r, w')"
          using Cons.prems(2) pr Inr q by (simp add: query_res_bind p io_bind_apply)
        from tag_printed [OF D pr [unfolded q] this] show ?thesis using S True Q by auto
      next
        case False
        then have "build_loop run limit b (Some x) nc local xs tags1 w1 = (r, w')"
          using Cons.prems(2) pr Inr q by (simp add: query_res_bind p io_bind_apply)
        from Cons.IH [OF _ this, unfolded s] S Q False show ?thesis by (auto split: if_splits)
      qed
    qed
  qed
qed

section \<open>Properties\<close>

text \<open>A docker daemon for the witnesses: it has the images that were built or pulled.\<close>

definition made :: "world \<Rightarrow> string set" where
  "made w = {t. \<exists>cmd \<in> set (execs (w_trace w)). cmd = pull_cmd t \<or>
     (\<exists>df nc flags ctx. cmd = docker_build_cmd t df nc flags ctx)}"

definition demo_docker :: runner where
  "demo_docker w cmd =
     (if length cmd = 4 \<and> take 3 cmd = [''docker'', ''image'', ''inspect''] then Exited 1 [] []
      else Exited 0 [] [], w_fs w)"

lemma demo_docker_daemon: "docker_daemon demo_docker made"
proof -
  have t: "w_trace (ran demo_docker w cmd) = w_trace w @ [Exec cmd]" for w cmd
    by (simp add: ran_def run_unchecked_def demo_docker_def)
  have mono: "made w \<subseteq> made (ran demo_docker w cmd)" "made w \<subseteq> made (snd (print_to s m w))" for w cmd s m
    unfolding made_def by (simp_all add: t print_to_def) blast
  have new: "t \<in> made (ran demo_docker w (docker_build_cmd t df nc flags ctx))"
    "t \<in> made (ran demo_docker w (pull_cmd t))" for w t df nc flags ctx
    by (auto simp: made_def t)
  have "\<not> succeeds demo_docker w (inspect_cmd t)" for w t
    by (simp add: succeeds_def demo_docker_def inspect_cmd_def)
  then show ?thesis unfolding docker_daemon_def using mono new by blast
qed

lemma demo_docker_files: "files_kept demo_docker"
  by (simp add: files_kept_def demo_docker_def)

definition demo_world :: world where
  "demo_world = \<lparr>w_fs = demo_fs, w_cwd = [''w''], w_env = [], w_trace = []\<rparr>"

definition demo_tag :: string where
  "demo_tag = get_image_tag demo_builder ''base'' (sha256_hex ''FROM debian'')"

lemma demo_process:
  "calculate_tag_for_image 2 demo_fs [''w''] demo_builder ''base'' [] = Inr (demo_tag, [(''base'', demo_tag)])"
  unfolding numeral_2_eq_2 calculate_tag_unfold demo_tag_def
  by (simp add: demo_sp demo_base dict_item_def conf_deps_def dep_tag_loop_simps calculate_sha256_def
      sha_args_def)

lemma demo_build_images:
  "\<exists>w'. build_images demo_docker 2 remdups hd demo_builder [''base''] False False False [] demo_world =
     (Inr [(''base'', demo_tag)], w')"
proof -
  have "b_repo demo_builder = []" by (simp add: demo_builder_def new_builder_def)
  then have "\<exists>w'. process_image demo_docker demo_builder False False ''base'' demo_tag [(''base'', demo_tag)] demo_world
      = (Inr (), w')"
    by (simp add: process_image_def dict_item_def demo_sp demo_base io_bind_def io_lift_def io_return_def
        query_def demo_world_def conf_deps_def build_args_for_manage_def manage_docker_image_def io_catch_def
        check_if_image_exists_locally_def build_image_def run_checked_def run_unchecked_def demo_docker_def
        inspect_cmd_def print_to_def docker_build_cmd_def Let_def)
  then show ?thesis
    by (auto simp: build_images_def demo_base query_res_bind demo_world_def demo_process io_bind_apply io_return_def)
qed

text \<open>
  C1: when \<^verbatim>\<open>build_images\<close> returns, every image of the run is available to docker under the tag that
  its Dockerfile, settings and dependencies determine, whether it was there, pulled or built.
\<close>

theorem images_available_after_build:
  assumes "docker_daemon run P" and "files_kept run"
    and "set_order_ok so" and "distinct (map fst (b_images b))"
    and "build_images run limit so pop b targets False no_cache local_flag [] w = (Inr tags, w')"
  shows "wanted b targets \<subseteq> {n. \<exists>t. image_tag (w_fs w) (w_cwd w) b n t \<and> t \<in> P w'}"
  using build_images_present [OF assms] by blast

theorem images_available_after_build_witness:
  "\<exists>w'. wanted demo_builder [''base''] \<subseteq>
     {n. \<exists>t. image_tag (w_fs demo_world) (w_cwd demo_world) demo_builder n t \<and> t \<in> made w'}"
  using demo_build_images images_available_after_build
    [OF demo_docker_daemon demo_docker_files set_order_remdups demo_facts(1)] by blast

definition local_cmd :: "string list \<Rightarrow> bool" where
  "local_cmd cmd \<longleftrightarrow> take 3 cmd = [''docker'', ''image'', ''inspect''] \<or> take 3 cmd = [''docker'', ''buildx'', ''build'']"

text \<open>
  C19: with \<^verbatim>\<open>--local\<close> or without a registry, \<^verbatim>\<open>build_images\<close> runs no \<^verbatim>\<open>docker pull\<close>, \<^verbatim>\<open>docker push\<close> or
  \<^verbatim>\<open>docker manifest\<close>: every command it runs is an \<^verbatim>\<open>image inspect\<close> or a \<^verbatim>\<open>buildx build\<close>.
\<close>

theorem local_mode_stays_local:
  assumes "local_flag \<or> b_repo b = []"
    and "build_images run limit so pop b targets print_tag_mode no_cache local_flag tags w = (r, w')"
  shows "extends (permitted local_cmd (\<lambda>_. True)) w w'"
proof -
  have c: "cmds_ok local_cmd t" for t
    by (simp add: cmds_ok_def local_cmd_def inspect_cmd_def docker_build_cmd_def)
  have "keeps (extends (permitted local_cmd (\<lambda>_. True)))
      (build_images run limit so pop b targets print_tag_mode no_cache local_flag tags)"
    by (rule trace.keeps_build_images) (use assms(1) c in auto)
  from keepsD [OF this assms(2)] show ?thesis .
qed

theorem local_mode_stays_local_witness:
  "extends (permitted local_cmd (\<lambda>_. True)) demo_world
     (snd (build_images demo_docker 2 remdups hd demo_builder [''base''] True True True [] demo_world))"
  using local_mode_stays_local [of True demo_builder demo_docker 2 remdups hd "[''base'']" True True "[]" demo_world]
  by (metis prod.collapse)

text \<open>
  \<^verbatim>\<open>build_images\<close> in \<^verbatim>\<open>--print-tag\<close> mode writes to standard output exactly one line, the tag of the
  target, and then exits with code 0, the image being available; on any other outcome standard output is untouched.
\<close>

lemma print_tag_prints_only_the_tag:
  assumes "docker_daemon run P" and "files_kept run"
    and "build_images run limit so pop b (x # ts) True no_cache local_flag [] w = (r, w')"
  shows "if r = Inl (SystemExit 0)
    then \<exists>t. image_tag (w_fs w) (w_cwd w) b x t \<and> t \<in> P w' \<and>
      printed Stdout (w_trace w') = printed Stdout (w_trace w) @ [t @ nl]
    else printed Stdout (w_trace w') = printed Stdout (w_trace w)"
proof (cases "get_build_order so pop (x # ts) b")
  case (Inl e)
  have "e \<noteq> SystemExit 0"
  proof (cases "deps_graph so (b_images b)")
    case d: (Inl e')
    then have "e = e'" using Inl by (simp add: get_build_order_eq)
    moreover have "deps_graph so imgs \<noteq> Inl (SystemExit 0)" for imgs
      unfolding deps_graph_def using conf_deps_error [of _ "SystemExit 0"]
      by (induction imgs) (auto simp: res_bind_Inl_iff)
    ultimately show ?thesis using d by auto
  next
    case (Inr g)
    then show ?thesis using Inl
      by (auto simp: get_build_order_eq sort_or_exit_def static_order_def split: if_splits)
  qed
  then show ?thesis using assms(3) Inl by (auto simp: build_images_def io_raise_def)
next
  case (Inr xs)
  then have l: "build_loop run limit b (Some x) no_cache local_flag xs [] w = (r, w')"
    using assms(3) by (simp add: build_images_def)
  have "memo_ok (w_fs w) (w_cwd w) b []" by (simp add: memo_ok_def)
  from build_loop_prints [OF assms(1,2) this l] show ?thesis by (auto split: if_splits)
qed


definition demo_broken_docker :: runner where
  "demo_broken_docker w cmd = (Exited 17 [] [], w_fs w)"

lemma demo_manage_fails:
  "\<exists>w'. manage_docker_image demo_broken_docker ''t:1'' ''/w/D'' [''BASE_IMAGE'', ''b:1''] ''/w'' True False []
      demo_world = (Inl (SystemExit 17), w')"
  by (simp add: io_bind_def io_lift_def io_return_def demo_world_def manage_docker_image_def io_catch_def
        check_if_image_exists_locally_def build_image_def run_checked_def run_unchecked_def demo_broken_docker_def
        io_raise_def sys_exit_def print_to_def Let_def)


end
