(* ===== verification/Docker_Cleanup_Spec.thy ===== *)
theory Docker_Cleanup_Spec
  imports Docker_Cleanup Docker_Images_Spec
begin

text \<open>
  Safety of the image cleanup: what may be removed, that the tags of the current images are not, that
  a cancelled run starts nothing more and that an uncancelled one removes every candidate.
\<close>

section \<open>Tags and the image pattern\<close>

lemma is_hex_hash_char: "is_hex c \<Longrightarrow> hash_char c"
proof -
  assume h: "is_hex c"
  have all: "list_all (\<lambda>n. hash_char (char_of (n::nat))) ([48..<58] @ [97..<103])" by code_simp
  have "(of_char c :: nat) \<in> set ([48..<58] @ [97..<103])" 
    unfolding set_append set_upt using h by (auto simp: is_hex_def)
  with all have "hash_char (char_of (of_char c :: nat))" unfolding list_all_iff by blast
  then show ?thesis by simp
qed

text \<open>A reference the script may remove: devkit images with a name on the allow list and a hash tag.\<close>

definition removable :: "string \<Rightarrow> bool" where
  "removable img \<longleftrightarrow> (\<exists>p n a h t. img = image_ref p n a h t \<and> ref_ok p n a h t \<and> n \<in> set ALLOWED_IMAGE_NAMES)"

text \<open>
  \<^verbatim>\<open>filter_allowed_images\<close> keeps exactly the images of the documented form (\<^verbatim>\<open>$\<close> tolerates one trailing
  newline) whose name is on the allow list.
\<close>

lemma filter_allowed_iff: "img \<in> set (filter_allowed_images imgs) \<longleftrightarrow> img \<in> set imgs \<and> removable img"
proof -
  have "(case re_match IMAGE_PATTERN img of Some (image_name # _) \<Rightarrow> image_name \<in> set ALLOWED_IMAGE_NAMES | _ \<Rightarrow> False)
      \<longleftrightarrow> removable img" (is "?M \<longleftrightarrow> _")
  proof
    assume ?M
    then obtain n gs where m: "re_match IMAGE_PATTERN img = Some (n # gs)" "n \<in> set ALLOWED_IMAGE_NAMES"
      by (auto split: option.splits list.splits)
    with image_pattern_SomeD [OF m(1)] show "removable img" unfolding removable_def by blast
  next
    assume "removable img"
    then obtain p n a h t where "img = image_ref p n a h t" "ref_ok p n a h t" "n \<in> set ALLOWED_IMAGE_NAMES"
      unfolding removable_def by blast
    then show ?M by (simp add: image_pattern_match)
  qed
  then show ?thesis unfolding filter_allowed_images_def by auto
qed

lemma namespace_component:
  assumes "namespace_ok ns"
  shows "\<exists>y. ns = ''devkit'' @ y \<and> (y = [] \<or> (\<exists>b. y = CHR ''/'' # b))"
  using assms by (auto simp: namespace_ok_def)

lemma tag_is_ref:
  assumes b: "builder_ok b" and nl: "CHR 0x0A \<notin> set (b_repo b @ b_namespace b)"
    and n: "name \<noteq> []" "list_all name_char name"
  shows "\<exists>p. get_image_tag b name (sha256_hex m) = image_ref p name ''amd64'' (sha256_hex m) [] \<and>
    ref_ok p name ''amd64'' (sha256_hex m) []"
proof -
  define x where "x = (if b_repo b = [] then [] else b_repo b @ ''/'')"
  obtain y where y: "b_namespace b = ''devkit'' @ y" "y = [] \<or> (\<exists>c. y = CHR ''/'' # c)"
    using namespace_component b unfolding builder_ok_def by blast
  have dots: "list_all re_dot (x @ b_namespace b)"
    using nl by (auto simp: x_def re_dot_def list_all_iff)
  have "''devkit'' \<in> set (split_on (CHR ''/'') (x @ b_namespace b))"
    unfolding component_iff using y by (intro conjI exI [of _ x] exI [of _ y]) (auto simp: x_def)
  moreover have "list_all arch_char ''amd64''" by code_simp
  moreover have "length (sha256_hex m) = 64" "list_all hash_char (sha256_hex m)"
    using sha256.digest_length sha256.digest_hex is_hex_hash_char by (auto simp: list_all_iff)
  ultimately have "ref_ok (x @ b_namespace b) name ''amd64'' (sha256_hex m) []"
    using dots n unfolding ref_ok_def by simp
  moreover have "get_image_tag b name (sha256_hex m) = image_ref (x @ b_namespace b) name ''amd64'' (sha256_hex m) []"
    using b by (simp add: get_image_tag_def image_ref_def x_def builder_ok_def)
  ultimately show ?thesis by blast
qed

section \<open>What the thread keeps\<close>

text \<open>
  A relation on worlds that the commands of the cleanup keep, as long as it only removes images
  that satisfy \<open>ok\<close>: the whole thread keeps it then.
\<close>

definition on_fst :: "('a \<Rightarrow> 'a \<Rightarrow> bool) \<Rightarrow> 'a \<times> 'b \<Rightarrow> 'a \<times> 'b \<Rightarrow> bool" where
  "on_fst Q s s' \<longleftrightarrow> Q (fst s) (fst s')"

lemma keeps_on_world: "keeps Q m \<Longrightarrow> keeps (on_fst Q) (on_world m)"
  by (auto simp: keeps_def on_fst_def on_world_def split: prod.splits) (metis snd_conv)

lemma cleanup_images_eq:
  "cleanup_images run polls limit so pop cancel args (w, k) =
     (if cancel k then (Inr (), (w, Suc k))
      else case get_images_to_cleanup run limit so pop (ca_config_path args) (ca_search_paths args)
          (ca_threshold_days args) w of
        (Inl e, w1) \<Rightarrow> (Inl e, (w1, Suc k))
      | (Inr xs, w1) \<Rightarrow> (case batches (ca_batch_size args) xs of
            Inl e \<Rightarrow> (Inl e, (w1, Suc k))
          | Inr bs \<Rightarrow> batch_loop run polls cancel bs (w1, Suc k)))"
  by (auto simp: cleanup_images_def look_def io_bind_def on_world_def io_lift_def io_return_def
      split: prod.splits sum.splits)

lemma concat_chunks: "0 < n \<Longrightarrow> concat (chunks n xs) = xs"
  by (induction n xs rule: chunks.induct) (subst chunks.simps, auto)

lemma batches_concat: "batches n xs = Inr bs \<Longrightarrow> set (concat bs) \<subseteq> set xs \<and> (0 < n \<longrightarrow> concat bs = xs)"
  by (auto simp: batches_def concat_chunks split: if_splits simp flip: set_concat)

locale image_remover = state_rel Q for Q :: "world \<Rightarrow> world \<Rightarrow> bool" +
  fixes run :: runner and days :: int and ok :: "string \<Rightarrow> bool"
  assumes listing: "keeps Q (run_unchecked run (images_cmd pre days))"
    and rmi: "ok img \<Longrightarrow> keeps Q (run_unchecked run (rmi_cmd img))"
    and kill: "ok img \<Longrightarrow> keeps Q (terminate (rmi_cmd img))"

sublocale image_remover \<subseteq> thread: state_rel "on_fst Q"
  by unfold_locales (auto simp: on_fst_def intro: R_refl R_trans)

context image_remover
begin

lemma keeps_candidates: "keeps Q (get_images_to_cleanup run limit so pop cp sp days)"
proof -
  have q: "keeps Q (query_res f)" for f :: "world \<Rightarrow> 'z res"
    by (simp add: keeps_def query_res_def R_refl)
  have "keeps Q (run_checked run (images_cmd pre days))" for pre
    unfolding run_checked_def by (intro keeps_bind listing) (auto intro: keeps_rules split: prod.split)
  then have "keeps Q (get_images run pre days)" for pre
    unfolding get_images_def by (intro keeps_catch keeps_bind) (auto intro: keeps_rules split: prod.split if_splits)
  then show ?thesis
    unfolding get_images_to_cleanup_def Let_def by (auto intro!: keeps_bind q keeps_return)
qed

lemma keeps_look: "keeps (on_fst Q) (look cancel)"
  by (auto simp: keeps_def on_fst_def look_def intro: R_refl split: prod.splits)

lemma keeps_poll_loop: "ok tag \<Longrightarrow> keeps (on_fst Q) (poll_loop cancel tag n)"
  by (induction n)
    (auto intro!: thread.keeps_bind thread.keeps_return keeps_look keeps_on_world kill)

lemma keeps_remove: "ok tag \<Longrightarrow> keeps (on_fst Q) (remove_image run polls cancel tag)"
  unfolding remove_image_def
  by (intro thread.keeps_catch thread.keeps_bind keeps_on_world rmi keeps_poll_loop)
    (auto simp: keeps_def query_def R_refl io_return_def on_fst_def split: if_splits)

lemma keeps_batch:
  "(\<And>tag. tag \<in> set tags \<Longrightarrow> ok tag) \<Longrightarrow> keeps (on_fst Q) (cleanup_images_batch run polls cancel tags)"
  by (induction tags) (auto intro!: thread.keeps_bind thread.keeps_return keeps_look keeps_remove)

lemma keeps_batch_loop:
  "(\<And>tag. tag \<in> set (concat bs) \<Longrightarrow> ok tag) \<Longrightarrow> keeps (on_fst Q) (batch_loop run polls cancel bs)"
  by (induction bs) (auto intro!: thread.keeps_bind thread.keeps_return keeps_look keeps_batch)

lemma cleanup_related:
  assumes "cleanup_images run polls limit so pop cancel args (w, k) = (r, (w', k'))"
    and "ca_threshold_days args = days"
    and "\<And>xs w1 img. get_images_to_cleanup run limit so pop (ca_config_path args) (ca_search_paths args) days w =
        (Inr xs, w1) \<Longrightarrow> img \<in> set xs \<Longrightarrow> ok img"
  shows "Q w w'"
proof (cases "cancel k")
  case True
  then show ?thesis using assms(1) by (simp add: cleanup_images_eq R_refl)
next
  case False
  obtain q w1 where g: "get_images_to_cleanup run limit so pop (ca_config_path args) (ca_search_paths args) days w =
      (q, w1)" by fastforce
  have 1: "Q w w1" using keepsD [OF keeps_candidates g] .
  show ?thesis
  proof (cases "\<exists>xs bs. q = Inr xs \<and> batches (ca_batch_size args) xs = Inr bs")
    case True
    then obtain xs bs where x: "q = Inr xs" "batches (ca_batch_size args) xs = Inr bs" by blast
    then have b: "batch_loop run polls cancel bs (w1, Suc k) = (r, (w', k'))"
      using assms(1,2) \<open>\<not> cancel k\<close> g by (simp add: cleanup_images_eq)
    have "keeps (on_fst Q) (batch_loop run polls cancel bs)"
      by (rule keeps_batch_loop) (use assms(3) [OF g [unfolded x(1)]] batches_concat [OF x(2)] in blast)
    from keepsD [OF this b] 1 show ?thesis using R_trans by (simp add: on_fst_def)
  next
    case False
    then have "w' = w1" using assms(1,2) \<open>\<not> cancel k\<close> g by (auto simp: cleanup_images_eq split: sum.splits)
    with 1 show ?thesis by simp
  qed
qed

end

text \<open>The trace of the cleanup: listings and removals.\<close>

definition cleanup_effect :: "int \<Rightarrow> (string \<Rightarrow> bool) \<Rightarrow> effect \<Rightarrow> bool" where
  "cleanup_effect days ok e \<longleftrightarrow> (\<exists>pre. e = Exec (images_cmd pre days)) \<or>
     (\<exists>img. (e = Exec (rmi_cmd img) \<or> e = Killed (rmi_cmd img)) \<and> ok img)"

interpretation cleanup_trace: image_remover "extends (cleanup_effect days ok)" run days ok
  by unfold_locales (auto simp: cleanup_effect_def keeps_def terminate_def extends_def
      intro!: keeps_run_unchecked [unfolded keeps_def extends_def, rule_format])

text \<open>The images of a docker for which \<^verbatim>\<open>rmi\<close> takes away nothing but the named tag.\<close>

definition rmi_spares :: "runner \<Rightarrow> (world \<Rightarrow> string set) \<Rightarrow> bool" where
  "rmi_spares run P \<longleftrightarrow> docker_daemon run P \<and>
     (\<forall>w t. P w - {t} \<subseteq> P (ran run w (rmi_cmd t))) \<and>
     (\<forall>w t. P w - {t} \<subseteq> P (snd (terminate (rmi_cmd t) w)))"

definition images_spared :: "runner \<Rightarrow> (world \<Rightarrow> string set) \<Rightarrow> string set \<Rightarrow> world \<Rightarrow> world \<Rightarrow> bool" where
  "images_spared run P T w w' \<longleftrightarrow> (rmi_spares run P \<longrightarrow> P w \<inter> T \<subseteq> P w')"

lemma not_rmi_images [simp]: "\<not> is_rmi (images_cmd pre d)"
  by (simp add: is_rmi_def images_cmd_def)

interpretation spared: image_remover "images_spared run P T" run days "\<lambda>img. img \<notin> T"
proof unfold_locales
  show "keeps (images_spared run P T) (run_unchecked run (images_cmd pre days))" for pre
    unfolding keeps_def images_spared_def rmi_spares_def docker_daemon_def ran_def
    by (metis Int_subset_iff inf.coboundedI1 not_rmi_images)
qed (fastforce simp: keeps_def images_spared_def rmi_spares_def ran_def)+

section \<open>What is selected\<close>

text \<open>Not one of the tags the current images have, as far as these could be calculated.\<close>

definition not_current ::
  "nat \<Rightarrow> set_order \<Rightarrow> (string list \<Rightarrow> string) \<Rightarrow> fsys \<Rightarrow> loc \<Rightarrow> ppath \<Rightarrow> ppath list \<Rightarrow> string \<Rightarrow> bool" where
  "not_current limit so pop fs cwd cp sp img \<longleftrightarrow>
     (case get_all_docker_image_tags limit so pop fs cwd cp sp [] of Inl e \<Rightarrow> is_Exception e | Inr tags \<Rightarrow> img \<notin> set tags)"

lemma get_images_site:
  assumes "files_kept run" and "get_images run pre d w = (r, w')"
  shows "site w' = site w"
proof -
  have "keeps (same_site run) (get_images run pre d)"
    unfolding get_images_def
    by (intro site.keeps_catch site.keeps_bind site.exec_checked)
      (auto intro: site.keeps_return split: prod.split if_splits)
  from keepsD [OF this assms(2)] assms(1) show ?thesis by (simp add: same_site_def)
qed

text \<open>The candidates: listed by docker, removable, and not among the current tags.\<close>

lemma get_images_to_cleanup_result:
  assumes F: "files_kept run" and "get_images_to_cleanup run limit so pop cp sp d w = (Inr xs, w')"
    and "img \<in> set xs"
  shows "removable img \<and> not_current limit so pop (w_fs w) (w_cwd w) cp sp img"
proof -
  from assms(2) obtain pre all w1 where pre: "get_image_prefix (w_fs w) (w_cwd w) cp = Inr pre"
    and g: "get_images run pre d w = (Inr all, w1)"
    and rest: "(if all = [] then io_return []
       else let allowed = filter_allowed_images all in
         if allowed = [] then io_return []
         else io_bind (query_res (\<lambda>w. get_ignored_images limit so pop (w_fs w) (w_cwd w) cp sp))
           (\<lambda>ignored. io_return (filter (\<lambda>img. img \<notin> set ignored) allowed))) w1 = (Inr xs, w')"
    unfolding get_images_to_cleanup_def by (auto simp: query_res_bind elim!: io_bind_InrE split: sum.splits)
  have s: "w_fs w1 = w_fs w" "w_cwd w1 = w_cwd w" using get_images_site [OF F g] by (auto simp: site_def)
  from rest assms(3) obtain ign where
    i: "get_ignored_images limit so pop (w_fs w) (w_cwd w) cp sp = Inr ign"
    and x: "img \<in> set (filter_allowed_images all)" "img \<notin> set ign"
    by (auto simp: Let_def io_return_def query_res_bind s split: if_splits sum.splits)
  have "not_current limit so pop (w_fs w) (w_cwd w) cp sp img"
    using i x(2) by (auto simp: get_ignored_images_def not_current_def res_catch_def split: sum.splits if_splits)
  with x(1) show ?thesis by (simp add: filter_allowed_iff)
qed

section \<open>Cancellation\<close>

definition stays_set :: "(nat \<Rightarrow> bool) \<Rightarrow> bool" where
  "stays_set cancel \<longleftrightarrow> (\<forall>i j. i \<le> j \<longrightarrow> cancel i \<longrightarrow> cancel j)"

abbreviation removals :: "string list \<Rightarrow> effect list" where
  "removals tags \<equiv> map (\<lambda>tag. Exec (rmi_cmd tag)) tags"

text \<open>At most the removal that was running is terminated, and then nothing follows.\<close>

definition kill_tail :: "string list \<Rightarrow> effect list \<Rightarrow> bool" where
  "kill_tail ys tail \<longleftrightarrow> tail = [] \<or> (ys \<noteq> [] \<and> tail = [Killed (rmi_cmd (last ys))])"

lemma look_bind: "io_bind (look cancel) f (w, k) = f (cancel k) (w, Suc k)"
  by (simp add: io_bind_def look_def)

lemma poll_loop_result:
  "poll_loop cancel tag n (w, k) = (r, (w', k')) \<Longrightarrow>
     (r = Inr False \<and> w' = w) \<or>
     (r = Inr True \<and> w_trace w' = w_trace w @ [Killed (rmi_cmd tag)] \<and> (\<exists>i < k'. cancel i))"
proof (induction n arbitrary: k)
  case (Suc n)
  show ?case
  proof (cases "cancel k")
    case True
    with Suc.prems show ?thesis
      by (auto simp: look_def io_bind_def on_world_def terminate_def io_return_def)
  next
    case False
    with Suc.prems have "poll_loop cancel tag n (w, Suc k) = (r, (w', k'))" by (simp add: look_bind)
    from Suc.IH [OF this] show ?thesis .
  qed
qed (auto simp: io_return_def)

lemma run_unchecked_trace:
  "run_unchecked run cmd w = (r, w') \<Longrightarrow> w_trace w' = w_trace w @ [Exec cmd]"
  by (auto simp: run_unchecked_def Let_def split: prod.splits proc.splits)

lemma remove_image_result:
  assumes "remove_image run polls cancel tag (w, k) = (r, (w', k'))"
  shows "\<exists>tail. w_trace w' = w_trace w @ Exec (rmi_cmd tag) # tail \<and>
    ((tail = [] \<and> r \<noteq> Inr True) \<or> (tail = [Killed (rmi_cmd tag)] \<and> r = Inr True \<and> (\<exists>i < k'. cancel i)))"
proof -
  obtain q w1 where u: "run_unchecked run (rmi_cmd tag) w = (q, w1)" by fastforce
  note T = run_unchecked_trace [OF u]
  let ?body = "io_bind (on_world (query (\<lambda>w. polls w tag))) (\<lambda>n.
        io_bind (on_world (run_unchecked run (rmi_cmd tag))) (\<lambda>_. poll_loop cancel tag n)) (w, k)"
  have body: "?body = (case q of Inl e \<Rightarrow> (Inl e, (w1, k)) | Inr _ \<Rightarrow> poll_loop cancel tag (polls w tag) (w1, k))"
    by (simp add: io_bind_def on_world_def query_def u split: sum.splits)
  show ?thesis
  proof (cases q)
    case (Inl e)
    then have "w' = w1" "r \<noteq> Inr True"
      using assms body by (auto simp: remove_image_def io_catch_def io_return_def split: if_splits)
    then show ?thesis using T by auto
  next
    case (Inr x)
    obtain r1 w2 k2 where p: "poll_loop cancel tag (polls w tag) (w1, k) = (r1, (w2, k2))"
      by (metis prod.collapse)
    note P = poll_loop_result [OF p]
    have "r = r1 \<and> w' = w2 \<and> k' = k2"
      using assms body Inr p P by (auto simp: remove_image_def io_catch_def)
    with P T show ?thesis by auto
  qed
qed

lemma batch_result:
  assumes "stays_set cancel"
  shows "cleanup_images_batch run polls cancel tags (w, k) = (r, (w', k')) \<Longrightarrow>
    \<exists>ys zs tail. tags = ys @ zs \<and> w_trace w' = w_trace w @ removals ys @ tail \<and> kill_tail ys tail \<and>
      ((zs = [] \<and> tail = []) \<or> isl r \<or> cancel k') \<and> (isl r \<longrightarrow> tail = [])"
proof (induction tags arbitrary: w k)
  case Nil
  then show ?case by (auto simp: io_return_def kill_tail_def)
next
  case (Cons tag tags)
  show ?case
  proof (cases "cancel k")
    case True
    then have "w' = w" "k' = Suc k" "r = Inr ()" using Cons.prems by (auto simp: look_bind io_return_def)
    moreover have "cancel (Suc k)" using True assms unfolding stays_set_def by (meson le_SucI order_refl)
    ultimately show ?thesis by (intro exI [of _ "[]"] exI [of _ "tag # tags"]) (auto simp: kill_tail_def)
  next
    case False
    obtain q w1 k1 where rm: "remove_image run polls cancel tag (w, Suc k) = (q, (w1, k1))"
      by (metis prod.collapse)
    obtain tail where t: "w_trace w1 = w_trace w @ Exec (rmi_cmd tag) # tail"
      and c: "(tail = [] \<and> q \<noteq> Inr True) \<or>
        (tail = [Killed (rmi_cmd tag)] \<and> q = Inr True \<and> (\<exists>i < k1. cancel i))"
      using remove_image_result [OF rm] by blast
    consider e where "q = Inl e" | "q = Inr True" | "q = Inr False" by (cases q) auto
    then show ?thesis
    proof cases
      case 1
      then have "r = Inl e" "w' = w1"
        using Cons.prems False rm by (auto simp: look_bind io_bind_apply_Inl)
      then show ?thesis using t c 1
        by (intro exI [of _ "[tag]"] exI [of _ tags] exI [of _ "[]"]) (auto simp: kill_tail_def)
    next
      case 2
      then have "r = Inr ()" "w' = w1" "k' = k1"
        using Cons.prems False rm by (auto simp: look_bind io_bind_apply io_return_def)
      moreover have "cancel k1" using c 2 assms unfolding stays_set_def by (meson less_imp_le_nat sum.inject(2))
      ultimately show ?thesis using t c 2
        by (intro exI [of _ "[tag]"] exI [of _ tags] exI [of _ tail]) (auto simp: kill_tail_def)
    next
      case 3
      then have "cleanup_images_batch run polls cancel tags (w1, k1) = (r, (w', k'))"
        using Cons.prems False rm by (simp add: look_bind io_bind_apply)
      from Cons.IH [OF this] obtain ys zs tl where
        I: "tags = ys @ zs" "w_trace w' = w_trace w1 @ removals ys @ tl" "kill_tail ys tl"
          "(zs = [] \<and> tl = []) \<or> isl r \<or> cancel k'" "isl r \<longrightarrow> tl = []" by blast
      have "tail = []" using c 3 by auto
      then show ?thesis using I t
        by (intro exI [of _ "tag # ys"] exI [of _ zs] exI [of _ tl]) (auto simp: kill_tail_def)
    qed
  qed
qed

lemma batch_loop_result:
  assumes "stays_set cancel"
  shows "batch_loop run polls cancel bs (w, k) = (r, (w', k')) \<Longrightarrow>
    \<exists>ys zs tail. concat bs = ys @ zs \<and> w_trace w' = w_trace w @ removals ys @ tail \<and> kill_tail ys tail"
proof (induction bs arbitrary: w k)
  case Nil
  then show ?case by (auto simp: io_return_def kill_tail_def)
next
  case (Cons b bs)
  obtain q w1 k1 where b: "cleanup_images_batch run polls cancel b (w, k) = (q, (w1, k1))"
    by (metis prod.collapse)
  obtain ys zs tail where B: "b = ys @ zs" "w_trace w1 = w_trace w @ removals ys @ tail" "kill_tail ys tail"
    "(zs = [] \<and> tail = []) \<or> isl q \<or> cancel k1" "isl q \<longrightarrow> tail = []"
    using batch_result [OF assms b] by blast
  show ?case
  proof (cases "isl q \<or> cancel k1")
    case True
    then have "w' = w1" using Cons.prems b
      by (cases q) (auto simp: io_bind_apply io_bind_apply_Inl look_bind io_return_def)
    then show ?thesis using B by (intro exI [of _ ys] exI [of _ "zs @ concat bs"] exI [of _ tail]) simp
  next
    case False
    then obtain u where "q = Inr u" by (cases q) auto
    then have "batch_loop run polls cancel bs (w1, Suc k1) = (r, (w', k'))"
      using Cons.prems b False by (simp add: io_bind_apply look_bind)
    from Cons.IH [OF this] obtain ys' zs' tail' where
      "concat bs = ys' @ zs'" "w_trace w' = w_trace w1 @ removals ys' @ tail'" "kill_tail ys' tail'" by blast
    moreover have "zs = []" "tail = []" using B(4) False by auto
    ultimately show ?thesis using B(1,2)
      by (intro exI [of _ "ys @ ys'"] exI [of _ zs'] exI [of _ tail']) (auto simp: kill_tail_def)
  qed
qed

section \<open>A run nobody cancels removes every candidate\<close>

definition never_interrupted :: "runner \<Rightarrow> bool" where
  "never_interrupted run \<longleftrightarrow> (\<forall>w cmd. fst (run w cmd) \<noteq> Interrupted)"

lemma remove_image_uncancelled:
  assumes "never_interrupted run"
  shows "\<exists>w' k'. remove_image run polls (\<lambda>_. False) tag (w, k) = (Inr False, (w', k')) \<and>
    w_trace w' = w_trace w @ [Exec (rmi_cmd tag)]"
proof -
  obtain q w' k' where r: "remove_image run polls (\<lambda>_. False) tag (w, k) = (q, (w', k'))" by (metis prod.collapse)
  have "q \<noteq> Inl e" for e
  proof
    assume "q = Inl e"
    then have "\<exists>w1. run_unchecked run (rmi_cmd tag) w = (Inl e, w1) \<and> \<not> is_Exception e"
      using r poll_loop_result [of "\<lambda>_. False" tag "polls w tag"]
      by (auto simp: remove_image_def io_catch_def io_bind_def on_world_def query_def io_return_def
          split: prod.splits sum.splits if_splits) (metis Inl_Inr_False surj_pair)+
    then show False using assms
      by (auto simp: run_unchecked_def never_interrupted_def Let_def split: prod.splits proc.splits) (metis fst_conv)
  qed
  with remove_image_result [OF r] have "q = Inr False \<and> w_trace w' = w_trace w @ [Exec (rmi_cmd tag)]"
    by (cases q) auto
  with r show ?thesis by blast
qed

lemma batch_uncancelled:
  assumes "never_interrupted run"
  shows "\<exists>w' k'. cleanup_images_batch run polls (\<lambda>_. False) tags (w, k) = (Inr (), (w', k')) \<and>
    w_trace w' = w_trace w @ removals tags"
proof (induction tags arbitrary: w k)
  case (Cons tag tags)
  obtain w1 k1 where r: "remove_image run polls (\<lambda>_. False) tag (w, Suc k) = (Inr False, (w1, k1))"
    and t: "w_trace w1 = w_trace w @ [Exec (rmi_cmd tag)]" using remove_image_uncancelled [OF assms] by blast
  show ?case using Cons.IH [of w1 k1] by (auto simp: look_def io_bind_def r t)
qed (simp add: io_return_def)

lemma batch_loop_uncancelled:
  assumes "never_interrupted run"
  shows "\<exists>w' k'. batch_loop run polls (\<lambda>_. False) bs (w, k) = (Inr (), (w', k')) \<and>
    w_trace w' = w_trace w @ removals (concat bs)"
proof (induction bs arbitrary: w k)
  case (Cons b bs)
  obtain w1 k1 where r: "cleanup_images_batch run polls (\<lambda>_. False) b (w, k) = (Inr (), (w1, k1))"
    and t: "w_trace w1 = w_trace w @ removals b" using batch_uncancelled [OF assms] by blast
  show ?case using Cons.IH [of w1 "Suc k1"] by (auto simp: look_def io_bind_def r t)
qed (simp add: io_return_def)

section \<open>Properties\<close>

text \<open>The witnesses' docker lists two images: one with a current hash, one stale.\<close>

definition demo_hash :: "char \<Rightarrow> string" where
  "demo_hash c = replicate 64 c"

definition demo_stale :: string where
  "demo_stale = ''devkit/build-env:amd64-'' @ demo_hash (CHR ''a'')"

definition demo_listing :: runner where
  "demo_listing w cmd = (Exited 0 (demo_stale @ nl) [], w_fs w)"

definition demo_cleanup_args :: cleanup_args where
  "demo_cleanup_args = \<lparr>ca_config_path = to_path ''devkit.json'', ca_search_paths = [], ca_batch_size = 4,
     ca_threshold_days = 7\<rparr>"

lemma demo_listing_facts: "files_kept demo_listing" "never_interrupted demo_listing"
  by (simp_all add: files_kept_def never_interrupted_def demo_listing_def)

lemma demo_stale_lines: "splitlines (strip (demo_stale @ nl)) = [demo_stale]"
  unfolding demo_stale_def demo_hash_def by code_simp

lemma demo_stale_removable: "removable demo_stale"
proof -
  have "demo_stale = image_ref ''devkit'' ''build-env'' ''amd64'' (demo_hash (CHR ''a'')) []"
    by (simp add: demo_stale_def image_ref_def)
  moreover have "ref_ok ''devkit'' ''build-env'' ''amd64'' (demo_hash (CHR ''a'')) []" by code_simp
  moreover have "''build-env'' \<in> set ALLOWED_IMAGE_NAMES" by code_simp
  ultimately show ?thesis unfolding removable_def by blast
qed

lemma demo_filter: "filter_allowed_images [demo_stale] = [demo_stale]"
proof -
  have "demo_stale \<in> set (filter_allowed_images [demo_stale])"
    unfolding filter_allowed_iff using demo_stale_removable by simp
  then show ?thesis unfolding filter_allowed_images_def by (simp split: if_splits)
qed


lemma demo_get_images_to_cleanup:
  "\<exists>w'. get_images_to_cleanup demo_listing 2 remdups hd (to_path ''devkit.json'') [] 7 demo_world =
     (Inr [demo_stale], w')"
proof -
  have p: "get_image_prefix demo_fs [''w''] (to_path ''devkit.json'') = Inr ''devkit''" by code_simp
  have i: "get_ignored_images 2 remdups hd demo_fs [''w''] (to_path ''devkit.json'') [] = Inr []" by code_simp
  show ?thesis
    by (simp add: get_images_to_cleanup_def query_res_bind demo_world_def p get_images_def io_catch_def
        run_checked_def io_bind_def run_unchecked_def demo_listing_def io_return_def demo_stale_lines demo_filter Let_def
        query_res_def i)
qed


text \<open>
  C30: without cancellation and with a positive batch size, the cleanup attempts to remove every
  candidate, exactly once and in the order listed, and a failing \<^verbatim>\<open>docker rmi\<close> does not stop it.
\<close>

theorem cleanup_removes_every_candidate:
  assumes "never_interrupted run" and "0 < ca_batch_size args"
    and "get_images_to_cleanup run limit so pop (ca_config_path args) (ca_search_paths args)
      (ca_threshold_days args) w = (Inr xs, w1)"
  shows "\<exists>w' k'. cleanup_images run polls limit so pop (\<lambda>_. False) args (w, k) = (Inr (), (w', k')) \<and>
    w_trace w' = w_trace w1 @ map (\<lambda>img. Exec (rmi_cmd img)) xs"
proof -
  obtain bs where b: "batches (ca_batch_size args) xs = Inr bs" "concat bs = xs"
    using assms(2) concat_chunks [of "nat (ca_batch_size args)" xs] by (auto simp: batches_def)
  have "cleanup_images run polls limit so pop (\<lambda>_. False) args (w, k) =
      batch_loop run polls (\<lambda>_. False) bs (w1, Suc k)"
    by (simp add: cleanup_images_eq assms(3) b(1))
  then show ?thesis using batch_loop_uncancelled [OF assms(1), of polls bs w1 "Suc k"] b(2) by simp
qed

theorem cleanup_removes_every_candidate_witness:
  "\<exists>tr w' k'. cleanup_images demo_listing (\<lambda>_ _. 0) 2 remdups hd (\<lambda>_. False) demo_cleanup_args (demo_world, 0) =
     (Inr (), (w', k')) \<and> w_trace w' = tr @ map (\<lambda>img. Exec (rmi_cmd img)) [demo_stale]"
proof -
  obtain w1 where "get_images_to_cleanup demo_listing 2 remdups hd (ca_config_path demo_cleanup_args)
      (ca_search_paths demo_cleanup_args) (ca_threshold_days demo_cleanup_args) demo_world = (Inr [demo_stale], w1)"
    using demo_get_images_to_cleanup by (auto simp: demo_cleanup_args_def)
  moreover have "0 < ca_batch_size demo_cleanup_args" by (simp add: demo_cleanup_args_def)
  ultimately have "\<exists>w' k'. cleanup_images demo_listing (\<lambda>_ _. 0) 2 remdups hd (\<lambda>_. False) demo_cleanup_args (demo_world, 0) =
     (Inr (), (w', k')) \<and> w_trace w' = w_trace w1 @ map (\<lambda>img. Exec (rmi_cmd img)) [demo_stale]"
    by (intro cleanup_removes_every_candidate [OF demo_listing_facts(2)])
  then show ?thesis by blast
qed





text \<open>
  C32: What the cleanup does when the current tags cannot be calculated. After an ordinary exception (a
  KeyError for an undeclared dependency, say) every allowed image that docker lists becomes a
  candidate, the ones in use included; an exit (invalid configuration, dependency cycle, missing
  Dockerfile) ends the cleanup without any candidate.
\<close>

theorem ignore_list_on_failure:
  assumes "files_kept run"
    and "get_all_docker_image_tags limit so pop (w_fs w) (w_cwd w) config_path search_paths [] = Inl e"
    and "get_image_prefix (w_fs w) (w_cwd w) config_path = Inr img_prefix"
    and "get_images run img_prefix days w = (Inr imgs, w')"
  shows "get_images_to_cleanup run limit so pop config_path search_paths days w =
    (if filter_allowed_images imgs = [] \<or> is_Exception e then Inr (filter_allowed_images imgs) else Inl e, w')"
proof -
  have "w_fs w' = w_fs w" "w_cwd w' = w_cwd w" using get_images_site [OF assms(1,4)] by (auto simp: site_def)
  then have "get_ignored_images limit so pop (w_fs w') (w_cwd w') config_path search_paths =
      (if is_Exception e then Inr [] else Inl e)"
    using assms(2) by (simp add: get_ignored_images_def)
  moreover have "filter_allowed_images [] = []" by (simp add: filter_allowed_images_def)
  ultimately show ?thesis
    by (auto simp: get_images_to_cleanup_def query_res_bind assms(3) io_bind_def assms(4) io_return_def query_res_def Let_def)
qed

definition demo_bad_fs :: fsys where
  "demo_bad_fs = [([], Dir), ([''images''], Dir),
     ([''images'', ''app.Dockerfile''], File ''FROM debian'' 420),
     ([''images'', ''deps.json''], File (map (\<lambda>c. if c = CHR ''!'' then CHR 0x22 else c)
        ''{!app!: {!deps!: {!BASE!: !nowhere!}}}'') 420)]"

theorem ignore_list_on_failure_witness:
  "\<exists>w'. get_images_to_cleanup demo_listing 5 remdups hd (to_path ''devkit.json'') [to_path ''images''] 7
      (demo_world\<lparr>w_fs := demo_bad_fs, w_cwd := []\<rparr>) = (Inr [demo_stale], w')"
proof -
  let ?w = "demo_world\<lparr>w_fs := demo_bad_fs, w_cwd := []\<rparr>"
  have "get_all_docker_image_tags 5 remdups hd demo_bad_fs [] (to_path ''devkit.json'') [to_path ''images''] []
      = Inl (KeyError ''nowhere'')" by code_simp
  moreover have "get_image_prefix demo_bad_fs [] (to_path ''devkit.json'') = Inr ''devkit''" by code_simp
  moreover obtain w' where "get_images demo_listing ''devkit'' 7 ?w = (Inr [demo_stale], w')"
    by (simp add: get_images_def io_catch_def run_checked_def io_bind_def run_unchecked_def demo_listing_def
        io_return_def demo_stale_lines)
  ultimately show ?thesis
    using ignore_list_on_failure [OF demo_listing_facts(1), of 5 remdups hd ?w "to_path ''devkit.json''"
        "[to_path ''images'']" "KeyError ''nowhere''" "''devkit''" 7 "[demo_stale]" w']
    by (simp add: demo_filter)
qed

end
