(* ===== verification/Find_Root.thy ===== *)
theory Find_Root
  imports Py_World
begin

text \<open>
  \<^verbatim>\<open>scripts/find_project_root.py\<close>: the nearest directory at or above the current one that contains
  \<^verbatim>\<open>devkit\<close>.
\<close>

definition not_found_msg :: string where
  "not_found_msg = ''Could not find project root. Make sure you are in a devkit project.''"

text \<open>\<^verbatim>\<open>Path(os.getenv("PWD", str(Path.cwd())))\<close>\<close>

definition current_dir :: "world \<Rightarrow> ppath" where
  "current_dir w = to_path (case map_of (w_env w) ''PWD'' of
     Some s \<Rightarrow> s | None \<Rightarrow> path_str (PPath ''/'' (w_cwd w)))"

definition is_root :: "world \<Rightarrow> ppath \<Rightarrow> bool" where
  "is_root w path = path_exists (w_fs w) (w_cwd w) (path_div path (to_path ''devkit''))"

definition find_project_root :: "ppath script" where
  "find_project_root = query_res (\<lambda>w.
     case List.find (is_root w) (current_dir w # path_parents (current_dir w)) of
       Some path \<Rightarrow> Inr path
     | None \<Rightarrow> Inl (FileNotFoundError not_found_msg))"

fun root_error :: "exn \<Rightarrow> unit script option" where
  "root_error (FileNotFoundError m) =
     Some (io_bind (print_to Stderr (''Error: '' @ m @ [CHR 0x0A])) (\<lambda>_. sys_exit 1))"
| "root_error _ = None"

definition find_root_main :: "unit script" where
  "find_root_main =
     io_catch
       (io_bind find_project_root (\<lambda>root. print_to Stdout (path_str root @ [CHR 0x0A])))
       root_error"

section \<open>The nearest ancestor\<close>

text \<open>The ancestors are the prefixes, longest first.\<close>

lemma parents_of_eq: "parents_of xs = map (\<lambda>k. take k xs) (rev [0..<length xs])"
proof (induction xs)
  case (Cons x xs)
  have "rev [0..<length (x # xs)] = map Suc (rev [0..<length xs]) @ [0]"
    by (simp add: rev_map [symmetric] map_Suc_upt upt_conv_Cons del: upt_Suc)
  then show ?case using Cons by simp
qed simp

definition ancestors :: "ppath \<Rightarrow> ppath list" where
  "ancestors p = p # path_parents p"

lemma ancestors_eq:
  "ancestors p = map (\<lambda>k. PPath (p_root p) (take k (p_parts p))) (rev [0..<Suc (length (p_parts p))])"
  by (cases p) (simp add: ancestors_def path_parents_def parents_of_eq)

lemma set_ancestors: "set (ancestors p) = {q. is_relative_to p q}"
  by (auto simp: ancestors_def is_relative_to_def)

lemma nearest_ancestor:
  assumes "List.find P (ancestors p) = Some q"
  shows "is_relative_to p q \<and> P q \<and> (\<forall>q'. is_relative_to p q' \<longrightarrow> P q' \<longrightarrow> is_relative_to q q')"
proof -
  let ?f = "\<lambda>k. PPath (p_root p) (take k (p_parts p))"
  let ?n = "Suc (length (p_parts p))"
  from assms obtain i where i: "i < length (ancestors p)" "P (ancestors p ! i)" "q = ancestors p ! i"
    and least: "\<And>j. j < i \<Longrightarrow> \<not> P (ancestors p ! j)"
    by (auto simp: find_Some_iff)
  have len: "length (ancestors p) = ?n" by (simp add: ancestors_eq)
  have nth: "ancestors p ! j = ?f (length (p_parts p) - j)" if "j < ?n" for j
    using that by (simp add: ancestors_eq rev_nth del: upt_Suc)
  have "q \<in> set (ancestors p)" using i by simp
  then have pq: "is_relative_to p q" by (simp add: set_ancestors)
  moreover have "is_relative_to q q'" if "is_relative_to p q'" "P q'" for q'
  proof -
    have "q' \<in> set (ancestors p)" using that(1) by (simp add: set_ancestors)
    then obtain j where j: "j < ?n" "q' = ancestors p ! j" by (metis in_set_conv_nth len)
    with least that(2) have "i \<le> j" by (meson not_le)
    then have "prefix (take (length (p_parts p) - j) (p_parts p)) (take (length (p_parts p) - i) (p_parts p))"
      by (metis diff_le_mono2 le_Suc_ex prefix_def take_add)
    then show ?thesis using i(1,3) j nth len by (simp add: is_relative_to_iff)
  qed
  ultimately show ?thesis using i by blast
qed

section \<open>Properties\<close>


end
