(* ===== verification/Coverage_Report.thy ===== *)
theory Coverage_Report
  imports Find_Root
begin

text \<open>
  \<^verbatim>\<open>scripts/coverage_report.py\<close>: parsing an lcov file, the coverage table, the missing coverage, and the
  check against global and per-file thresholds.
\<close>

abbreviation newline :: string where
  "newline \<equiv> [CHR 0x0A]"

section \<open>Coverage of a file\<close>

record file_coverage =
  file_path :: string
  lines_found :: int
  lines_hit :: int
  branches_found :: int
  branches_hit :: int
  uncovered_lines :: "int list"
  uncovered_branches :: "(int \<times> int \<times> int) list"

definition new_file_coverage :: "string \<Rightarrow> file_coverage" where
  "new_file_coverage p = \<lparr>file_path = p, lines_found = 0, lines_hit = 0, branches_found = 0,
     branches_hit = 0, uncovered_lines = [], uncovered_branches = []\<rparr>"

definition line_coverage_percent :: "file_coverage \<Rightarrow> pyfloat res" where
  "line_coverage_percent fc =
     (if lines_found fc = 0 then Inr (Fin 1) else int_truediv (lines_hit fc) (lines_found fc))"

definition branch_coverage_percent :: "file_coverage \<Rightarrow> pyfloat res" where
  "branch_coverage_percent fc =
     (if branches_found fc = 0 then Inr (Fin 1) else int_truediv (branches_hit fc) (branches_found fc))"

text \<open>\<^verbatim>\<open>filepath[-(max_width - 3):]\<close> on code points: a negative start counts from the end.\<close>

definition slice_from :: "int \<Rightarrow> 'a list \<Rightarrow> 'a list" where
  "slice_from i xs = drop (nat (if i < 0 then int (length xs) + i else i)) xs"

definition fit_to_column :: "string \<Rightarrow> int \<Rightarrow> string" where
  "fit_to_column filepath max_width =
     (let filepath_length = int (py_len filepath)
      in if filepath_length > max_width
         then ''...'' @ concat (slice_from (- (max_width - 3)) (cps filepath))
         else filepath @ replicate (nat (max_width - filepath_length)) (CHR '' ''))"

definition generate_summary_line :: "file_coverage \<Rightarrow> pyfloat \<Rightarrow> pyfloat \<Rightarrow> string res" where
  "generate_summary_line fc target_lines target_branch =
     res_bind (line_coverage_percent fc) (\<lambda>l.
     res_bind (branch_coverage_percent fc) (\<lambda>br.
     Inr (fit_to_column (file_path fc) 50 @ '' | '' @
          fmt_percent l @ '' / '' @ fmt_percent target_lines @ '' | '' @
          fmt_percent br @ '' / '' @ fmt_percent target_branch)))"

definition get_missing_branches_str :: "file_coverage \<Rightarrow> string" where
  "get_missing_branches_str fc =
     join newline (map (\<lambda>(line, block, branch).
       ''Line '' @ show_int line @ '': (block: '' @ show_int block @ '', branch: '' @ show_int branch @ '')'')
       (uncovered_branches fc))"

text \<open>
  The loop of \<^verbatim>\<open>group_consecutive_numbers\<close>: the open range starts at \<open>start\<close>, the last number seen is
  \<open>prev\<close>; a number that does not continue it closes the range.
\<close>

fun ranges_loop :: "int \<Rightarrow> int \<Rightarrow> int list \<Rightarrow> (int \<times> int) list" where
  "ranges_loop start prev [] = [(start, prev)]"
| "ranges_loop start prev (n # ns) =
     (if n \<noteq> prev + 1 then (start, prev) # ranges_loop n n ns else ranges_loop start n ns)"

definition number_ranges :: "int list \<Rightarrow> (int \<times> int) list" where
  "number_ranges numbers = (case sort numbers of [] \<Rightarrow> [] | n # ns \<Rightarrow> ranges_loop n n ns)"

definition show_range :: "int \<times> int \<Rightarrow> string" where
  "show_range = (\<lambda>(lo, hi). if lo = hi then show_int lo else show_int lo @ ''-'' @ show_int hi)"

definition group_consecutive_numbers :: "int list \<Rightarrow> string" where
  "group_consecutive_numbers numbers = join '', '' (map show_range (number_ranges numbers))"

definition generate_missing_coverage_report :: "file_coverage \<Rightarrow> string" where
  "generate_missing_coverage_report fc =
     (if uncovered_lines fc = [] \<and> uncovered_branches fc = [] then []
      else
        (let uncovered_lines_str = group_consecutive_numbers (uncovered_lines fc);
             uncovered_branches_str = get_missing_branches_str fc
         in newline @ ''File: '' @ file_path fc @ newline @
            (if uncovered_lines_str \<noteq> [] then ''Lines to test: '' @ uncovered_lines_str @ newline else []) @
            (if uncovered_branches_str \<noteq> [] then ''Branches to test:'' @ newline @ uncovered_branches_str else [])))"

section \<open>Parsing\<close>

definition py_int :: "string \<Rightarrow> int res" where
  "py_int s = (case parse_int s of None \<Rightarrow> Inl (ValueError (''invalid literal for int() with base 10'')) | Some i \<Rightarrow> Inr i)"

definition list_item :: "'a list \<Rightarrow> nat \<Rightarrow> 'a res" where
  "list_item xs i = (if i < length xs then Inr (xs ! i) else Inl IndexError)"

definition parse_da :: "string \<Rightarrow> file_coverage \<Rightarrow> file_coverage res" where
  "parse_da line fc =
     (let parts = split_on (CHR '','') line in
      res_bind (list_item parts 0) (\<lambda>p0.
      res_bind (py_int (py_replace ''DA:'' [] p0)) (\<lambda>line_number.
      res_bind (list_item parts 1) (\<lambda>p1.
      res_bind (py_int p1) (\<lambda>hit_count.
      Inr (if hit_count = 0 then fc\<lparr>uncovered_lines := uncovered_lines fc @ [line_number]\<rparr> else fc))))))"

definition parse_brda :: "string \<Rightarrow> file_coverage \<Rightarrow> file_coverage res" where
  "parse_brda line fc =
     (let parts = split_on (CHR '','') line in
      res_bind (list_item parts 0) (\<lambda>p0.
      res_bind (py_int (py_replace ''BRDA:'' [] p0)) (\<lambda>line_number.
      res_bind (res_bind (list_item parts 1) py_int) (\<lambda>block_id.
      res_bind (res_bind (list_item parts 2) py_int) (\<lambda>branch_id.
      res_bind (list_item parts 3) (\<lambda>hit_marker.
      Inr (if hit_marker = ''-''
           then fc\<lparr>uncovered_branches := uncovered_branches fc @ [(line_number, block_id, branch_id)]\<rparr>
           else fc)))))))"

definition parse_lcov_data_line :: "string \<Rightarrow> file_coverage \<Rightarrow> file_coverage res" where
  "parse_lcov_data_line line fc =
     (if startswith line ''LF:'' then
        res_bind (py_int (py_replace ''LF:'' [] line)) (\<lambda>n. Inr (fc\<lparr>lines_found := n\<rparr>))
      else if startswith line ''LH:'' then
        res_bind (py_int (py_replace ''LH:'' [] line)) (\<lambda>n. Inr (fc\<lparr>lines_hit := n\<rparr>))
      else if startswith line ''BRF:'' then
        res_bind (py_int (py_replace ''BRF:'' [] line)) (\<lambda>n. Inr (fc\<lparr>branches_found := n\<rparr>))
      else if startswith line ''BRH:'' then
        res_bind (py_int (py_replace ''BRH:'' [] line)) (\<lambda>n. Inr (fc\<lparr>branches_hit := n\<rparr>))
      else if startswith line ''DA:'' then parse_da line fc
      else if startswith line ''BRDA'' then parse_brda line fc
      else Inr fc)"

text \<open>The body of the loop over the lines: the coverage data and the current file.\<close>

definition lcov_line :: "string \<Rightarrow> file_coverage dict \<times> string option
  \<Rightarrow> (file_coverage dict \<times> string option) res" where
  "lcov_line raw = (\<lambda>(coverage_data, current).
     let line = strip raw in
     if startswith line ''SF:'' then
       (let p = py_replace ''SF:'' [] line
        in Inr (AList.update p (new_file_coverage p) coverage_data, Some p))
     else if line = ''end_of_record'' then Inr (coverage_data, None)
     else (case current of
         Some p \<Rightarrow>
           (case map_of coverage_data p of
              Some fc \<Rightarrow> if p \<noteq> [] then
                  res_bind (parse_lcov_data_line line fc)
                    (\<lambda>fc'. Inr (AList.update p fc' coverage_data, current))
                else Inr (coverage_data, current)
            | None \<Rightarrow> Inr (coverage_data, current))
       | None \<Rightarrow> Inr (coverage_data, current)))"

definition parse_lcov :: "string \<Rightarrow> file_coverage dict res" where
  "parse_lcov content =
     res_bind (res_fold lcov_line (file_lines content) ([], None)) (\<lambda>(d, _). Inr d)"

section \<open>The report\<close>

definition dict_get :: "'v dict \<Rightarrow> string \<Rightarrow> 'v \<Rightarrow> 'v" where
  "dict_get d k v = (case map_of d k of None \<Rightarrow> v | Some x \<Rightarrow> x)"

record thresholds =
  lines_threshold :: pyfloat
  branch_threshold :: pyfloat
  file_lines_thresholds :: "pyfloat dict"
  file_branch_thresholds :: "pyfloat dict"

definition target_lines :: "thresholds \<Rightarrow> file_coverage \<Rightarrow> pyfloat" where
  "target_lines th fc = dict_get (file_lines_thresholds th) (file_path fc) (lines_threshold th)"

definition target_branch :: "thresholds \<Rightarrow> file_coverage \<Rightarrow> pyfloat" where
  "target_branch th fc = dict_get (file_branch_thresholds th) (file_path fc) (branch_threshold th)"

record report_state =
  rs_valid :: bool
  rs_lines :: pyfloat
  rs_branch :: pyfloat

definition report_file :: "thresholds \<Rightarrow> nat \<Rightarrow> file_coverage \<Rightarrow> report_state \<Rightarrow> report_state script" where
  "report_file th n_files fc st =
     io_bind (io_lift (line_coverage_percent fc)) (\<lambda>lines_cov.
     io_bind (io_lift (branch_coverage_percent fc)) (\<lambda>branch_cov.
     io_bind (io_lift (generate_summary_line fc (target_lines th fc) (target_branch th fc))) (\<lambda>line.
     io_bind (print_to Stdout (line @ newline)) (\<lambda>_.
     io_return
       \<lparr>rs_valid = (if fl_less lines_cov (target_lines th fc) \<or> fl_less branch_cov (target_branch th fc)
                    then False else rs_valid st),
        rs_lines = fl_add (rs_lines st) (fl_shrink lines_cov (of_nat n_files)),
        rs_branch = fl_add (rs_branch st) (fl_shrink branch_cov (of_nat n_files))\<rparr>))))"

fun report_loop :: "thresholds \<Rightarrow> nat \<Rightarrow> file_coverage list \<Rightarrow> report_state \<Rightarrow> report_state script" where
  "report_loop th n_files [] st = io_return st"
| "report_loop th n_files (fc # fcs) st =
     io_bind (report_file th n_files fc st) (report_loop th n_files fcs)"

fun missing_loop :: "file_coverage list \<Rightarrow> bool \<Rightarrow> bool script" where
  "missing_loop [] any = io_return any"
| "missing_loop (fc # fcs) any =
     (let report = generate_missing_coverage_report fc in
      if report \<noteq> [] then io_bind (print_to Stdout (report @ newline)) (\<lambda>_. missing_loop fcs True)
      else missing_loop fcs any)"

definition print_and_validate_report :: "file_coverage dict \<Rightarrow> thresholds \<Rightarrow> bool script" where
  "print_and_validate_report coverage_data th =
     io_bind (print_to Stdout (pad_right 50 ''file'' @ '' | '' @ pad_right 17 ''Lines %'' @ '' | Branches %'' @ newline)) (\<lambda>_.
     io_bind (print_to Stdout (replicate 90 (CHR ''-'') @ newline)) (\<lambda>_.
     io_bind (report_loop th (length coverage_data) (dict_values coverage_data)
                \<lparr>rs_valid = True, rs_lines = Fin 0, rs_branch = Fin 0\<rparr>) (\<lambda>st.
     io_bind (print_to Stdout (replicate 90 (CHR ''-'') @ newline)) (\<lambda>_.
     io_bind (print_to Stdout (pad_right 50 ''Total'' @ '' | '' @ pad_right 17 (fmt_percent (rs_lines st)) @ '' | '' @
                fmt_percent (rs_branch st) @ newline)) (\<lambda>_.
     io_bind (print_to Stdout (newline @ ''--- Missing Coverage ---'' @ newline)) (\<lambda>_.
     io_bind (missing_loop (dict_values coverage_data) False) (\<lambda>any_missing_coverage.
     io_bind (if \<not> any_missing_coverage then print_to Stdout (''All covered!'' @ newline) else io_return ()) (\<lambda>_.
     io_return (rs_valid st)))))))))"

definition generate_lcov_report :: "ppath \<Rightarrow> thresholds \<Rightarrow> bool script" where
  "generate_lcov_report p th =
     io_catch
       (io_bind (query_res (\<lambda>w. res_bind (read_text (w_fs w) (w_cwd w) p) parse_lcov)) (\<lambda>coverage_data.
        print_and_validate_report coverage_data th))
       (\<lambda>e. if is_FileNotFound e
             then Some (io_bind (print_to Stdout (''File not found: '' @ path_str p @ newline)) (\<lambda>_. io_return False))
             else None)"

section \<open>Thresholds\<close>

text \<open>\<^verbatim>\<open>float(value)\<close> on a JSON value.\<close>

fun py_float :: "json \<Rightarrow> pyfloat res" where
  "py_float (JFloat f) = Inr f"
| "py_float (JInt i) = float_of_int i"
| "py_float (JBool b) = Inr (if b then Fin 1 else Fin 0)"
| "py_float (JStr s) = (case parse_float s of None \<Rightarrow> Inl (ValueError ''could not convert string to float'') | Some f \<Rightarrow> Inr f)"
| "py_float _ = Inl (TypeError ''float() argument must be a string or a real number'')"

definition percent_ok :: "pyfloat \<Rightarrow> bool" where
  "percent_ok v \<longleftrightarrow> fl_le (Fin 0) v \<and> fl_le v (Fin 100)"

definition threshold_field ::
  "string \<Rightarrow> string \<Rightarrow> string \<Rightarrow> json \<Rightarrow> pyfloat dict \<Rightarrow> pyfloat dict res" where
  "threshold_field key label filepath values d =
     res_bind (py_contains key values) (\<lambda>has.
     if \<not> has then Inr d else
     res_bind (py_getitem values key) (\<lambda>v.
     res_bind (py_float v) (\<lambda>val.
     if \<not> percent_ok val
     then Inl (ValueError (label @ '' for '' @ filepath @ '' must be in [0.0, 100.0]''))
     else Inr (AList.update filepath (fl_shrink val 100) d))))"

definition threshold_entry ::
  "string \<times> json \<Rightarrow> pyfloat dict \<times> pyfloat dict \<Rightarrow> (pyfloat dict \<times> pyfloat dict) res" where
  "threshold_entry = (\<lambda>(filepath, values) (file_lines, file_branch).
     case values of
       JObj kvs \<Rightarrow>
         res_bind (threshold_field ''lines'' ''Lines'' filepath values file_lines) (\<lambda>file_lines'.
         res_bind (threshold_field ''branch'' ''Branch'' filepath values file_branch) (\<lambda>file_branch'.
         Inr (file_lines', file_branch')))
     | _ \<Rightarrow> Inl (ValueError (''Values for '' @ filepath @ '' must be a JSON object.'')))"

definition thresholds_of :: "fsys \<Rightarrow> loc \<Rightarrow> ppath \<Rightarrow> (pyfloat dict \<times> pyfloat dict) res" where
  "thresholds_of fs cwd p =
     res_bind (read_text fs cwd p) (\<lambda>content.
     res_bind (json_loads content) (\<lambda>data.
     case data of
       JObj kvs \<Rightarrow> res_fold threshold_entry kvs ([], [])
     | _ \<Rightarrow> Inl (ValueError ''Root element must be a JSON object.'')))"

text \<open>\<open>err\<close> is the text \<^verbatim>\<open>str(e)\<close> of an exception of the standard library.\<close>

definition parse_thresholds_file :: "(exn \<Rightarrow> string) \<Rightarrow> ppath \<Rightarrow> (pyfloat dict \<times> pyfloat dict) script" where
  "parse_thresholds_file err p =
     io_catch (query_res (\<lambda>w. thresholds_of (w_fs w) (w_cwd w) p))
       (\<lambda>e. if is_FileNotFound e \<or> is_ValueError e
             then Some (io_bind (print_to Stdout (''Error reading thresholds file: '' @ err e @ newline)) (\<lambda>_. sys_exit 1))
             else None)"

section \<open>The command\<close>

fun bazel_failed :: "exn \<Rightarrow> 'a script option" where
  "bazel_failed (CalledProcessError cmd rc out er) =
     Some (io_bind (print_to Stderr (''Error: Bazel coverage failed with exit code '' @ show_int rc @ ''.'' @ newline)) (\<lambda>_.
       sys_exit 1))"
| "bazel_failed _ = None"

text \<open>\<^verbatim>\<open>capture_output=False\<close>: the error carries no output, so only the first message is printed.\<close>

definition run_bazel_coverage :: "runner \<Rightarrow> string \<Rightarrow> ppath script" where
  "run_bazel_coverage run target =
     io_bind find_project_root (\<lambda>project_root.
     let devkit_build = path_str (path_div (path_div project_root (to_path ''devkit'')) (to_path ''build'')) in
     io_catch
       (io_bind (run_checked run [devkit_build, ''bazel'', ''coverage'', ''--combined_report=lcov'', target]) (\<lambda>_.
        io_return (path_div (path_div (path_div project_root (to_path ''bazel-out'')) (to_path ''_coverage''))
                     (to_path ''_coverage_report.dat''))))
       bazel_failed)"

record coverage_args =
  cv_target :: string
  cv_lines :: pyfloat
  cv_branch :: pyfloat
  cv_thresholds_file :: "ppath option"

definition check_percent :: "string \<Rightarrow> pyfloat \<Rightarrow> unit script" where
  "check_percent name value =
     (if \<not> percent_ok value
      then io_bind (print_to Stdout (''Error: '' @ name @ '' threshold value must be in range [0.0, 100.0]'' @ newline)) (\<lambda>_.
        sys_exit 1)
      else io_return ())"

definition coverage_main :: "runner \<Rightarrow> (exn \<Rightarrow> string) \<Rightarrow> coverage_args \<Rightarrow> unit script" where
  "coverage_main run err args =
     io_bind (check_percent ''Branch'' (cv_branch args)) (\<lambda>_.
     io_bind (check_percent ''Lines'' (cv_lines args)) (\<lambda>_.
     io_bind (case cv_thresholds_file args of
                None \<Rightarrow> io_return ([], []) | Some p \<Rightarrow> parse_thresholds_file err p) (\<lambda>(file_lines, file_branch).
     io_bind (run_bazel_coverage run (cv_target args)) (\<lambda>report_path.
     io_bind (generate_lcov_report report_path
                \<lparr>lines_threshold = fl_shrink (cv_lines args) 100, branch_threshold = fl_shrink (cv_branch args) 100,
                 file_lines_thresholds = file_lines, file_branch_thresholds = file_branch\<rparr>) (\<lambda>coverage_passed.
     if coverage_passed then print_to Stdout (''Coverage check passed.'' @ newline)
     else io_bind (print_to Stdout (''Coverage check failed.'' @ newline)) (\<lambda>_. sys_exit 1))))))"

end
