(* ===== verification/Coverage_Spec.thy ===== *)
theory Coverage_Spec
  imports Coverage_Report
begin

text \<open>
  Correctness of the coverage report: the verdict, the bounds of percentages and thresholds, the
  grouping of line numbers, the width of a column and the parsing of data lines.
\<close>

section \<open>Grouping of numbers\<close>

definition expand :: "(int \<times> int) list \<Rightarrow> int list" where
  "expand rs = concat (map (\<lambda>(lo, hi). [lo..hi]) rs)"

text \<open>No range continues the one before it.\<close>

fun separated :: "(int \<times> int) list \<Rightarrow> bool" where
  "separated ((l1, h1) # (l2, h2) # rs) \<longleftrightarrow> l2 \<noteq> h1 + 1 \<and> separated ((l2, h2) # rs)"
| "separated _ \<longleftrightarrow> True"

lemma ranges_loop_hd: "\<exists>h rs. ranges_loop start prev ns = (start, h) # rs"
  by (induction start prev ns rule: ranges_loop.induct) auto

lemma ranges_loop_expand:
  "start \<le> prev \<Longrightarrow> expand (ranges_loop start prev ns) = [start..prev] @ ns"
proof (induction start prev ns rule: ranges_loop.induct)
  case (1 start prev)
  then show ?case by (simp add: expand_def)
next
  case (2 start prev n ns)
  show ?case
  proof (cases "n = prev + 1")
    case True
    then have "[start..n] = [start..prev] @ [n]" using 2(3) by (simp add: upto_rec2)
    then show ?thesis using 2 True by simp
  next
    case False
    have "[n..n] = [n]" by simp
    then show ?thesis using 2 False by (simp add: expand_def)
  qed
qed

lemma ranges_loop_separated: "separated (ranges_loop start prev ns)"
proof (induction start prev ns rule: ranges_loop.induct)
  case (2 start prev n ns)
  then show ?case using ranges_loop_hd [of n n ns] by auto
qed simp

lemma ranges_loop_ordered: "start \<le> prev \<Longrightarrow> list_all (\<lambda>(lo, hi). lo \<le> hi) (ranges_loop start prev ns)"
  by (induction start prev ns rule: ranges_loop.induct) auto

section \<open>Width of a column\<close>

lemma cps_drop: "cps (concat (drop k (cps s))) = drop k (cps s)"
proof (induction k arbitrary: s)
  case (Suc k)
  show ?case
  proof (cases s)
    case (Cons c cs)
    then show ?thesis using Suc.IH [of "dropWhile is_cont cs"] by simp
  qed simp
qed simp

lemma hd_dropWhile_cont: "dropWhile is_cont s \<noteq> [] \<Longrightarrow> \<not> is_cont (hd (dropWhile is_cont s))"
  using hd_dropWhile by blast

lemma drop_cps_starts:
  "0 < k \<Longrightarrow> concat (drop k (cps s)) \<noteq> [] \<Longrightarrow> \<not> is_cont (hd (concat (drop k (cps s))))"
proof (induction k arbitrary: s)
  case (Suc k)
  show ?case
  proof (cases s)
    case (Cons c cs)
    show ?thesis
    proof (cases k)
      case 0
      then show ?thesis using Suc.prems Cons hd_dropWhile_cont by simp
    next
      case (Suc k')
      then show ?thesis using Suc.IH [of "dropWhile is_cont cs"] Suc.prems Cons by simp
    qed
  qed (use Suc.prems in simp)
qed simp

lemma py_len_spaces: "py_len (s @ replicate n (CHR '' '')) = py_len s + n"
proof -
  have "list_all is_ascii (replicate n (CHR '' ''))" by (induction n) (auto simp: is_ascii_def)
  then have "py_len (replicate n (CHR '' '')) = n" by (simp add: py_len_ascii)
  moreover have "py_len (s @ replicate n (CHR '' '')) = py_len s + py_len (replicate n (CHR '' ''))"
    by (rule py_len_append) (cases n; simp add: is_cont_def)
  ultimately show ?thesis by simp
qed

lemma fit_to_column_len:
  assumes "3 < w"
  shows "int (py_len (fit_to_column s w)) = w"
proof (cases "int (py_len s) > w")
  case True
  define k where "k = nat (int (py_len s) - (w - 3))"
  have k: "0 < k" "int k = int (py_len s) - (w - 3)" "k \<le> length (cps s)"
    using True assms by (auto simp: k_def py_len_def)
  have f: "fit_to_column s w = ''...'' @ concat (drop k (cps s))"
    using True assms by (simp add: fit_to_column_def slice_from_def k_def py_len_def algebra_simps)
  have "py_len (''...'' @ concat (drop k (cps s))) = py_len ''...'' + py_len (concat (drop k (cps s)))"
    by (rule py_len_append) (rule drop_cps_starts [OF k(1)])
  moreover have "py_len ''...'' = 3" by (subst py_len_ascii) (simp_all add: is_ascii_def)
  moreover have "py_len (concat (drop k (cps s))) = length (cps s) - k"
    by (simp add: py_len_def cps_drop)
  ultimately show ?thesis using k by (simp add: f py_len_def)
next
  case False
  then show ?thesis by (simp add: fit_to_column_def py_len_spaces)
qed

section \<open>Percentages and thresholds\<close>

lemma int_truediv_unit:
  assumes "0 \<le> a" and "a \<le> b" and "0 < b"
  shows "\<exists>x. int_truediv a b = Inr (Fin x) \<and> 0 \<le> x \<and> x \<le> 1"
proof -
  have q: "0 \<le> (of_int a / of_int b :: rat)" "(of_int a / of_int b :: rat) \<le> 1"
    using assms by (auto simp: divide_le_eq_1)
  have "int_truediv a b = Inr (Fin (round_rat (of_int a / of_int b)))"
    using double_unit [OF q] by (simp add: int_truediv_def)
  then show ?thesis using round_rat_unit [OF q] by blast
qed

definition in_unit :: "pyfloat \<Rightarrow> bool" where
  "in_unit f \<longleftrightarrow> (\<exists>x. f = Fin x \<and> 0 \<le> x \<and> x \<le> 1)"

lemma percent_ok_shrink: "percent_ok v \<Longrightarrow> in_unit (fl_shrink v 100)"
proof -
  assume "percent_ok v"
  then obtain x where v: "v = Fin x" "0 \<le> x" "x \<le> 100"
    by (cases v) (auto simp: percent_ok_def fl_le_def)
  then have "double (x / 100) = Fin (round_rat (x / 100))" by (intro double_unit) auto
  then show ?thesis using v round_rat_unit [of "x / 100"] by (simp add: fl_shrink_def in_unit_def)
qed

definition units :: "pyfloat dict \<Rightarrow> bool" where
  "units d \<longleftrightarrow> (\<forall>k v. map_of d k = Some v \<longrightarrow> in_unit v)"

lemma units_update: "units d \<Longrightarrow> in_unit v \<Longrightarrow> units (AList.update k v d)"
  by (auto simp: units_def update_conv')

lemma threshold_field_units:
  "threshold_field key label p v d = Inr d' \<Longrightarrow> units d \<Longrightarrow> units d'"
  by (auto simp: threshold_field_def intro: units_update percent_ok_shrink split: if_splits)

lemma thresholds_of_units:
  assumes "thresholds_of fs cwd p = Inr (l, br)"
  shows "units l \<and> units br"
proof -
  from assms obtain data where "(case data of JObj kvs \<Rightarrow> res_fold threshold_entry kvs ([], [])
     | _ \<Rightarrow> Inl (ValueError ''Root element must be a JSON object.'')) = Inr (l, br)"
    by (auto simp: thresholds_of_def)
  then obtain kvs where "res_fold threshold_entry kvs ([], []) = Inr (l, br)" by (cases data) auto
  then have "case (l, br) of (l, br) \<Rightarrow> units l \<and> units br"
  proof (rule res_fold_invariant)
    show "case ([], []) of (l, br) \<Rightarrow> units l \<and> units br" by (simp add: units_def)
    fix kv s s'
    assume "case s of (l, br) \<Rightarrow> units l \<and> units br" and "threshold_entry kv s = Inr s'"
    then show "case s' of (l, br) \<Rightarrow> units l \<and> units br"
      by (cases kv; cases s; cases "snd kv") (auto simp: threshold_entry_def dest: threshold_field_units)
  qed
  then show ?thesis by simp
qed

section \<open>The verdict\<close>

text \<open>A file meets its targets.\<close>

definition meets :: "thresholds \<Rightarrow> file_coverage \<Rightarrow> bool" where
  "meets th fc \<longleftrightarrow>
     (case (line_coverage_percent fc, branch_coverage_percent fc) of
        (Inr l, Inr br) \<Rightarrow> \<not> fl_less l (target_lines th fc) \<and> \<not> fl_less br (target_branch th fc)
      | _ \<Rightarrow> False)"

definition countable_coverage :: "file_coverage \<Rightarrow> bool" where
  "countable_coverage fc \<longleftrightarrow> \<not> isl (line_coverage_percent fc) \<and> \<not> isl (branch_coverage_percent fc)"

text \<open>A script that returns from every world, with a result that satisfies \<open>P\<close>.\<close>

definition yields :: "'a script \<Rightarrow> ('a \<Rightarrow> bool) \<Rightarrow> bool" where
  "yields m P \<longleftrightarrow> (\<forall>w. \<exists>x w'. m w = (Inr x, w') \<and> P x)"

lemma yields_bind: "yields m Q \<Longrightarrow> (\<And>x. Q x \<Longrightarrow> yields (f x) P) \<Longrightarrow> yields (io_bind m f) P"
  unfolding yields_def by (metis io_bind_apply)

lemma yields_return: "P x \<Longrightarrow> yields (io_return x) P"
  by (simp add: yields_def io_return_def)

lemma yields_print: "yields (print_to s m) (\<lambda>_. True)"
  by (simp add: yields_def print_to_def)

lemma yields_lift: "r = Inr x \<Longrightarrow> P x \<Longrightarrow> yields (io_lift r) P"
  by (simp add: yields_def io_lift_def)

lemma report_file_yields:
  assumes "countable_coverage fc"
  shows "yields (report_file th n fc st) (\<lambda>st'. rs_valid st' = (rs_valid st \<and> meets th fc))"
proof -
  obtain l br where c: "line_coverage_percent fc = Inr l" "branch_coverage_percent fc = Inr br"
    using assms by (cases "line_coverage_percent fc"; cases "branch_coverage_percent fc")
      (auto simp: countable_coverage_def)
  show ?thesis unfolding report_file_def c generate_summary_line_def
    unfolding io_bind_lift res_bind_simps
    by (rule yields_bind [OF yields_print], rule yields_return) (simp add: meets_def c)
qed

lemma report_loop_yields:
  "list_all countable_coverage fcs \<Longrightarrow>
     yields (report_loop th n fcs st) (\<lambda>st'. rs_valid st' = (rs_valid st \<and> list_all (meets th) fcs))"
proof (induction fcs arbitrary: st)
  case (Cons fc fcs)
  have "yields (report_loop th n fcs st1) (\<lambda>st'. rs_valid st' = (rs_valid st \<and> list_all (meets th) (fc # fcs)))"
    if "rs_valid st1 = (rs_valid st \<and> meets th fc)" for st1
    using Cons.IH [of st1] Cons.prems that by (simp add: conj_assoc)
  then show ?case using Cons.prems by (auto intro: yields_bind [OF report_file_yields])
qed (simp add: yields_return)

lemma missing_loop_yields: "yields (missing_loop fcs any) (\<lambda>_. True)"
  by (induction fcs arbitrary: any) (auto intro!: yields_return yields_bind [OF yields_print] simp: Let_def)

text \<open>
  \<^verbatim>\<open>print_and_validate_report\<close> returns True exactly when every file reaches its line and its branch target
  (the per-file one if given, else the global one).
\<close>

lemma report_verdict:
  assumes "list_all countable_coverage (dict_values d)"
  shows "yields (print_and_validate_report d th) (\<lambda>v. v = list_all (meets th) (dict_values d))"
  unfolding print_and_validate_report_def
  by (intro yields_bind [OF yields_print] yields_bind [OF report_loop_yields [OF assms]]
      yields_bind [OF missing_loop_yields])
    (auto intro!: yields_bind [OF yields_print] yields_return)

section \<open>Data lines\<close>

lemma py_replace_prefix: "old \<noteq> [] \<Longrightarrow> py_replace old new (old @ s) = new @ py_replace old new s"
  by (subst py_replace.simps) (auto simp: startswith_def)

lemma py_replace_absent: "hd old \<notin> set s \<Longrightarrow> old \<noteq> [] \<Longrightarrow> py_replace old new s = s"
proof (induction s)
  case (Cons c s)
  then have "\<not> startswith (c # s) old" by (cases old) (auto simp: startswith_def)
  with Cons show ?case by (subst py_replace.simps) simp
qed (simp add: py_replace.simps)

lemma show_int_not: "\<not> is_digit c \<Longrightarrow> c \<noteq> CHR ''-'' \<Longrightarrow> c \<notin> set (show_int i)"
  using show_int_chars by blast

lemma strip_prefix_int:
  assumes "p \<noteq> []" and "\<not> is_digit (hd p)" and "hd p \<noteq> CHR ''-''"
  shows "py_int (py_replace p [] (p @ show_int n)) = Inr n"
  using assms show_int_not [OF assms(2,3), of n]
  by (simp add: py_replace_prefix py_replace_absent py_int_def)

lemma da_parts:
  "split_on (CHR '','') (''DA:'' @ show_int n @ '','' @ show_int c) = [''DA:'' @ show_int n, show_int c]"
  using split_on_append [of "CHR '',''" "''DA:'' @ show_int n" "show_int c"]
    split_on_none [of "CHR '',''" "show_int c"] show_int_not [of "CHR '',''"]
  by (simp add: is_digit_def)

lemma parse_da_line:
  "parse_lcov_data_line (''DA:'' @ show_int n @ '','' @ show_int c) fc =
     Inr (if c = 0 then fc\<lparr>uncovered_lines := uncovered_lines fc @ [n]\<rparr> else fc)"
proof -
  have r: "py_int (py_replace ''DA:'' [] (''DA:'' @ show_int n)) = Inr n"
    by (rule strip_prefix_int) (simp_all add: is_digit_def)
  have i: "py_int (show_int c) = Inr c" by (simp add: py_int_def)
  show ?thesis
    unfolding parse_lcov_data_line_def parse_da_def da_parts
    using r i by (simp add: startswith_def list_item_def)
qed

section \<open>Properties\<close>

text \<open>
  C35: the ranges that \<^verbatim>\<open>group_consecutive_numbers\<close> prints stand for exactly the given numbers, in ascending
  order and with their multiplicity; every range is non-empty and none continues the one before it.
\<close>

theorem grouping_is_exact:
  "expand (number_ranges ns) = sort ns \<and> separated (number_ranges ns) \<and>
   list_all (\<lambda>(lo, hi). lo \<le> hi) (number_ranges ns)"
proof (cases "sort ns")
  case (Cons m ms)
  then show ?thesis
    using ranges_loop_expand [of m m ms] ranges_loop_separated ranges_loop_ordered [of m m ms]
    by (simp add: number_ranges_def)
qed (simp add: number_ranges_def expand_def)

text \<open>For a width of three or less the promise of the doc string does not hold.\<close>

lemma fit_to_column_narrow: "py_len (fit_to_column ''main.cc'' 3) = 10"
  by code_simp

text \<open>
  For consistent counters (0 <= hit <= found) the line and branch coverage are floating-point numbers
  between 0 and 1, and a file without lines or branches counts as fully covered.
\<close>

lemma coverage_in_unit_interval:
  assumes "0 \<le> lines_hit fc" and "lines_hit fc \<le> lines_found fc"
    and "0 \<le> branches_hit fc" and "branches_hit fc \<le> branches_found fc"
  shows "\<exists>l br. line_coverage_percent fc = Inr l \<and> branch_coverage_percent fc = Inr br \<and> in_unit l \<and> in_unit br"
proof -
  have "\<exists>l. line_coverage_percent fc = Inr l \<and> in_unit l"
    using int_truediv_unit [OF assms(1,2)] assms(1,2)
    by (cases "lines_found fc = 0") (auto simp: line_coverage_percent_def in_unit_def)
  moreover have "\<exists>br. branch_coverage_percent fc = Inr br \<and> in_unit br"
    using int_truediv_unit [OF assms(3,4)] assms(3,4)
    by (cases "branches_found fc = 0") (auto simp: branch_coverage_percent_def in_unit_def)
  ultimately show ?thesis by blast
qed

text \<open>
  C36: every threshold that \<^verbatim>\<open>parse_thresholds_file\<close> returns lies between 0 and 1, whatever the JSON file contains
  (out-of-range values, infinities and NaN are rejected).
\<close>

theorem thresholds_in_unit_interval:
  assumes "parse_thresholds_file err p w = (Inr (ls, bs), w')"
  shows "units ls \<and> units bs"
proof -
  have "thresholds_of (w_fs w) (w_cwd w) p = Inr (ls, bs)"
    using assms
    by (auto simp: parse_thresholds_file_def io_catch_def query_res_def io_bind_def print_to_def sys_exit_def
        io_raise_def split: sum.splits if_splits)
  then show ?thesis by (rule thresholds_of_units)
qed

definition demo_threshold_world :: world where
  "demo_threshold_world = \<lparr>w_fs = [([], Dir), ([''t.json''], File
      (map (\<lambda>c. if c = CHR ''!'' then CHR 0x22 else c) ''{!a.cc!: {!lines!: 0}}'') 420)],
     w_cwd = [], w_env = [], w_trace = []\<rparr>"

theorem thresholds_in_unit_interval_witness:
  "\<exists>l br w'. parse_thresholds_file (\<lambda>_. []) (to_path ''t.json'') demo_threshold_world = (Inr (l, br), w') \<and>
     l \<noteq> [] \<and> units l \<and> units br"
proof -
  have "case fst (parse_thresholds_file (\<lambda>_. []) (to_path ''t.json'') demo_threshold_world) of
      Inr (l, br) \<Rightarrow> l \<noteq> [] | Inl _ \<Rightarrow> False" by code_simp
  then obtain l br w' where "parse_thresholds_file (\<lambda>_. []) (to_path ''t.json'') demo_threshold_world =
      (Inr (l, br), w')" "l \<noteq> []"
    by (cases "parse_thresholds_file (\<lambda>_. []) (to_path ''t.json'') demo_threshold_world")
      (auto split: sum.splits)
  then show ?thesis using thresholds_in_unit_interval by blast
qed

text \<open>
  A data line \<^verbatim>\<open>DA:<line>,<count>\<close> adds its line to the uncovered lines exactly when its count is 0, and
  changes nothing else, for all line numbers and counts.
\<close>

lemma da_line_marks_uncovered:
  "parse_lcov_data_line (''DA:'' @ show_int n @ '','' @ show_int c) fc =
     Inr (if c = 0 then fc\<lparr>uncovered_lines := uncovered_lines fc @ [n]\<rparr> else fc)"
  by (rule parse_da_line)

end
