(* ===== verification/Lcov_Roundtrip.thy ===== *)
theory Lcov_Roundtrip
  imports Coverage_Spec
begin

text \<open>
  The lcov parser of \<^verbatim>\<open>scripts/coverage_report.py\<close> against the file format: a printer for tracefiles,
  and that parsing a printed tracefile gives back its contents.
\<close>

section \<open>Tracefiles\<close>

text \<open>
  A record of a tracefile: the source file, lines of other kinds (functions, test names, checksums),
  the execution count of each line, and for each branch its line, block, number and either
  \<^verbatim>\<open>-\<close> (\<open>None\<close>: the block was never entered) or how often it was taken.
\<close>

record lcov_record =
  lr_path :: string
  lr_other :: "string list"
  lr_lines :: "(int \<times> int) list"
  lr_branches :: "(int \<times> int \<times> int \<times> int option) list"

definition taken :: "int \<times> int \<times> int \<times> int option \<Rightarrow> bool" where
  "taken = (\<lambda>(l, b, i, m). m \<noteq> None \<and> m \<noteq> Some 0)"

definition da_line :: "int \<times> int \<Rightarrow> string" where
  "da_line = (\<lambda>(n, c). ''DA:'' @ show_int n @ '','' @ show_int c)"

definition brda_line :: "int \<times> int \<times> int \<times> int option \<Rightarrow> string" where
  "brda_line = (\<lambda>(l, b, i, m). ''BRDA:'' @ show_int l @ '','' @ show_int b @ '','' @ show_int i @ '','' @
     (case m of None \<Rightarrow> ''-'' | Some n \<Rightarrow> show_int n))"

definition count_of :: "('a \<Rightarrow> bool) \<Rightarrow> 'a list \<Rightarrow> int" where
  "count_of P xs = int (length (filter P xs))"

definition body_lines :: "lcov_record \<Rightarrow> string list" where
  "body_lines r = lr_other r @ map da_line (lr_lines r) @ map brda_line (lr_branches r) @
     [''BRF:'' @ show_int (count_of (\<lambda>_. True) (lr_branches r)),
      ''BRH:'' @ show_int (count_of taken (lr_branches r)),
      ''LF:'' @ show_int (count_of (\<lambda>_. True) (lr_lines r)),
      ''LH:'' @ show_int (count_of (\<lambda>(n, c). c \<noteq> 0) (lr_lines r))]"

definition record_lines :: "lcov_record \<Rightarrow> string list" where
  "record_lines r = (''SF:'' @ lr_path r) # body_lines r @ [''end_of_record'']"

definition print_lcov :: "lcov_record list \<Rightarrow> string" where
  "print_lcov rs = concat (map (\<lambda>l. l @ newline) (concat (map record_lines rs)))"

text \<open>What the report should know of a record.\<close>

definition coverage_of :: "lcov_record \<Rightarrow> file_coverage" where
  "coverage_of r =
     \<lparr>file_path = lr_path r,
      lines_found = count_of (\<lambda>_. True) (lr_lines r), lines_hit = count_of (\<lambda>(n, c). c \<noteq> 0) (lr_lines r),
      branches_found = count_of (\<lambda>_. True) (lr_branches r), branches_hit = count_of taken (lr_branches r),
      uncovered_lines = map fst (filter (\<lambda>(n, c). c = 0) (lr_lines r)),
      uncovered_branches = map (\<lambda>(l, b, i, m). (l, b, i)) (filter (\<lambda>(l, b, i, m). m = None) (lr_branches r))\<rparr>"

definition plain_line :: "string \<Rightarrow> bool" where
  "plain_line l \<longleftrightarrow> strip l = l \<and> CHR 0x0A \<notin> set l \<and> CHR 0x0D \<notin> set l"

definition other_line :: "string \<Rightarrow> bool" where
  "other_line l \<longleftrightarrow> plain_line l \<and> l \<noteq> ''end_of_record'' \<and>
     list_all (\<lambda>p. \<not> startswith l p) [''SF:'', ''LF:'', ''LH:'', ''BRF:'', ''BRH:'', ''DA:'', ''BRDA'']"

definition record_ok :: "lcov_record \<Rightarrow> bool" where
  "record_ok r \<longleftrightarrow> lr_path r \<noteq> [] \<and> plain_line (''SF:'' @ lr_path r) \<and> \<not> str_contains ''SF:'' (lr_path r) \<and>
     list_all other_line (lr_other r)"

section \<open>Lines of a file\<close>

lemma file_lines_acc_line:
  "CHR 0x0A \<notin> set l \<Longrightarrow> CHR 0x0D \<notin> set l \<Longrightarrow>
     file_lines_acc acc (l @ CHR 0x0A # s) = (acc @ l) # file_lines_acc [] s"
  by (induction l arbitrary: acc) auto

lemma file_lines_print:
  "list_all plain_line ls \<Longrightarrow> file_lines (concat (map (\<lambda>l. l @ newline) ls)) = ls"
  unfolding file_lines_def
  by (induction ls) (auto simp: plain_line_def file_lines_acc_line)

text \<open>Printable ASCII text without spaces survives \<^verbatim>\<open>strip\<close>.\<close>

definition visible :: "char \<Rightarrow> bool" where
  "visible c \<longleftrightarrow> is_ascii c \<and> \<not> is_space [c]"

lemma plain_visible: "list_all visible l \<Longrightarrow> plain_line l"
proof -
  assume v: "list_all visible l"
  then have "strip l = l" by (intro strip_no_space) (auto simp: visible_def list_all_iff)
  moreover have "\<not> visible (CHR 0x0A)" "\<not> visible (CHR 0x0D)"
    by (simp_all add: visible_def is_space_def space_cps_def)
  ultimately show ?thesis using v by (auto simp: plain_line_def list_all_iff)
qed

lemma visible_int: "list_all visible (show_int n)"
  unfolding list_all_iff
proof
  fix c
  assume "c \<in> set (show_int n)"
  then consider "is_digit c" | "c = CHR ''-''" using show_int_chars by blast
  then show "visible c"
  proof cases
    case 1
    then show ?thesis using digit_ascii [of c] digit_no_space [of c] by (simp add: visible_def)
  next
    case 2
    then show ?thesis by (simp add: visible_def is_ascii_def is_space_def space_cps_def)
  qed
qed

lemma visible_const:
  "list_all visible ''DA:''" "list_all visible ''BRDA:''" "list_all visible ''BRF:''" "list_all visible ''BRH:''"
  "list_all visible ''LF:''" "list_all visible ''LH:''" "list_all visible '',''" "list_all visible ''-''"
  "list_all visible ''end_of_record''"
  by code_simp+

lemma data_line_plain:
  "plain_line (da_line nc)" "plain_line (brda_line br)" "plain_line ''end_of_record''"
  "plain_line (''BRF:'' @ show_int n)" "plain_line (''BRH:'' @ show_int n)"
  "plain_line (''LF:'' @ show_int n)" "plain_line (''LH:'' @ show_int n)"
proof -
  obtain a b where nc: "nc = (a, b)" by fastforce
  show "plain_line (da_line nc)"
    unfolding nc da_line_def prod.case by (intro plain_visible) (simp only: list_all_append visible_const visible_int)
  obtain l b i m where br: "br = (l, b, i, m)" by (cases br)
  show "plain_line (brda_line br)"
    unfolding br brda_line_def prod.case
    by (intro plain_visible, cases m) (simp_all only: option.case list_all_append visible_const visible_int)
qed (intro plain_visible; simp only: list_all_append visible_const visible_int)+

section \<open>Parsing one line\<close>

lemma parse_counts:
  "parse_lcov_data_line (''LF:'' @ show_int n) fc = Inr (fc\<lparr>lines_found := n\<rparr>)"
  "parse_lcov_data_line (''LH:'' @ show_int n) fc = Inr (fc\<lparr>lines_hit := n\<rparr>)"
  "parse_lcov_data_line (''BRF:'' @ show_int n) fc = Inr (fc\<lparr>branches_found := n\<rparr>)"
  "parse_lcov_data_line (''BRH:'' @ show_int n) fc = Inr (fc\<lparr>branches_hit := n\<rparr>)"
  using strip_prefix_int [of "''LF:''" n] strip_prefix_int [of "''LH:''" n] strip_prefix_int [of "''BRF:''" n]
    strip_prefix_int [of "''BRH:''" n]
  by (simp_all add: parse_lcov_data_line_def startswith_def is_digit_def)

lemma show_int_not_dash: "show_int n \<noteq> ''-''"
proof
  assume "show_int n = ''-''"
  then have "parse_int ''-'' = Some n" using parse_int_show_int [of n] by simp
  moreover have "parse_int ''-'' = None" by code_simp
  ultimately show False by simp
qed

lemma brda_parts:
  "split_on (CHR '','') (brda_line (l, b, i, m)) =
     [''BRDA:'' @ show_int l, show_int b, show_int i, (case m of None \<Rightarrow> ''-'' | Some n \<Rightarrow> show_int n)]"
proof -
  let ?fs = "[''BRDA:'' @ show_int l, show_int b, show_int i, (case m of None \<Rightarrow> ''-'' | Some n \<Rightarrow> show_int n)]"
  have "brda_line (l, b, i, m) = join '','' ?fs" by (simp add: brda_line_def)
  moreover have "split_on (CHR '','') (join '','' ?fs) = ?fs"
    using show_int_not [of "CHR '',''"] by (intro split_on_join) (auto simp: is_digit_def split: option.splits)
  ultimately show ?thesis by simp
qed

lemma parse_brda_line:
  "parse_lcov_data_line (brda_line (l, b, i, m)) fc =
     Inr (if m = None then fc\<lparr>uncovered_branches := uncovered_branches fc @ [(l, b, i)]\<rparr> else fc)"
proof -
  have r: "py_int (py_replace ''BRDA:'' [] (''BRDA:'' @ show_int l)) = Inr l"
    by (rule strip_prefix_int) (simp_all add: is_digit_def)
  have i: "py_int (show_int c) = Inr c" for c by (simp add: py_int_def)
  have "parse_lcov_data_line (brda_line (l, b, i, m)) fc = parse_brda (brda_line (l, b, i, m)) fc"
    by (simp add: parse_lcov_data_line_def brda_line_def startswith_def)
  then show ?thesis
    unfolding parse_brda_def brda_parts
    using r i show_int_not_dash by (cases m) (auto simp: list_item_def)
qed

lemma parse_other_line: "other_line l \<Longrightarrow> parse_lcov_data_line l fc = Inr fc"
  by (simp add: other_line_def parse_lcov_data_line_def)

section \<open>Parsing a record\<close>

lemma fold_other:
  "list_all other_line ls \<Longrightarrow> res_fold parse_lcov_data_line ls fc = Inr fc"
  by (induction ls) (auto simp: parse_other_line)

lemma parse_da_entry:
  "parse_lcov_data_line (da_line (n, c)) fc =
     Inr (if c = 0 then fc\<lparr>uncovered_lines := uncovered_lines fc @ [n]\<rparr> else fc)"
  unfolding da_line_def prod.case by (rule parse_da_line)

lemma fold_da:
  "res_fold parse_lcov_data_line (map da_line ncs) fc =
     Inr (fc\<lparr>uncovered_lines := uncovered_lines fc @ map fst (filter (\<lambda>(n, c). c = 0) ncs)\<rparr>)"
  by (induction ncs arbitrary: fc) (auto simp: parse_da_entry)

lemma fold_brda:
  "res_fold parse_lcov_data_line (map brda_line brs) fc =
     Inr (fc\<lparr>uncovered_branches := uncovered_branches fc @
       map (\<lambda>(l, b, i, m). (l, b, i)) (filter (\<lambda>(l, b, i, m). m = None) brs)\<rparr>)"
  by (induction brs arbitrary: fc) (auto simp: parse_brda_line)

lemma parse_body:
  assumes "record_ok r"
  shows "res_fold parse_lcov_data_line (body_lines r) (new_file_coverage (lr_path r)) = Inr (coverage_of r)"
  using assms
  by (simp add: record_ok_def body_lines_def res_fold_append fold_other fold_da fold_brda parse_counts [simplified]
      new_file_coverage_def coverage_of_def)

section \<open>Parsing the file\<close>

lemma update_last: "p \<notin> fst ` set d \<Longrightarrow> AList.update p v (d @ [(p, u)]) = d @ [(p, v)]"
  by (induction d) auto

lemma update_new: "p \<notin> fst ` set d \<Longrightarrow> AList.update p v d = d @ [(p, v)]"
  by (induction d) auto

lemma map_of_last: "p \<notin> fst ` set d \<Longrightarrow> map_of (d @ [(p, v)]) p = Some v"
  by (induction d) auto

definition body_line :: "string \<Rightarrow> bool" where
  "body_line l \<longleftrightarrow> plain_line l \<and> l \<noteq> ''end_of_record'' \<and> \<not> startswith l ''SF:''"

lemma body_line_body: "record_ok r \<Longrightarrow> list_all body_line (body_lines r)"
  using data_line_plain
  by (auto simp: record_ok_def body_lines_def list_all_iff body_line_def other_line_def da_line_def brda_line_def
      startswith_def split: prod.splits)

lemma lcov_body_line:
  assumes "body_line l" and "p \<noteq> []" and "p \<notin> fst ` set d"
  shows "lcov_line l (d @ [(p, fc)], Some p) =
    res_bind (parse_lcov_data_line l fc) (\<lambda>fc'. Inr (d @ [(p, fc')], Some p))"
  using assms by (simp add: lcov_line_def body_line_def plain_line_def map_of_last update_last del: map_of_append)

lemma fold_body:
  assumes "list_all body_line ls" and "p \<noteq> []" and "p \<notin> fst ` set d"
  shows "res_fold lcov_line ls (d @ [(p, fc)], Some p) =
    res_bind (res_fold parse_lcov_data_line ls fc) (\<lambda>fc'. Inr (d @ [(p, fc')], Some p))"
  using assms(1)
proof (induction ls arbitrary: fc)
  case (Cons l ls)
  then show ?case
    by (cases "parse_lcov_data_line l fc") (simp_all add: lcov_body_line [OF _ assms(2,3)])
qed simp

lemma py_replace_not_contained: "old \<noteq> [] \<Longrightarrow> \<not> str_contains old s \<Longrightarrow> py_replace old new s = s"
proof (induction s)
  case (Cons c s)
  then show ?case by (subst py_replace.simps) simp
qed (simp add: py_replace.simps)

lemma lcov_start:
  assumes "record_ok r" and "lr_path r \<notin> fst ` set d"
  shows "lcov_line (''SF:'' @ lr_path r) (d, cur) = Inr (d @ [(lr_path r, new_file_coverage (lr_path r))], Some (lr_path r))"
proof -
  have "strip (''SF:'' @ lr_path r) = ''SF:'' @ lr_path r" using assms(1) by (simp add: record_ok_def plain_line_def)
  moreover have "py_replace ''SF:'' [] (''SF:'' @ lr_path r) = lr_path r"
    using py_replace_prefix [of "''SF:''" "[]" "lr_path r"] py_replace_not_contained [of "''SF:''" "lr_path r" "[]"] assms(1)
    by (simp add: record_ok_def)
  moreover have "startswith (''SF:'' @ lr_path r) ''SF:''" by (simp add: startswith_def)
  ultimately show ?thesis by (simp only: lcov_line_def prod.case Let_def if_True update_new [OF assms(2)])
qed

lemma lcov_end: "lcov_line ''end_of_record'' (d, cur) = Inr (d, None)"
  using data_line_plain(3) by (simp add: lcov_line_def plain_line_def startswith_def)

lemma fold_record:
  assumes "record_ok r" and "lr_path r \<notin> fst ` set d"
  shows "res_fold lcov_line (record_lines r) (d, cur) = Inr (d @ [(lr_path r, coverage_of r)], None)"
proof -
  have p: "lr_path r \<noteq> []" using assms(1) by (simp add: record_ok_def)
  have "res_fold lcov_line (body_lines r) (d @ [(lr_path r, new_file_coverage (lr_path r))], Some (lr_path r)) =
      Inr (d @ [(lr_path r, coverage_of r)], Some (lr_path r))"
    by (simp add: fold_body [OF body_line_body [OF assms(1)] p assms(2)] parse_body [OF assms(1)])
  then show ?thesis
    using lcov_start [OF assms] by (simp add: record_lines_def res_fold_append lcov_end del: append_Cons)
qed

lemma fold_records:
  assumes "list_all record_ok rs" and "distinct (map fst d @ map lr_path rs)"
  shows "res_fold lcov_line (concat (map record_lines rs)) (d, None) =
    Inr (d @ map (\<lambda>r. (lr_path r, coverage_of r)) rs, None)"
  using assms
proof (induction rs arbitrary: d)
  case (Cons r rs)
  then have "lr_path r \<notin> fst ` set d" by auto
  with Cons fold_record [of r d] show ?case by (simp add: res_fold_append)
qed simp

lemma parse_print:
  assumes "list_all record_ok rs" and "distinct (map lr_path rs)"
  shows "parse_lcov (print_lcov rs) = Inr (map (\<lambda>r. (lr_path r, coverage_of r)) rs)"
proof -
  have "list_all plain_line (record_lines r)" if "record_ok r" for r
    using that body_line_body [OF that] data_line_plain(3)
    by (auto simp: record_lines_def record_ok_def list_all_iff body_line_def)
  then have "list_all plain_line (concat (map record_lines rs))" using assms(1) by (auto simp: list_all_iff)
  then show ?thesis
    using fold_records [OF assms(1), of "[]"] assms(2) by (simp add: parse_lcov_def print_lcov_def file_lines_print)
qed

lemma count_of_bounds: "0 \<le> count_of P xs" "count_of P xs \<le> count_of (\<lambda>_. True) xs"
  by (simp_all add: count_of_def)

lemma missed_branches:
  "int (length (filter (\<lambda>(l, b, i, m). m = None) brs)) =
     count_of (\<lambda>_. True) brs - count_of taken brs - count_of (\<lambda>(l, b, i, m). m = Some 0) brs"
  by (induction brs) (auto simp: count_of_def taken_def)

lemma missing_report_empty:
  "generate_missing_coverage_report fc = [] \<longleftrightarrow> uncovered_lines fc = [] \<and> uncovered_branches fc = []"
  by (simp add: generate_missing_coverage_report_def Let_def)

lemma countable_coverage_of: "countable_coverage (coverage_of r)"
proof -
  have "\<exists>l br. line_coverage_percent (coverage_of r) = Inr l \<and> branch_coverage_percent (coverage_of r) = Inr br \<and>
      in_unit l \<and> in_unit br"
    by (rule coverage_in_unit_interval) (simp_all add: coverage_of_def count_of_bounds)
  then show ?thesis by (auto simp: countable_coverage_def)
qed

lemma lcov_report:
  assumes "list_all record_ok rs" and "distinct (map lr_path rs)"
    and "read_text (w_fs w) (w_cwd w) p = Inr (print_lcov rs)"
  shows "\<exists>w'. generate_lcov_report p th w = (Inr (list_all (meets th \<circ> coverage_of) rs), w')"
proof -
  let ?d = "map (\<lambda>r. (lr_path r, coverage_of r)) rs"
  have v: "dict_values ?d = map coverage_of rs" by (induction rs) (auto simp: dict_values_def)
  then have "list_all countable_coverage (dict_values ?d)"
    by (simp add: list_all_iff countable_coverage_of)
  from report_verdict [OF this, of th] obtain w' where
    "print_and_validate_report ?d th w = (Inr (list_all (meets th \<circ> coverage_of) rs), w')"
    unfolding yields_def v by (auto simp: list.pred_map)
  then show ?thesis
    by (simp add: generate_lcov_report_def io_catch_def io_bind_def query_res_def assms(3) parse_print [OF assms(1,2)])
qed

section \<open>Properties\<close>

text \<open>
  C33: The parser of coverage data is the inverse of the tracefile format: from a printed tracefile it
  recovers every source file in order, its numbers of lines and branches found and hit, the lines
  with count 0 and the branches marked \<^verbatim>\<open>-\<close>, skipping lines of other kinds.
\<close>

theorem lcov_roundtrip:
  assumes "list_all record_ok rs" and "distinct (map lr_path rs)"
  shows "parse_lcov (print_lcov rs) = Inr (map (\<lambda>r. (lr_path r, coverage_of r)) rs)"
  using assms by (rule parse_print)

definition demo_record :: lcov_record where
  "demo_record = \<lparr>lr_path = ''a/b.cc'', lr_other = [''TN:x'', ''FN:1,f''], lr_lines = [(1, 3), (2, 0)],
     lr_branches = [(1, 0, 0, Some 2), (1, 0, 1, None)]\<rparr>"

lemma demo_record_ok: "list_all record_ok [demo_record]" "distinct (map lr_path [demo_record])"
  by code_simp+

theorem lcov_roundtrip_witness:
  "parse_lcov (print_lcov [demo_record]) = Inr [(''a/b.cc'',
     \<lparr>file_path = ''a/b.cc'', lines_found = 2, lines_hit = 1, branches_found = 2, branches_hit = 1,
      uncovered_lines = [2], uncovered_branches = [(1, 0, 1)]\<rparr>)]"
  unfolding lcov_roundtrip [OF demo_record_ok]
  by (simp add: demo_record_def coverage_of_def count_of_def taken_def)


text \<open>A project whose tracefile has the record above, below the target of 60 percent.\<close>

definition demo_cov_world :: world where
  "demo_cov_world = \<lparr>w_fs = [([], Dir), ([''p''], Dir), ([''p'', ''devkit''], Dir), ([''p'', ''bazel-out''], Dir),
       ([''p'', ''bazel-out'', ''_coverage''], Dir),
       ([''p'', ''bazel-out'', ''_coverage'', ''_coverage_report.dat''], File (print_lcov [demo_record]) 420)],
     w_cwd = [''p''], w_env = [], w_trace = []\<rparr>"

definition demo_bazel :: runner where
  "demo_bazel w cmd = (Exited 0 [] [], w_fs w)"

definition demo_cov_args :: coverage_args where
  "demo_cov_args = \<lparr>cv_target = ''//...'', cv_lines = Fin 60, cv_branch = Fin 0, cv_thresholds_file = None\<rparr>"

definition demo_report :: ppath where
  "demo_report = to_path ''/p/bazel-out/_coverage/_coverage_report.dat''"


text \<open>
  C39: For every tracefile record the script lists as uncovered the branches of blocks that were never
  executed (marker \<^verbatim>\<open>-\<close>) and no others: of the branches that count as missed in the branch coverage,
  those that were executed but never taken (count 0) are not listed. The report of missing coverage is
  empty as soon as no line has count 0 and no branch has \<^verbatim>\<open>-\<close>, however many branches were missed.
\<close>

theorem untaken_branch_not_listed:
  assumes "record_ok r"
  shows "\<exists>fc. parse_lcov (print_lcov [r]) = Inr [(lr_path r, fc)] \<and>
    int (length (uncovered_branches fc)) =
      branches_found fc - branches_hit fc - count_of (\<lambda>(l, b, i, m). m = Some 0) (lr_branches r) \<and>
    (generate_missing_coverage_report fc = []) =
      (count_of (\<lambda>(n, c). c = 0) (lr_lines r) = 0 \<and> count_of (\<lambda>(l, b, i, m). m = None) (lr_branches r) = 0)"
proof (intro exI conjI)
  show "parse_lcov (print_lcov [r]) = Inr [(lr_path r, coverage_of r)]" using parse_print [of "[r]"] assms by simp
  show "int (length (uncovered_branches (coverage_of r))) =
      branches_found (coverage_of r) - branches_hit (coverage_of r) - count_of (\<lambda>(l, b, i, m). m = Some 0) (lr_branches r)"
    using missed_branches [of "lr_branches r"] by (simp add: coverage_of_def)
qed (simp add: missing_report_empty coverage_of_def count_of_def)

definition untaken_record :: lcov_record where
  "untaken_record = \<lparr>lr_path = ''a.cc'', lr_other = [], lr_lines = [(1, 1)],
     lr_branches = [(1, 0, 0, Some 1), (1, 0, 1, Some 0)]\<rparr>"

theorem untaken_branch_not_listed_witness:
  "\<exists>fc. parse_lcov (print_lcov [untaken_record]) = Inr [(''a.cc'', fc)] \<and>
     branches_found fc - branches_hit fc = 1 \<and> uncovered_branches fc = [] \<and> generate_missing_coverage_report fc = []"
proof -
  have ok: "record_ok untaken_record" by code_simp
  from untaken_branch_not_listed [OF ok] obtain fc where
    fc: "parse_lcov (print_lcov [untaken_record]) = Inr [(''a.cc'', fc)]" "generate_missing_coverage_report fc = []"
      "int (length (uncovered_branches fc)) = branches_found fc - branches_hit fc - 1"
    by (auto simp: untaken_record_def count_of_def)
  then have "uncovered_branches fc = []" by (simp add: missing_report_empty)
  with fc show ?thesis by simp
qed

end
