(* ===== verification/Py_Walk.thy ===== *)
theory Py_Walk
  imports Py_World
begin

text \<open>
  Facts about the kernel's path walk (its budget of links, walks in two parts, the locations it
  reaches) and \<^verbatim>\<open>os.walk\<close> on the modelled file system.
\<close>

section \<open>The budget of a path walk\<close>

text \<open>The walk of \<^const>\<open>walk\<close> that follows every link, with the links it could still follow at the end.\<close>

function walk_rem :: "fsys \<Rightarrow> nat \<Rightarrow> loc \<Rightarrow> string list \<Rightarrow> (loc \<times> nat) option" where
  "walk_rem fs n cur [] = Some (cur, n)"
| "walk_rem fs n cur (c # cs) =
     (if node_at fs cur \<noteq> Some Dir then None
      else if c = [] \<or> c = ''.'' then walk_rem fs n cur cs
      else if c = ''..'' then walk_rem fs n (butlast cur) cs
      else (case node_at fs (cur @ [c]) of
          None \<Rightarrow> None
        | Some (Symlink t) \<Rightarrow>
            if n = 0 then None
            else walk_rem fs (n - 1) (if startswith t ''/'' then [] else cur)
                   (split_on (CHR ''/'') t @ cs)
        | Some _ \<Rightarrow> walk_rem fs n (cur @ [c]) cs))"
  by pat_completeness auto
termination
  by (relation "measures [\<lambda>(fs, n, cur, cs). n, \<lambda>(fs, n, cur, cs). length cs]") auto

lemma walk_follow: "walk fs True n cur cs = map_option fst (walk_rem fs n cur cs)"
  by (induction fs n cur cs rule: walk_rem.induct) (auto split: option.split node.split)

lemma walk_rem_append:
  "walk_rem fs n cur (as @ bs) =
   (case walk_rem fs n cur as of None \<Rightarrow> None | Some (d, m) \<Rightarrow> walk_rem fs m d bs)"
  by (induction fs n cur as rule: walk_rem.induct) (auto split: option.split node.split)

lemma walk_nofollow:
  "walk fs False n cur (ps @ [c]) =
   (case walk_rem fs n cur ps of None \<Rightarrow> None | Some (d, m) \<Rightarrow> walk fs False m d [c])"
  by (induction fs n cur ps rule: walk_rem.induct) (auto split: option.split node.split)

lemma walk_rem_Cons:
  "walk_rem fs n cur (c # cs) =
   (case walk_rem fs n cur [c] of None \<Rightarrow> None | Some (d, m) \<Rightarrow> walk_rem fs m d cs)"
  using walk_rem_append [of fs n cur "[c]" cs] by simp

text \<open>A larger budget changes nothing but the rest of it.\<close>

lemma walk_rem_budget:
  "walk_rem fs n cur cs = Some (l, r) \<Longrightarrow> r \<le> n \<and> walk_rem fs (n + k) cur cs = Some (l, r + k)"
proof (induction fs n cur cs rule: walk_rem.induct)
  case (2 fs n cur c cs)
  from "2.prems" have dir: "node_at fs cur = Some Dir" by (auto split: if_splits)
  consider "c = [] \<or> c = ''.'' \<or> c = ''..''"
    | t where "node_at fs (cur @ [c]) = Some (Symlink t)" "c \<noteq> []" "c \<noteq> ''.''" "c \<noteq> ''..''"
    | nd where "node_at fs (cur @ [c]) = Some nd" "\<And>t. nd \<noteq> Symlink t" "c \<noteq> []" "c \<noteq> ''.''" "c \<noteq> ''..''"
    using "2.prems" dir by (auto split: if_splits option.splits node.splits)
  then show ?case
  proof cases
    case 1
    with "2.IH"(1,2) "2.prems" dir show ?thesis by auto
  next
    case (2 t)
    with "2.prems" dir have "n \<noteq> 0" by (auto split: if_splits)
    then have "n + k - 1 = n - 1 + k" by simp
    with 2 "2.IH"(5) [OF _ _ _ 2(1) refl] "2.prems" dir \<open>n \<noteq> 0\<close> show ?thesis by auto
  next
    case (3 nd)
    with "2.IH"(3,4) "2.prems" dir show ?thesis by (cases nd) auto
  qed
qed simp

text \<open>Empty components and \<^verbatim>\<open>.\<close> may be left out.\<close>

lemma walk_rem_filter:
  "walk_rem fs n cur cs = Some x \<Longrightarrow>
   walk_rem fs n cur (filter (\<lambda>c. c \<noteq> [] \<and> c \<noteq> ''.'') cs) = Some x"
proof (induction cs arbitrary: n cur)
  case (Cons c cs)
  then obtain d m where d: "walk_rem fs n cur [c] = Some (d, m)" "walk_rem fs m d cs = Some x"
    by (subst (asm) walk_rem_Cons) (auto split: option.splits)
  show ?case
  proof (cases "c = [] \<or> c = ''.''")
    case True
    with d(1) have "d = cur" "m = n" by (auto split: if_splits)
    with True Cons.IH [OF d(2)] show ?thesis by (auto simp del: walk_rem.simps)
  next
    case False
    have "walk_rem fs n cur (c # filter (\<lambda>c. c \<noteq> [] \<and> c \<noteq> ''.'') cs) = Some x"
      using Cons.IH [OF d(2)] d(1) by (subst walk_rem_Cons) (simp del: walk_rem.simps)
    with False show ?thesis by (simp del: walk_rem.simps)
  qed
qed simp

text \<open>What a walk reaches: a location below directories only that is not itself a link.\<close>

definition real_loc :: "fsys \<Rightarrow> loc \<Rightarrow> bool" where
  "real_loc fs l \<longleftrightarrow> (\<forall>k. strict_prefix k l \<longrightarrow> node_at fs k = Some Dir) \<and>
     (\<exists>nd. node_at fs l = Some nd \<and> (\<forall>t. nd \<noteq> Symlink t))"

lemma real_loc_Nil [simp]: "real_loc fs []"
  by (simp add: real_loc_def node_at_def)

lemma real_loc_butlast: "real_loc fs l \<Longrightarrow> real_loc fs (butlast l)"
proof (cases l rule: rev_cases)
  case (snoc k c)
  assume "real_loc fs l"
  moreover have "strict_prefix j (k @ [c])" if "strict_prefix j k" for j
    using that by (auto simp: strict_prefix_def)
  moreover have "strict_prefix k (k @ [c])" by (simp add: strict_prefix_def)
  ultimately have "node_at fs k = Some Dir" "\<forall>j. strict_prefix j k \<longrightarrow> node_at fs j = Some Dir"
    using snoc by (auto simp: real_loc_def)
  then show ?thesis using snoc by (simp add: real_loc_def)
qed simp

lemma real_loc_snoc:
  "real_loc fs l \<Longrightarrow> node_at fs l = Some Dir \<Longrightarrow> node_at fs (l @ [c]) = Some nd \<Longrightarrow>
   (\<And>t. nd \<noteq> Symlink t) \<Longrightarrow> real_loc fs (l @ [c])"
  by (auto simp: real_loc_def strict_prefix_def)

lemma walk_rem_real: "walk_rem fs n cur cs = Some (l, r) \<Longrightarrow> real_loc fs cur \<Longrightarrow> real_loc fs l"
proof (induction fs n cur cs rule: walk_rem.induct)
  case (2 fs n cur c cs)
  have dir: "node_at fs cur = Some Dir" using "2.prems"(1) by (auto split: if_splits)
  show ?case
  proof (cases "c = [] \<or> c = ''.'' \<or> c = ''..''")
    case True
    with 2 dir real_loc_butlast [OF "2.prems"(2)] show ?thesis by auto
  next
    case False
    with "2.prems"(1) dir obtain nd where nd: "node_at fs (cur @ [c]) = Some nd" by (auto split: option.splits)
    have snoc: "(\<And>t. nd \<noteq> Symlink t) \<Longrightarrow> real_loc fs (cur @ [c])"
      using real_loc_snoc [OF "2.prems"(2) dir nd] .
    show ?thesis
    proof (cases nd)
      case Dir
      with 2 False dir nd snoc show ?thesis by auto
    next
      case (File k m)
      with 2 False dir nd snoc show ?thesis by auto
    next
      case (Symlink t)
      with 2 False dir nd show ?thesis by (auto split: if_splits)
    qed
  qed
qed simp

section \<open>Queries below a directory\<close>

definition child :: "ppath \<Rightarrow> string \<Rightarrow> ppath" where
  "child p n = path_div p (PPath [] [n])"

lemma child_simps [simp]: "p_root (child p n) = p_root p" "p_parts (child p n) = p_parts p @ [n]"
  by (simp_all add: child_def path_div_def)

text \<open>Where a path leads, with the rest of the budget.\<close>

definition loc_of :: "fsys \<Rightarrow> loc \<Rightarrow> ppath \<Rightarrow> (loc \<times> nat) option" where
  "loc_of fs cwd p = walk_rem fs MAXSYMLINKS (if p_root p = [] then cwd else []) (p_parts p)"

lemma lookup_follow: "lookup_loc fs cwd True p = map_option fst (loc_of fs cwd p)"
  by (simp add: lookup_loc_def loc_of_def walk_follow)

lemma path_is_dir_iff:
  "path_is_dir fs cwd p \<longleftrightarrow> (\<exists>l r. loc_of fs cwd p = Some (l, r) \<and> node_at fs l = Some Dir)"
  by (auto simp: path_is_dir_def path_node_def lookup_follow bind_eq_Some_conv)

lemma loc_of_child:
  "loc_of fs cwd (child p n) =
   (case loc_of fs cwd p of None \<Rightarrow> None | Some (l, m) \<Rightarrow> walk_rem fs m l [n])"
  by (simp add: loc_of_def walk_rem_append del: walk_rem.simps)

text \<open>A directory listing leaves out the entries \<^verbatim>\<open>.\<close> and \<^verbatim>\<open>..\<close>.\<close>

definition scandir :: "fsys \<Rightarrow> loc \<Rightarrow> string list" where
  "scandir fs l = filter (\<lambda>n. n \<noteq> [] \<and> n \<noteq> ''.'' \<and> n \<noteq> ''..'') (listdir fs l)"

definition depth_of :: "fsys \<Rightarrow> nat" where
  "depth_of fs = fold max (map (length \<circ> fst) fs) 0"

lemma depth_of_ge: "node_at fs l = Some nd \<Longrightarrow> length l \<le> depth_of fs"
proof -
  have mono: "m \<le> fold max ns m" for m and ns :: "nat list"
    by (induction ns arbitrary: m) (auto intro: order_trans [OF max.cobounded2])
  have mem: "k \<in> set ns \<Longrightarrow> k \<le> fold max ns m" for k m and ns :: "nat list"
    by (induction ns arbitrary: m) (auto intro: order_trans [OF max.cobounded1 mono])
  assume "node_at fs l = Some nd"
  then have "l = [] \<or> length l \<in> set (map (length \<circ> fst) fs)"
    by (force simp: node_at_def dest: map_of_SomeD split: if_splits)
  then show ?thesis unfolding depth_of_def using mem by (auto simp del: set_map)
qed

section \<open>os.walk\<close>

text \<open>Why a walk ends: entering a directory goes deeper, entering a link uses up budget.\<close>

definition walk_measure :: "fsys \<times> loc \<times> bool \<times> (string \<Rightarrow> bool) \<times> ppath \<Rightarrow> nat \<times> nat" where
  "walk_measure = (\<lambda>(fs, cwd, follow, keep, dir).
     case loc_of fs cwd dir of None \<Rightarrow> (0, 0) | Some (l, r) \<Rightarrow> (r, Suc (depth_of fs) - length l))"

lemma walk_rem_entry:
  assumes "walk_rem fs m l [n] = Some (k, r)" and "n \<noteq> []" "n \<noteq> ''.''" "n \<noteq> ''..''"
  shows "r < m \<or> (r = m \<and> k = l @ [n] \<and> node_at fs k \<noteq> None)"
proof (cases "node_at fs (l @ [n])")
  case (Some nd)
  show ?thesis
  proof (cases nd)
    case (Symlink t)
    with assms Some have "walk_rem fs (m - 1) (if startswith t ''/'' then [] else l)
        (split_on (CHR ''/'') t @ []) = Some (k, r)" "m \<noteq> 0" by (auto split: if_splits)
    with walk_rem_budget [of fs "m - 1"] show ?thesis by (metis One_nat_def diff_less le_less_trans neq0_conv zero_less_one)
  qed (use assms Some in \<open>auto split: if_splits\<close>)
qed (use assms in \<open>auto split: if_splits\<close>)

text \<open>
  \<^verbatim>\<open>os.walk(top, topdown=True, followlinks=follow)\<close> on an unchanging file system: the visited
  directories in order, each with its directories and its other entries. \<open>keep\<close> is what the body
  of the loop leaves of \<^verbatim>\<open>dirs\<close> (which prunes the walk). A link to a directory is listed in \<^verbatim>\<open>dirs\<close>, and is
  entered when \<open>follow\<close>. A directory that cannot be read yields nothing. A cycle of links ends
  when the kernel's budget of links is used up.
\<close>

function os_walk ::
    "fsys \<Rightarrow> loc \<Rightarrow> bool \<Rightarrow> (string \<Rightarrow> bool) \<Rightarrow> ppath \<Rightarrow> (ppath \<times> string list \<times> string list) list" where
  "os_walk fs cwd follow keep dir =
     (case loc_of fs cwd dir of
        None \<Rightarrow> []
      | Some (l, r) \<Rightarrow>
          if node_at fs l \<noteq> Some Dir then []
          else
            (let entries = scandir fs l;
                 dirs = filter (\<lambda>n. path_is_dir fs cwd (child dir n) \<and> keep n) entries;
                 files = filter (\<lambda>n. \<not> path_is_dir fs cwd (child dir n)) entries
             in (dir, dirs, files) #
                concat (map (\<lambda>n. if follow \<or> \<not> path_is_symlink fs cwd (child dir n)
                                 then os_walk fs cwd follow keep (child dir n) else []) dirs)))"
  by pat_completeness auto

termination
proof (relation "inv_image (less_than <*lex*> less_than) walk_measure", goal_cases)
  case 1
  show ?case by auto
next
  case (2 fs cwd follow keep dir a l r entries dirs files n)
  have "n \<noteq> []" "n \<noteq> ''.''" "n \<noteq> ''..''" and "path_is_dir fs cwd (child dir n)"
    using 2 by (auto simp: scandir_def)
  then obtain k r' where k: "loc_of fs cwd (child dir n) = Some (k, r')" "node_at fs k = Some Dir"
    by (auto simp: path_is_dir_iff)
  with 2 have "walk_rem fs r l [n] = Some (k, r')" by (cases a) (simp add: loc_of_child del: walk_rem.simps)
  from walk_rem_entry [OF this] \<open>n \<noteq> []\<close> \<open>n \<noteq> ''.''\<close> \<open>n \<noteq> ''..''\<close>
  have "r' < r \<or> (r' = r \<and> k = l @ [n])" by blast
  then show ?case
    using k 2 depth_of_ge [OF k(2)] by (auto simp: walk_measure_def)
qed

declare os_walk.simps [simp del]

lemma set_os_walk:
  "x \<in> set (os_walk fs cwd follow keep dir) \<longleftrightarrow>
   (\<exists>l r. loc_of fs cwd dir = Some (l, r) \<and> node_at fs l = Some Dir \<and>
     (x = (dir, filter (\<lambda>n. path_is_dir fs cwd (child dir n) \<and> keep n) (scandir fs l),
           filter (\<lambda>n. \<not> path_is_dir fs cwd (child dir n)) (scandir fs l)) \<or>
      (\<exists>n \<in> set (scandir fs l). path_is_dir fs cwd (child dir n) \<and> keep n \<and>
         (follow \<or> \<not> path_is_symlink fs cwd (child dir n)) \<and>
         x \<in> set (os_walk fs cwd follow keep (child dir n)))))"
proof (cases "path_is_dir fs cwd dir")
  case True
  then obtain l r where "loc_of fs cwd dir = Some (l, r)" "node_at fs l = Some Dir"
    by (auto simp: path_is_dir_iff)
  then show ?thesis by (subst os_walk.simps) (auto simp: Let_def)
next
  case False
  then have "loc_of fs cwd dir = Some (l, r) \<Longrightarrow> node_at fs l \<noteq> Some Dir" for l r
    by (auto simp: path_is_dir_iff)
  then show ?thesis by (subst os_walk.simps, cases "loc_of fs cwd dir") auto
qed

text \<open>Induction along a walk.\<close>

lemma os_walk_induct [consumes 1, case_names here below]:
  assumes "x \<in> set (os_walk fs cwd follow keep dir)"
    and "\<And>dir l r. loc_of fs cwd dir = Some (l, r) \<Longrightarrow> node_at fs l = Some Dir \<Longrightarrow>
      x = (dir, filter (\<lambda>n. path_is_dir fs cwd (child dir n) \<and> keep n) (scandir fs l),
           filter (\<lambda>n. \<not> path_is_dir fs cwd (child dir n)) (scandir fs l)) \<Longrightarrow> P dir"
    and "\<And>dir l r n. loc_of fs cwd dir = Some (l, r) \<Longrightarrow> node_at fs l = Some Dir \<Longrightarrow>
      n \<in> set (scandir fs l) \<Longrightarrow> path_is_dir fs cwd (child dir n) \<Longrightarrow> keep n \<Longrightarrow>
      follow \<or> \<not> path_is_symlink fs cwd (child dir n) \<Longrightarrow> P (child dir n) \<Longrightarrow> P dir"
  shows "P dir"
  using assms
proof (induction fs cwd follow keep dir rule: os_walk.induct)
  case (1 fs cwd follow keep dir)
  from "1.prems"(1) obtain l r where l: "loc_of fs cwd dir = Some (l, r)" "node_at fs l = Some Dir"
    and x: "x = (dir, filter (\<lambda>n. path_is_dir fs cwd (child dir n) \<and> keep n) (scandir fs l),
           filter (\<lambda>n. \<not> path_is_dir fs cwd (child dir n)) (scandir fs l)) \<or>
      (\<exists>n \<in> set (scandir fs l). path_is_dir fs cwd (child dir n) \<and> keep n \<and>
         (follow \<or> \<not> path_is_symlink fs cwd (child dir n)) \<and>
         x \<in> set (os_walk fs cwd follow keep (child dir n)))"
    by (subst (asm) set_os_walk) blast
  show ?case
  proof (cases "x = (dir, filter (\<lambda>n. path_is_dir fs cwd (child dir n) \<and> keep n) (scandir fs l),
           filter (\<lambda>n. \<not> path_is_dir fs cwd (child dir n)) (scandir fs l))")
    case True
    with "1.prems"(2) l show ?thesis by blast
  next
    case False
    with x obtain n where n: "n \<in> set (scandir fs l)" "path_is_dir fs cwd (child dir n)" "keep n"
      "follow \<or> \<not> path_is_symlink fs cwd (child dir n)"
      "x \<in> set (os_walk fs cwd follow keep (child dir n))" by blast
    have "P (child dir n)"
      by (rule "1.IH" [OF l(1) refl _ refl refl refl _ n(4,5)]) (use l n "1.prems"(2,3) in auto)
    with "1.prems"(3) [OF l n(1-4)] show ?thesis .
  qed
qed

end
