(* ===== verification/External_Mounts.thy ===== *)
theory External_Mounts
  imports Py_Walk
begin

text \<open>
  \<^verbatim>\<open>scripts/list_external_mounts.py\<close>: which paths outside a project its symbolic links lead to,
  link by link, and the minimal set of directories to mount for them. The scan reads a file
  system that does not change while it runs, so the race the code guards against (a link deleted
  between \<^verbatim>\<open>is_symlink\<close> and \<^verbatim>\<open>readlink\<close>) does not occur. Every path of the scan is absolute, so the working
  directory plays no part and \<open>[]\<close> stands for it.
\<close>

section \<open>One chain of links\<close>

definition commonpath :: "ppath \<Rightarrow> ppath \<Rightarrow> ppath" where
  "commonpath p q = PPath ''/'' (common_prefix (p_parts p) (p_parts q))"

text \<open>The test that a normalised target is outside of the scanned directory.\<close>

definition outside :: "ppath \<Rightarrow> ppath \<Rightarrow> bool" where
  "outside scan_dir p \<longleftrightarrow> path_str (normpath_abs (commonpath scan_dir p)) \<noteq> path_str scan_dir"

definition note_target ::
    "fsys \<Rightarrow> ppath \<Rightarrow> ppath \<Rightarrow> ppath list \<times> ppath list \<Rightarrow> ppath list \<times> ppath list" where
  "note_target fs scan_dir abs_target = (\<lambda>(external_paths, worklist).
     let norm_target = normpath_abs abs_target in
     if outside scan_dir norm_target \<and> norm_target \<notin> set external_paths
     then (external_paths @ [norm_target],
           if path_is_dir fs [] norm_target then worklist @ [norm_target] else worklist)
     else (external_paths, worklist))"

definition link_target :: "ppath \<Rightarrow> string \<Rightarrow> ppath" where
  "link_target p t = path_div (path_parent p) (to_path t)"

lemma path_root_Nil_iff: "path_root t = [] \<longleftrightarrow> \<not> startswith t ''/''"
  by (auto simp: path_root_def startswith_iff)

text \<open>A link is found below a directory reached with part of the budget.\<close>

lemma readlink_parts:
  assumes "path_readlink fs [] p = Some t"
  obtains ps c d m where "p_parts p = ps @ [c]" "walk_rem fs MAXSYMLINKS [] ps = Some (d, m)"
    "node_at fs d = Some Dir" "node_at fs (d @ [c]) = Some (Symlink t)"
    "c \<noteq> []" "c \<noteq> ''.''" "c \<noteq> ''..''"
proof -
  from assms obtain l where l: "lookup_loc fs [] False p = Some l" "node_at fs l = Some (Symlink t)"
    by (auto simp: path_readlink_def path_node_def bind_eq_Some_conv split: option.splits node.splits)
  show thesis
  proof (cases "p_parts p" rule: rev_cases)
    case Nil
    with l show thesis by (simp add: lookup_loc_def node_at_def)
  next
    case (snoc ps c)
    with l obtain d m where d: "walk_rem fs MAXSYMLINKS [] ps = Some (d, m)" "walk fs False m d [c] = Some l"
      by (auto simp: lookup_loc_def walk_nofollow split: option.splits)
    have "real_loc fs d" "real_loc fs (butlast d)"
      using walk_rem_real [OF d(1)] real_loc_butlast by auto
    then have "\<not> (c = [] \<or> c = ''.'' \<or> c = ''..'')"
      using d(2) l(2) by (auto simp: real_loc_def split: if_splits)
    with d l(2) snoc that show thesis
      by (auto split: if_splits option.splits node.splits)
  qed
qed

text \<open>
  If following the link leads somewhere, its target leads to the same place and saves at least
  this one link.
\<close>

lemma link_target_loc:
  assumes t: "path_readlink fs [] p = Some t" and p: "loc_of fs [] p = Some (l, r)"
  shows "\<exists>r'. loc_of fs [] (link_target p t) = Some (l, r') \<and> r < r'"
proof -
  from t obtain ps c d m where parts: "p_parts p = ps @ [c]"
    and d: "walk_rem fs MAXSYMLINKS [] ps = Some (d, m)" "node_at fs d = Some Dir"
    "node_at fs (d @ [c]) = Some (Symlink t)" "c \<noteq> []" "c \<noteq> ''.''" "c \<noteq> ''..''"
    by (rule readlink_parts)
  let ?s = "if startswith t ''/'' then [] else d"
  have m: "m \<noteq> 0" and w: "walk_rem fs (m - 1) ?s (split_on (CHR ''/'') t) = Some (l, r)"
    using p d by (auto simp: loc_of_def parts walk_rem_append split: if_splits)
  have le: "m \<le> MAXSYMLINKS" using walk_rem_budget [OF d(1)] by simp
  from walk_rem_filter [OF w] have w': "walk_rem fs (m - 1) ?s (path_comps t) = Some (l, r)"
    by (simp add: path_comps_def)
  have more: "walk_rem fs (m - 1 + k) ?s (path_comps t) = Some (l, r + k)" for k
    using walk_rem_budget [OF w'] by simp
  show ?thesis
  proof (cases "startswith t ''/''")
    case True
    have "m - 1 + (Suc MAXSYMLINKS - m) = MAXSYMLINKS" using m le by simp
    with more [of "Suc MAXSYMLINKS - m"] True
    have "loc_of fs [] (link_target p t) = Some (l, r + (Suc MAXSYMLINKS - m))"
      by (simp add: loc_of_def link_target_def path_div_def to_path_def path_root_Nil_iff)
    then show ?thesis using le by auto
  next
    case False
    have "walk_rem fs m d (path_comps t) = Some (l, Suc r)"
      using more [of 1] m False by simp
    with d(1) False parts have "loc_of fs [] (link_target p t) = Some (l, Suc r)"
      by (simp add: loc_of_def link_target_def path_div_def to_path_def path_root_Nil_iff
          path_parent_def walk_rem_append)
    then show ?thesis by auto
  qed
qed

definition chain_measure :: "fsys \<Rightarrow> ppath \<Rightarrow> nat" where
  "chain_measure fs p =
     (case loc_of fs [] p of None \<Rightarrow> Suc MAXSYMLINKS | Some (l, r) \<Rightarrow> MAXSYMLINKS - r)"

lemma path_exists_loc: "path_exists fs [] p \<Longrightarrow> \<exists>l r. loc_of fs [] p = Some (l, r)"
  by (auto simp: path_exists_def path_node_def lookup_follow bind_eq_Some_conv)

lemma chain_measure_less:
  assumes "path_readlink fs [] p = Some t" and "path_exists fs [] (link_target p t)"
  shows "chain_measure fs (link_target p t) < chain_measure fs p"
proof -
  from path_exists_loc [OF assms(2)] obtain l r where l: "loc_of fs [] (link_target p t) = Some (l, r)"
    by blast
  then have "r \<le> MAXSYMLINKS" unfolding loc_of_def by (auto dest: walk_rem_budget)
  with l link_target_loc [OF assms(1)] show ?thesis
    by (cases "loc_of fs [] p") (fastforce simp: chain_measure_def)+
qed

text \<open>\<^verbatim>\<open>_process_symlink\<close>: the loop over the chain, with the paths visited so far.\<close>

function chain_loop ::
    "fsys \<Rightarrow> ppath \<Rightarrow> ppath list \<Rightarrow> ppath \<Rightarrow> ppath list \<times> ppath list \<Rightarrow> ppath list \<times> ppath list" where
  "chain_loop fs scan_dir visited_in_chain current_path st =
     (case path_readlink fs [] current_path of
        None \<Rightarrow> st
      | Some target \<Rightarrow>
          if current_path \<in> set visited_in_chain then st
          else if \<not> path_exists fs [] (link_target current_path target) then st
          else chain_loop fs scan_dir (current_path # visited_in_chain) (link_target current_path target)
                 (note_target fs scan_dir (link_target current_path target) st))"
  by pat_completeness auto
termination
  by (relation "measure (\<lambda>(fs, scan_dir, vis, p, st). chain_measure fs p)") (auto intro: chain_measure_less)

declare chain_loop.simps [simp del]

definition process_symlink ::
    "fsys \<Rightarrow> ppath \<Rightarrow> ppath \<Rightarrow> ppath list \<times> ppath list \<Rightarrow> ppath list \<times> ppath list" where
  "process_symlink fs scan_dir path st = chain_loop fs scan_dir [] path st"

section \<open>The scan\<close>

text \<open>
  The links of the walk of one directory, in order. The names of one directory are distinct, so
  \<^verbatim>\<open>dirs.remove(".venv")\<close> drops the only such name.
\<close>

definition links_in :: "fsys \<Rightarrow> ppath \<Rightarrow> ppath list" where
  "links_in fs current_dir =
     concat (map (\<lambda>(root_path, dirs, files).
         map (child root_path)
           (filter (\<lambda>name. path_is_symlink fs [] (child root_path name) \<and> \<not> startswith name ''bazel-'')
             (dirs @ files)))
       (os_walk fs [] False (\<lambda>name. name \<noteq> ''.venv'') current_dir))"

definition scan_one :: "fsys \<Rightarrow> ppath \<Rightarrow> ppath \<Rightarrow> ppath list \<times> ppath list \<Rightarrow> ppath list \<times> ppath list" where
  "scan_one fs scan_dir current_dir st = fold (process_symlink fs scan_dir) (links_in fs current_dir) st"

text \<open>
  The loop over the worklist ends on every file system: a directory is added under a normalised name that exists,
  and there are finitely many of those, because the budget of links bounds their length.
\<close>

definition normal_comp :: "string \<Rightarrow> bool" where
  "normal_comp c \<longleftrightarrow> c \<noteq> [] \<and> c \<noteq> ''.'' \<and> c \<noteq> ''..''"

lemma norm_comps_normal: "list_all normal_comp acc \<Longrightarrow> list_all normal_comp (norm_comps acc cs)"
proof (induction acc cs rule: norm_comps.induct)
  case (2 acc c cs)
  have "list_all normal_comp (butlast acc)"
    using "2.prems" by (auto simp: list_all_iff dest: in_set_butlastD)
  with 2 show ?case by (auto simp: normal_comp_def [of c])
qed simp

lemma real_loc_depth: "real_loc fs l \<Longrightarrow> length l \<le> depth_of fs"
  by (auto simp: real_loc_def dest: depth_of_ge)

lemma walk_rem_normal:
  assumes "walk_rem fs n cur cs = Some (l, r)" and "list_all normal_comp cs" and "real_loc fs cur"
  shows "length cs + length cur \<le> depth_of fs + (n - r) * Suc (depth_of fs) \<and>
    set cs \<subseteq> last ` fst ` set fs"
  using assms
proof (induction cs arbitrary: n cur)
  case (Cons c cs)
  from Cons.prems(1) obtain d m where d: "walk_rem fs n cur [c] = Some (d, m)" "walk_rem fs m d cs = Some (l, r)"
    by (subst (asm) walk_rem_Cons) (auto split: option.splits)
  have c: "c \<noteq> []" "c \<noteq> ''.''" "c \<noteq> ''..''" using Cons.prems(2) by (auto simp: normal_comp_def)
  then obtain nd where "node_at fs (cur @ [c]) = Some nd" using d(1) by (auto split: if_splits option.splits)
  then have "(cur @ [c], nd) \<in> set fs" by (simp add: node_at_def map_of_SomeD)
  then have name: "c \<in> last ` fst ` set fs" by (force intro: rev_image_eqI)
  have "real_loc fs d" by (rule walk_rem_real [OF d(1) Cons.prems(3)])
  with Cons d(2) have IH: "length cs + length d \<le> depth_of fs + (m - r) * Suc (depth_of fs)"
    "set cs \<subseteq> last ` fst ` set fs" by auto
  have "length (c # cs) + length cur \<le> depth_of fs + (n - r) * Suc (depth_of fs)"
  proof (cases "m < n")
    case True
    have "r \<le> m" using walk_rem_budget [OF d(2)] by simp
    have "Suc (length cur) \<le> Suc (depth_of fs)" using real_loc_depth [OF Cons.prems(3)] by simp
    also have "\<dots> \<le> (n - m) * Suc (depth_of fs)" using True by (cases "n - m") auto
    finally have "Suc (length cur) + (m - r) * Suc (depth_of fs) \<le> (n - m + (m - r)) * Suc (depth_of fs)"
      by (simp only: add_mult_distrib)
    with IH(1) True \<open>r \<le> m\<close> show ?thesis by simp
  next
    case False
    with walk_rem_entry [OF d(1) c] have "m = n" "d = cur @ [c]" by auto
    with IH(1) show ?thesis by simp
  qed
  with IH(2) name show ?case by simp
next
  case Nil
  then show ?case using real_loc_depth by auto
qed

definition normal_dirs :: "fsys \<Rightarrow> string set \<Rightarrow> ppath set" where
  "normal_dirs fs roots =
     {p. p_root p \<in> roots \<and> list_all normal_comp (p_parts p) \<and> path_is_dir fs [] p}"

lemma finite_normal_dirs: "finite roots \<Longrightarrow> finite (normal_dirs fs roots)"
proof -
  let ?L = "{cs. set cs \<subseteq> last ` fst ` set fs \<and>
    length cs \<le> depth_of fs + MAXSYMLINKS * Suc (depth_of fs)}"
  have "p_parts p \<in> ?L" if p: "p \<in> normal_dirs fs roots" for p
  proof -
    from p obtain l r where "walk_rem fs MAXSYMLINKS [] (p_parts p) = Some (l, r)"
      by (auto simp: normal_dirs_def path_is_dir_iff loc_of_def)
    with p have "length (p_parts p) \<le> depth_of fs + (MAXSYMLINKS - r) * Suc (depth_of fs)"
      "set (p_parts p) \<subseteq> last ` fst ` set fs"
      using walk_rem_normal [of fs MAXSYMLINKS "[]" "p_parts p" l r] by (auto simp: normal_dirs_def)
    moreover have "(MAXSYMLINKS - r) * Suc (depth_of fs) \<le> MAXSYMLINKS * Suc (depth_of fs)"
      by (rule mult_right_mono) auto
    ultimately show ?thesis by auto
  qed
  then have "normal_dirs fs roots \<subseteq> (\<lambda>(a, b). PPath a b) ` (roots \<times> ?L)"
    by (force simp: normal_dirs_def intro: image_eqI [where x = "(p_root p, p_parts p)" for p])
  moreover have "finite ?L" by (rule finite_lists_length_le) simp
  moreover assume "finite roots"
  ultimately show ?thesis by (meson finite_SigmaI finite_imageI finite_subset)
qed

text \<open>What one chain, and the scan of one directory, append to the worklist.\<close>

definition sys_roots :: "string set" where
  "sys_roots = {[], ''/'', ''//''}"

lemma link_target_root: "p_root (link_target p t) \<in> insert (p_root p) sys_roots"
  by (auto simp: link_target_def path_div_def path_parent_def to_path_def path_root_def sys_roots_def)

lemma note_target_adds:
  assumes "p_root p \<in> roots"
  shows "\<exists>add. snd (note_target fs scan_dir p st) = snd st @ add \<and> set add \<subseteq> normal_dirs fs roots"
proof -
  have "list_all normal_comp (p_parts (normpath_abs p))"
    by (simp add: normpath_abs_def norm_comps_normal)
  moreover have "p_root (normpath_abs p) = p_root p" by (simp add: normpath_abs_def)
  ultimately show ?thesis using assms
    by (auto simp: note_target_def normal_dirs_def Let_def split: prod.split)
qed

lemma chain_loop_adds:
  assumes "insert (p_root p) sys_roots \<subseteq> roots"
  shows "\<exists>add. snd (chain_loop fs scan_dir visited p st) = snd st @ add \<and> set add \<subseteq> normal_dirs fs roots"
  using assms
proof (induction fs scan_dir visited p st rule: chain_loop.induct)
  case (1 fs scan_dir visited p st)
  show ?case
  proof (cases "\<exists>t. path_readlink fs [] p = Some t \<and> p \<notin> set visited \<and> path_exists fs [] (link_target p t)")
    case False
    then show ?thesis by (subst chain_loop.simps) (auto split: option.split)
  next
    case True
    then obtain t where t: "path_readlink fs [] p = Some t" "p \<notin> set visited"
      "path_exists fs [] (link_target p t)" by blast
    let ?q = "link_target p t"
    have q: "insert (p_root ?q) sys_roots \<subseteq> roots" using "1.prems" link_target_root [of p t] by auto
    obtain add where add: "snd (chain_loop fs scan_dir (p # visited) ?q (note_target fs scan_dir ?q st)) =
        snd (note_target fs scan_dir ?q st) @ add" "set add \<subseteq> normal_dirs fs roots"
      using "1.IH" t q by blast
    obtain add' where "snd (note_target fs scan_dir ?q st) = snd st @ add'"
      "set add' \<subseteq> normal_dirs fs roots"
      using note_target_adds [of ?q roots] q by (metis insert_subset)
    with add t show ?thesis by (subst chain_loop.simps) auto
  qed
qed

lemma os_walk_roots: "(d, ds, fls) \<in> set (os_walk fs cwd follow keep dir) \<Longrightarrow> p_root d = p_root dir"
  by (induction rule: os_walk_induct) auto

lemma links_in_roots: "p \<in> set (links_in fs dir) \<Longrightarrow> p_root p = p_root dir"
  by (auto simp: links_in_def dest: os_walk_roots)

lemma scan_one_adds:
  assumes "insert (p_root dir) sys_roots \<subseteq> roots"
  shows "\<exists>add. snd (scan_one fs scan_dir dir st) = snd st @ add \<and> set add \<subseteq> normal_dirs fs roots"
proof -
  have "\<exists>add. snd (fold (process_symlink fs scan_dir) ps st) = snd st @ add \<and> set add \<subseteq> normal_dirs fs roots"
    if "\<And>p. p \<in> set ps \<Longrightarrow> p_root p = p_root dir" for ps
    using that
  proof (induction ps arbitrary: st)
    case (Cons p ps)
    then obtain add where "snd (process_symlink fs scan_dir p st) = snd st @ add" "set add \<subseteq> normal_dirs fs roots"
      using chain_loop_adds [of p roots fs scan_dir "[]" st] assms unfolding process_symlink_def by auto
    with Cons.IH [of "process_symlink fs scan_dir p st"] Cons.prems show ?case by fastforce
  qed simp
  then show ?thesis unfolding scan_one_def using links_in_roots by blast
qed

definition scan_universe :: "fsys \<Rightarrow> ppath list \<Rightarrow> ppath set" where
  "scan_universe fs worklist =
     normal_dirs fs (sys_roots \<union> p_root ` set worklist) \<union> set worklist"

lemma finite_scan_universe: "finite (scan_universe fs worklist)"
  by (simp add: scan_universe_def finite_normal_dirs sys_roots_def)

lemma normal_dirs_mono: "A \<subseteq> B \<Longrightarrow> normal_dirs fs A \<subseteq> normal_dirs fs B"
  by (auto simp: normal_dirs_def)

lemma scan_one_universe:
  assumes "scan_one fs scan_dir d (ext, rest) = (ext', worklist')"
  shows "scan_universe fs worklist' \<subseteq> scan_universe fs (d # rest)"
proof -
  let ?R = "sys_roots \<union> p_root ` set (d # rest)"
  obtain add where add: "worklist' = rest @ add" "set add \<subseteq> normal_dirs fs ?R"
    using scan_one_adds [of d ?R fs scan_dir "(ext, rest)"] assms by auto
  then have "p_root ` set worklist' \<subseteq> ?R" by (auto simp: normal_dirs_def)
  then have "normal_dirs fs (sys_roots \<union> p_root ` set worklist') \<subseteq> normal_dirs fs ?R"
    by (intro normal_dirs_mono) auto
  with add show ?thesis by (auto simp: scan_universe_def)
qed

lemma scan_universe_Cons: "scan_universe fs rest \<subseteq> scan_universe fs (d # rest)"
  using normal_dirs_mono [of "sys_roots \<union> p_root ` set rest" "sys_roots \<union> p_root ` set (d # rest)"]
  by (auto simp: scan_universe_def)

function scan_loop :: "fsys \<Rightarrow> ppath \<Rightarrow> ppath list \<Rightarrow> ppath list \<Rightarrow> ppath list \<Rightarrow> ppath list" where
  "scan_loop fs scan_dir scanned external_paths [] = external_paths"
| "scan_loop fs scan_dir scanned external_paths (current_dir # worklist) =
     (if current_dir \<in> set scanned then scan_loop fs scan_dir scanned external_paths worklist
      else (case scan_one fs scan_dir current_dir (external_paths, worklist) of
          (external_paths', worklist') \<Rightarrow>
            scan_loop fs scan_dir (current_dir # scanned) external_paths' worklist'))"
  by pat_completeness auto

termination
proof (relation "measures [\<lambda>(fs, scan_dir, scanned, ext, wl). card (scan_universe fs wl - set scanned),
    \<lambda>(fs, scan_dir, scanned, ext, wl). length wl]", goal_cases)
  case 1
  show ?case by simp
next
  case (2 fs scan_dir scanned ext d rest)
  have "card (scan_universe fs rest - set scanned) \<le> card (scan_universe fs (d # rest) - set scanned)"
    by (rule card_mono) (use scan_universe_Cons finite_scan_universe in auto)
  then show ?case by (auto simp: le_less)
next
  case (3 fs scan_dir scanned ext d rest ext' wl')
  have "scan_universe fs wl' \<subseteq> scan_universe fs (d # rest)" using 3 scan_one_universe by metis
  moreover have "d \<in> scan_universe fs (d # rest)" by (simp add: scan_universe_def)
  ultimately have "card (scan_universe fs wl' - set (d # scanned)) < card (scan_universe fs (d # rest) - set scanned)"
    using 3(1) by (intro psubset_card_mono) (auto simp: finite_scan_universe)
  then show ?case by simp
qed

definition list_external_mounts :: "fsys \<Rightarrow> loc \<Rightarrow> ppath \<Rightarrow> ppath list" where
  "list_external_mounts fs cwd scan_dir =
     (let scan_dir_abs = realpath fs cwd scan_dir in scan_loop fs scan_dir_abs [] [] [scan_dir_abs])"

section \<open>The minimal mounts\<close>

text \<open>A Python set of paths is a list without duplicates; its iteration order is a parameter where it matters.\<close>

definition minimize_step :: "ppath \<Rightarrow> ppath list \<Rightarrow> ppath list" where
  "minimize_step path minimal_paths =
     (if list_ex (is_relative_to path) minimal_paths then minimal_paths
      else filter (\<lambda>p. \<not> is_relative_to p path) minimal_paths @ [path])"

definition minimize_paths :: "ppath list \<Rightarrow> ppath list" where
  "minimize_paths paths = fold minimize_step (sort (remdups paths)) []"

definition existing_paths :: "fsys \<Rightarrow> loc \<Rightarrow> ppath \<Rightarrow> ppath list \<Rightarrow> ppath list" where
  "existing_paths fs cwd root_dir existing_mounts =
     existing_mounts @ map (realpath fs cwd) existing_mounts @
     (if path_is_symlink fs cwd root_dir then [realpath fs cwd root_dir] else [])"

definition get_minimal_mounts :: "fsys \<Rightarrow> loc \<Rightarrow> ppath \<Rightarrow> ppath list \<Rightarrow> ppath list" where
  "get_minimal_mounts fs cwd root_dir existing_mounts =
     minimize_paths (list_external_mounts fs cwd root_dir @ existing_paths fs cwd root_dir existing_mounts)"

record mounts_args =
  arg_root_dir :: ppath
  arg_existing_mounts :: "ppath list"

definition mounts_main :: "(ppath list \<Rightarrow> ppath list) \<Rightarrow> mounts_args \<Rightarrow> unit script" where
  "mounts_main order args =
     io_bind (query (\<lambda>w. get_minimal_mounts (w_fs w) (w_cwd w) (arg_root_dir args) (arg_existing_mounts args)))
       (\<lambda>mounts. io_for (order mounts) (\<lambda>p. print_to Stdout (path_str p @ [CHR 0x0A])))"

end
