(* ===== verification/External_Mounts_Spec.thy ===== *)
theory External_Mounts_Spec
  imports External_Mounts
begin

text \<open>
  What \<^verbatim>\<open>scripts/list_external_mounts.py\<close> computes: the scan finds exactly the external paths
  reachable through links (a declarative closure), no chain of links is cut short, and the
  minimisation keeps exactly the paths below no other.
\<close>

section \<open>Minimal elements\<close>

text \<open>The contract of the minimisation: an order and a step that keeps only minimal elements.\<close>

locale minimizer =
  fixes below :: "'a \<Rightarrow> 'a \<Rightarrow> bool" and step :: "'a \<Rightarrow> 'a list \<Rightarrow> 'a list"
  assumes below_refl: "below x x"
    and below_trans: "below x y \<Longrightarrow> below y z \<Longrightarrow> below x z"
    and below_antisym: "below x y \<Longrightarrow> below y x \<Longrightarrow> x = y"
    and step_set: "set (step x ms) =
      (if \<exists>m \<in> set ms. below x m then set ms else insert x {m \<in> set ms. \<not> below m x})"
    and step_distinct: "distinct ms \<Longrightarrow> distinct (step x ms)"
begin

definition least :: "'a set \<Rightarrow> 'a set" where
  "least A = {x \<in> A. \<forall>y \<in> A. below x y \<longrightarrow> y = x}"

lemma least_insert:
  assumes cover: "\<forall>a \<in> A. \<exists>m \<in> least A. below a m"
  shows "least (insert x A) =
    (if \<exists>m \<in> least A. below x m then least A else insert x {m \<in> least A. \<not> below m x})"
proof (cases "\<exists>m \<in> least A. below x m")
  case True
  then obtain m where m: "m \<in> least A" "below x m" by blast
  have "y \<in> least (insert x A) \<longleftrightarrow> y \<in> least A" for y
  proof
    assume "y \<in> least (insert x A)"
    then show "y \<in> least A" using m by (auto simp: least_def)
  next
    assume y: "y \<in> least A"
    have "x = y" if "below y x"
    proof -
      have "below y m" using below_trans [OF that m(2)] .
      with y m(1) have "m = y" by (auto simp: least_def)
      with that m(2) below_antisym show ?thesis by blast
    qed
    with y show "y \<in> least (insert x A)" by (auto simp: least_def)
  qed
  with True show ?thesis by auto
next
  case False
  have notA: "\<not> below x a" if "a \<in> A" for a
    using cover False that below_trans by meson
  then have "y \<in> least (insert x A) \<longleftrightarrow> y \<in> insert x {m \<in> least A. \<not> below m x}" for y
    using below_refl by (auto simp: least_def)
  with False show ?thesis by auto
qed

lemma least_cover_insert:
  assumes cover: "\<forall>a \<in> A. \<exists>m \<in> least A. below a m"
  shows "\<forall>a \<in> insert x A. \<exists>m \<in> least (insert x A). below a m"
proof (cases "\<exists>m \<in> least A. below x m")
  case True
  with cover show ?thesis by (simp add: least_insert [OF cover])
next
  case False
  then show ?thesis
    using cover below_refl below_trans by (auto simp: least_insert [OF cover]) meson
qed

lemma fold_step:
  assumes "set ms = least A" and "\<forall>a \<in> A. \<exists>m \<in> least A. below a m" and "distinct ms"
  shows "set (fold step xs ms) = least (A \<union> set xs) \<and>
    (\<forall>a \<in> A \<union> set xs. \<exists>m \<in> least (A \<union> set xs). below a m) \<and> distinct (fold step xs ms)"
  using assms
proof (induction xs arbitrary: ms A)
  case (Cons x xs)
  have "set (step x ms) = least (insert x A)"
    using Cons.prems by (simp add: step_set least_insert)
  moreover have "\<forall>a \<in> insert x A. \<exists>m \<in> least (insert x A). below a m"
    using Cons.prems(2) by (rule least_cover_insert)
  ultimately show ?case
    using Cons.IH [of "step x ms" "insert x A"] step_distinct [OF Cons.prems(3)] by simp
qed simp

lemma fold_step_Nil:
  "set (fold step xs []) = least (set xs)"
  "a \<in> set xs \<Longrightarrow> \<exists>m \<in> set (fold step xs []). below a m"
  "distinct (fold step xs [])"
  using fold_step [of "[]" "{}" xs] by (auto simp: least_def)

end

interpretation path_min: minimizer is_relative_to minimize_step
proof unfold_locales
  fix x y z :: ppath and ms :: "ppath list"
  show "is_relative_to x x" by simp
  show "is_relative_to x y \<Longrightarrow> is_relative_to y z \<Longrightarrow> is_relative_to x z" by (rule is_relative_to_trans)
  show "is_relative_to x y \<Longrightarrow> is_relative_to y x \<Longrightarrow> x = y" by (rule is_relative_to_antisym)
  show "set (minimize_step x ms) =
      (if \<exists>m \<in> set ms. is_relative_to x m then set ms else insert x {m \<in> set ms. \<not> is_relative_to m x})"
    by (auto simp: minimize_step_def list_ex_iff)
  show "distinct ms \<Longrightarrow> distinct (minimize_step x ms)"
    by (auto simp: minimize_step_def list_ex_iff)
qed

text \<open>
  \<^verbatim>\<open>_minimize_paths\<close> returns, without duplicates, exactly the given paths that are not below another
  given path, and every given path is at or below one of the returned paths. The order in which
  the paths are given does not matter.
\<close>

lemma minimize_paths_exact:
  "set (minimize_paths paths) = {p. p \<in> set paths \<and> {q \<in> set paths. is_relative_to p q} = {p}} \<and>
   set paths \<subseteq> {p. \<exists>m. m \<in> set (minimize_paths paths) \<and> is_relative_to p m} \<and>
   distinct (minimize_paths paths)"
  using path_min.fold_step_Nil [where xs = "sort (remdups paths)"]
  by (auto simp: minimize_paths_def path_min.least_def)

section \<open>One chain of links\<close>

text \<open>The chain without the test for a cycle.\<close>

function follow_chain ::
    "fsys \<Rightarrow> ppath \<Rightarrow> ppath \<Rightarrow> ppath list \<times> ppath list \<Rightarrow> ppath list \<times> ppath list" where
  "follow_chain fs scan_dir p st =
     (case path_readlink fs [] p of
        None \<Rightarrow> st
      | Some t \<Rightarrow>
          if \<not> path_exists fs [] (link_target p t) then st
          else follow_chain fs scan_dir (link_target p t) (note_target fs scan_dir (link_target p t) st))"
  by pat_completeness auto
termination
  by (relation "measure (\<lambda>(fs, scan_dir, p, st). chain_measure fs p)") (auto intro: chain_measure_less)

declare follow_chain.simps [simp del]

lemma chain_loop_follow:
  assumes "\<forall>v \<in> set visited. chain_measure fs p < chain_measure fs v"
  shows "chain_loop fs scan_dir visited p st = follow_chain fs scan_dir p st"
  using assms
proof (induction fs scan_dir visited p st rule: chain_loop.induct)
  case (1 fs scan_dir visited p st)
  show ?case
  proof (cases "\<exists>t. path_readlink fs [] p = Some t \<and> path_exists fs [] (link_target p t)")
    case True
    then obtain t where t: "path_readlink fs [] p = Some t" "path_exists fs [] (link_target p t)" by blast
    have less: "chain_measure fs (link_target p t) < chain_measure fs p"
      using t by (rule chain_measure_less)
    have new: "p \<notin> set visited" using "1.prems" by blast
    have "\<forall>v \<in> set (p # visited). chain_measure fs (link_target p t) < chain_measure fs v"
      using less "1.prems" by force
    with "1.IH" [OF t(1) new] t new show ?thesis
      by (subst chain_loop.simps, subst follow_chain.simps) simp
  next
    case False
    then show ?thesis
      by (subst chain_loop.simps, subst follow_chain.simps) (auto split: option.split)
  qed
qed

text \<open>The targets along a chain of links.\<close>

definition hop :: "fsys \<Rightarrow> ppath \<Rightarrow> ppath \<Rightarrow> bool" where
  "hop fs p q \<longleftrightarrow> (\<exists>t. path_readlink fs [] p = Some t \<and> q = link_target p t \<and> path_exists fs [] q)"

definition chain_mounts :: "fsys \<Rightarrow> ppath \<Rightarrow> ppath \<Rightarrow> ppath set" where
  "chain_mounts fs scan_dir p =
     {normpath_abs q |q. (hop fs)\<^sup>+\<^sup>+ p q \<and> outside scan_dir (normpath_abs q)}"

lemma hop_iff: "path_readlink fs [] p = Some t \<Longrightarrow>
  hop fs p q \<longleftrightarrow> q = link_target p t \<and> path_exists fs [] q"
  by (auto simp: hop_def)

lemma chain_mounts_step:
  assumes "path_readlink fs [] p = Some t" and "path_exists fs [] (link_target p t)"
  shows "chain_mounts fs scan_dir p =
    {q. q = normpath_abs (link_target p t) \<and> outside scan_dir q} \<union> chain_mounts fs scan_dir (link_target p t)"
proof -
  have "(hop fs)\<^sup>+\<^sup>+ p q \<longleftrightarrow> q = link_target p t \<or> (hop fs)\<^sup>+\<^sup>+ (link_target p t) q" for q
  proof -
    have "(hop fs)\<^sup>+\<^sup>+ p q \<longleftrightarrow> (hop fs)\<^sup>*\<^sup>* (link_target p t) q"
      using assms by (metis hop_iff rtranclp_into_tranclp2 tranclpD)
    then show ?thesis by (metis rtranclp.rtrancl_refl rtranclpD tranclp_into_rtranclp)
  qed
  then show ?thesis by (auto simp: chain_mounts_def)
qed

lemma chain_mounts_stop:
  assumes "\<And>q. \<not> hop fs p q"
  shows "chain_mounts fs scan_dir p = {}"
  using assms by (auto simp: chain_mounts_def dest: tranclpD)

text \<open>A new external path goes to the worklist when it is a directory.\<close>

definition queued :: "fsys \<Rightarrow> ppath list \<times> ppath list \<Rightarrow> ppath list \<times> ppath list \<Rightarrow> bool" where
  "queued fs st st' \<longleftrightarrow>
     set (snd st') = set (snd st) \<union> {q \<in> set (fst st') - set (fst st). path_is_dir fs [] q} \<and>
     set (fst st) \<subseteq> set (fst st')"

interpretation queued: state_rel "queued fs"
  by unfold_locales (auto simp: queued_def)

lemma note_target_spec:
  "set (fst (note_target fs scan_dir p st)) =
     set (fst st) \<union> {q. q = normpath_abs p \<and> outside scan_dir q} \<and>
   queued fs st (note_target fs scan_dir p st)"
  by (auto simp: note_target_def queued_def Let_def split: prod.split)

lemma follow_chain_spec:
  "set (fst (follow_chain fs scan_dir p st)) = set (fst st) \<union> chain_mounts fs scan_dir p \<and>
   queued fs st (follow_chain fs scan_dir p st)"
proof (induction fs scan_dir p st rule: follow_chain.induct)
  case (1 fs scan_dir p st)
  show ?case
  proof (cases "\<exists>q. hop fs p q")
    case True
    then obtain t where t: "path_readlink fs [] p = Some t" "path_exists fs [] (link_target p t)"
      by (auto simp: hop_def)
    let ?st = "note_target fs scan_dir (link_target p t) st"
    have IH: "set (fst (follow_chain fs scan_dir (link_target p t) ?st)) =
        set (fst ?st) \<union> chain_mounts fs scan_dir (link_target p t)"
      "queued fs ?st (follow_chain fs scan_dir (link_target p t) ?st)"
      using "1.IH" [OF t(1)] t(2) by auto
    have "follow_chain fs scan_dir p st = follow_chain fs scan_dir (link_target p t) ?st"
      using t by (subst follow_chain.simps) simp
    with IH note_target_spec [of fs scan_dir "link_target p t" st] show ?thesis
      using queued.R_trans [OF _ IH(2), of st] by (auto simp: chain_mounts_step [OF t])
  next
    case False
    then have "follow_chain fs scan_dir p st = st"
      by (subst follow_chain.simps) (auto simp: hop_def split: option.split)
    with False show ?thesis by (simp add: chain_mounts_stop queued.R_refl)
  qed
qed

lemma process_symlink_follow: "process_symlink = follow_chain"
  by (intro ext) (simp add: process_symlink_def chain_loop_follow)

lemma scan_one_spec:
  "set (fst (scan_one fs scan_dir d st)) =
     set (fst st) \<union> (\<Union>p \<in> set (links_in fs d). chain_mounts fs scan_dir p) \<and>
   queued fs st (scan_one fs scan_dir d st)"
proof -
  have "set (fst (fold (follow_chain fs scan_dir) ps st)) =
      set (fst st) \<union> (\<Union>p \<in> set ps. chain_mounts fs scan_dir p) \<and>
    queued fs st (fold (follow_chain fs scan_dir) ps st)" for ps
  proof (induction ps arbitrary: st)
    case (Cons p ps)
    show ?case
      using Cons.IH [of "follow_chain fs scan_dir p st"] follow_chain_spec [of fs scan_dir p st]
        queued.R_trans by fastforce
  qed (simp add: queued.R_refl)
  then show ?thesis by (simp add: scan_one_def process_symlink_follow)
qed

section \<open>The scan\<close>

text \<open>
  The specification: directories to look into, links met, external paths. \<open>entry fs d n\<close>: the
  directory \<open>d\<close> has an entry \<open>n\<close>.
\<close>

definition entry :: "fsys \<Rightarrow> ppath \<Rightarrow> string \<Rightarrow> bool" where
  "entry fs d n \<longleftrightarrow> (\<exists>l r. loc_of fs [] d = Some (l, r) \<and> node_at fs l = Some Dir \<and> n \<in> set (scandir fs l))"

definition subdir :: "fsys \<Rightarrow> ppath \<Rightarrow> ppath \<Rightarrow> bool" where
  "subdir fs d e \<longleftrightarrow> (\<exists>n. entry fs d n \<and> e = child d n \<and> path_is_dir fs [] e \<and>
     \<not> path_is_symlink fs [] e \<and> n \<noteq> ''.venv'')"

definition link_entry :: "fsys \<Rightarrow> ppath \<Rightarrow> ppath \<Rightarrow> bool" where
  "link_entry fs d p \<longleftrightarrow> (\<exists>n. entry fs d n \<and> p = child d n \<and> path_is_symlink fs [] p \<and>
     \<not> startswith n ''bazel-'' \<and> \<not> (n = ''.venv'' \<and> path_is_dir fs [] p))"

inductive reach_dir :: "fsys \<Rightarrow> ppath \<Rightarrow> ppath \<Rightarrow> bool"
  and reach_link :: "fsys \<Rightarrow> ppath \<Rightarrow> ppath \<Rightarrow> bool"
  and ext_mount :: "fsys \<Rightarrow> ppath \<Rightarrow> ppath \<Rightarrow> bool" for fs S where
  start: "reach_dir fs S S"
| sub: "reach_dir fs S d \<Longrightarrow> subdir fs d e \<Longrightarrow> reach_dir fs S e"
| mounted: "ext_mount fs S q \<Longrightarrow> path_is_dir fs [] q \<Longrightarrow> reach_dir fs S q"
| link: "reach_dir fs S d \<Longrightarrow> link_entry fs d p \<Longrightarrow> reach_link fs S p"
| follow: "reach_link fs S p \<Longrightarrow> hop fs p q \<Longrightarrow> reach_link fs S q"
| mount: "reach_link fs S p \<Longrightarrow> hop fs p q \<Longrightarrow> outside S (normpath_abs q) \<Longrightarrow>
    ext_mount fs S (normpath_abs q)"

lemma os_walk_walked:
  assumes "x \<in> set (os_walk fs [] False (\<lambda>n. n \<noteq> ''.venv'') d)"
  shows "(subdir fs)\<^sup>*\<^sup>* d (fst x) \<and>
    (\<exists>l r. loc_of fs [] (fst x) = Some (l, r) \<and> node_at fs l = Some Dir \<and>
      fst (snd x) = filter (\<lambda>n. path_is_dir fs [] (child (fst x) n) \<and> n \<noteq> ''.venv'') (scandir fs l) \<and>
      snd (snd x) = filter (\<lambda>n. \<not> path_is_dir fs [] (child (fst x) n)) (scandir fs l))"
  using assms
proof (induction rule: os_walk_induct)
  case (below dir l r n)
  then have "subdir fs dir (child dir n)" by (auto simp: subdir_def entry_def)
  with below show ?case by (auto intro: converse_rtranclp_into_rtranclp)
qed auto

lemma walked_os_walk:
  assumes "(subdir fs)\<^sup>*\<^sup>* d e" and "loc_of fs [] e = Some (l, r)" "node_at fs l = Some Dir"
  shows "(e, filter (\<lambda>n. path_is_dir fs [] (child e n) \<and> n \<noteq> ''.venv'') (scandir fs l),
      filter (\<lambda>n. \<not> path_is_dir fs [] (child e n)) (scandir fs l))
    \<in> set (os_walk fs [] False (\<lambda>n. n \<noteq> ''.venv'') d)"
  using assms
proof (induction rule: converse_rtranclp_induct)
  case base
  then show ?case by (subst set_os_walk) auto
next
  case (step d d')
  then show ?case by (subst set_os_walk) (auto simp: subdir_def entry_def)
qed

lemma links_inI:
  assumes "(e, ds, fls) \<in> set (os_walk fs [] False (\<lambda>n. n \<noteq> ''.venv'') d)" and "n \<in> set ds \<union> set fls"
    and "path_is_symlink fs [] (child e n)" and "\<not> startswith n ''bazel-''"
  shows "child e n \<in> set (links_in fs d)"
  unfolding links_in_def using assms by (auto intro!: bexI [OF _ assms(1)])

lemma set_links_in: "p \<in> set (links_in fs d) \<longleftrightarrow> (\<exists>e. (subdir fs)\<^sup>*\<^sup>* d e \<and> link_entry fs e p)"
proof
  assume "p \<in> set (links_in fs d)"
  then obtain x n where x: "x \<in> set (os_walk fs [] False (\<lambda>n. n \<noteq> ''.venv'') d)"
    and n: "n \<in> set (fst (snd x) @ snd (snd x))" "p = child (fst x) n"
    "path_is_symlink fs [] p" "\<not> startswith n ''bazel-''"
    by (fastforce simp: links_in_def)
  from os_walk_walked [OF x] n have "(subdir fs)\<^sup>*\<^sup>* d (fst x)" "link_entry fs (fst x) p"
    by (auto simp: link_entry_def entry_def)
  then show "\<exists>e. (subdir fs)\<^sup>*\<^sup>* d e \<and> link_entry fs e p" by blast
next
  assume "\<exists>e. (subdir fs)\<^sup>*\<^sup>* d e \<and> link_entry fs e p"
  then obtain e n l r where "(subdir fs)\<^sup>*\<^sup>* d e" "loc_of fs [] e = Some (l, r)" "node_at fs l = Some Dir"
    and n: "n \<in> set (scandir fs l)" "p = child e n" "path_is_symlink fs [] p"
    "\<not> startswith n ''bazel-''" "\<not> (n = ''.venv'' \<and> path_is_dir fs [] p)"
    by (auto simp: link_entry_def entry_def)
  from links_inI [OF walked_os_walk [OF this(1-3)], of n] n show "p \<in> set (links_in fs d)" by auto
qed

text \<open>What the loop has done so far: the scanned directories are finished, new directories wait.\<close>

definition scan_inv :: "fsys \<Rightarrow> ppath \<Rightarrow> ppath list \<Rightarrow> ppath list \<Rightarrow> ppath list \<Rightarrow> bool" where
  "scan_inv fs S scanned ext worklist \<longleftrightarrow>
     S \<in> set scanned \<union> set worklist \<and>
     {q \<in> set ext. path_is_dir fs [] q} \<subseteq> set scanned \<union> set worklist \<and>
     (\<forall>d \<in> set scanned. \<forall>p \<in> set (links_in fs d). chain_mounts fs S p \<subseteq> set ext) \<and>
     set ext \<subseteq> Collect (ext_mount fs S) \<and> set scanned \<union> set worklist \<subseteq> Collect (reach_dir fs S)"

lemma reach_subdirs: "reach_dir fs S d \<Longrightarrow> (subdir fs)\<^sup>*\<^sup>* d e \<Longrightarrow> reach_dir fs S e"
  by (rotate_tac, induction rule: rtranclp_induct) (auto intro: sub)

lemma reach_chain:
  assumes "reach_link fs S p" and "q \<in> chain_mounts fs S p"
  shows "ext_mount fs S q"
proof -
  from assms(2) obtain r where r: "(hop fs)\<^sup>+\<^sup>+ p r" "outside S (normpath_abs r)" "q = normpath_abs r"
    by (auto simp: chain_mounts_def)
  from r(1) obtain p' where "(hop fs)\<^sup>*\<^sup>* p p'" "hop fs p' r" by (metis tranclp.cases tranclp_into_rtranclp rtranclp.rtrancl_refl)
  from this(1) assms(1) have "reach_link fs S p'" by (induction rule: rtranclp_induct) (auto intro: follow)
  with \<open>hop fs p' r\<close> r show ?thesis by (auto intro: mount)
qed

lemma scan_inv_step:
  assumes inv: "scan_inv fs S scanned ext (d # rest)"
    and eq: "scan_one fs S d (ext, rest) = (ext', worklist')"
  shows "scan_inv fs S (d # scanned) ext' worklist'"
proof -
  let ?new = "\<Union>p \<in> set (links_in fs d). chain_mounts fs S p"
  have ext': "set ext' = set ext \<union> ?new"
    and wl': "set worklist' = set rest \<union> {q \<in> set ext' - set ext. path_is_dir fs [] q}"
    using scan_one_spec [of fs S d "(ext, rest)"] by (auto simp: eq queued_def)
  have d: "reach_dir fs S d" using inv by (simp add: scan_inv_def)
  have "?new \<subseteq> Collect (ext_mount fs S)"
  proof
    fix q
    assume "q \<in> ?new"
    then obtain p e where "q \<in> chain_mounts fs S p" "(subdir fs)\<^sup>*\<^sup>* d e" "link_entry fs e p"
      by (auto simp: set_links_in)
    then show "q \<in> Collect (ext_mount fs S)"
      using reach_chain link reach_subdirs [OF d] by blast
  qed
  with inv ext' have "set ext' \<subseteq> Collect (ext_mount fs S)" by (auto simp: scan_inv_def)
  moreover from this have "set worklist' \<subseteq> Collect (reach_dir fs S)"
    using inv unfolding wl' by (auto simp: scan_inv_def intro: mounted)
  moreover have "chain_mounts fs S p \<subseteq> set ext'" if "e \<in> set (d # scanned)" "p \<in> set (links_in fs e)" for e p
    using inv that unfolding scan_inv_def ext' by (cases "e = d") (simp, blast)+
  moreover have "S \<in> set (d # scanned) \<union> set worklist'"
    "{q \<in> set ext'. path_is_dir fs [] q} \<subseteq> set (d # scanned) \<union> set worklist'"
    "set (d # scanned) \<subseteq> Collect (reach_dir fs S)"
    using inv d unfolding scan_inv_def wl' by auto
  ultimately show ?thesis unfolding scan_inv_def by blast
qed

lemma scan_loop_closed:
  assumes "scan_inv fs S scanned ext worklist"
  shows "\<exists>scanned'. scan_inv fs S scanned' (scan_loop fs S scanned ext worklist) []"
  using assms
proof (induction fs S scanned ext worklist rule: scan_loop.induct)
  case (2 fs S scanned ext d rest)
  show ?case
  proof (cases "d \<in> set scanned")
    case True
    with 2 have "scan_inv fs S scanned ext rest" by (auto simp: scan_inv_def)
    with 2 True show ?thesis by simp
  next
    case False
    obtain ext' wl' where eq: "scan_one fs S d (ext, rest) = (ext', wl')" by fastforce
    from scan_inv_step [OF "2.prems" eq] "2.IH"(2) [OF False eq [symmetric]] show ?thesis
      using False eq by simp
  qed
qed auto

text \<open>A finished scan has found everything.\<close>

lemma scan_complete:
  assumes inv: "scan_inv fs S scanned ext []"
  shows "reach_dir fs S d \<Longrightarrow> \<exists>e \<in> set scanned. (subdir fs)\<^sup>*\<^sup>* e d"
    and "reach_link fs S p \<Longrightarrow> \<exists>e \<in> set scanned. \<exists>p0 \<in> set (links_in fs e). (hop fs)\<^sup>*\<^sup>* p0 p"
    and "ext_mount fs S q \<Longrightarrow> q \<in> set ext"
proof (induction rule: reach_dir_reach_link_ext_mount.inducts)
  case (link d p)
  then obtain e where "e \<in> set scanned" "p \<in> set (links_in fs e)" by (auto simp: set_links_in)
  then show ?case by blast
next
  case (mount p q)
  then obtain e p0 where e: "e \<in> set scanned" "p0 \<in> set (links_in fs e)" "(hop fs)\<^sup>*\<^sup>* p0 p" by blast
  then have "normpath_abs q \<in> chain_mounts fs S p0"
    using mount by (auto simp: chain_mounts_def intro: rtranclp_into_tranclp1)
  with inv e show ?case by (auto simp: scan_inv_def)
qed (use inv in \<open>auto simp: scan_inv_def intro: rtranclp.rtrancl_into_rtrancl\<close>)

lemma list_external_mounts_set:
  "set (list_external_mounts fs cwd scan_dir) = Collect (ext_mount fs (realpath fs cwd scan_dir))"
proof -
  let ?S = "realpath fs cwd scan_dir"
  have "scan_inv fs ?S [] [] [?S]" by (simp add: scan_inv_def start)
  then obtain scanned where inv: "scan_inv fs ?S scanned (list_external_mounts fs cwd scan_dir) []"
    using scan_loop_closed by (fastforce simp: list_external_mounts_def Let_def)
  from scan_complete(3) [OF inv] inv show ?thesis by (auto simp: scan_inv_def)
qed

section \<open>Properties of the scan\<close>

text \<open>
  C4: \<^verbatim>\<open>list_external_mounts\<close> returns on every file system (cycles of links included) exactly the external
  paths: the normalised targets outside the scanned directory that are met when following, link
  by link, every link found in the scanned directory or in an external directory found before
  (leaving out \<^verbatim>\<open>.venv\<close> directories and \<^verbatim>\<open>bazel-\<close> links).
\<close>

theorem external_mounts_exact:
  "set (list_external_mounts fs cwd scan_dir) = {q. ext_mount fs (realpath fs cwd scan_dir) q}"
  by (rule list_external_mounts_set)

text \<open>
  C27: \<^verbatim>\<open>get_minimal_mounts\<close> returns the minimal elements of the external paths, the given mounts, their
  resolved forms and (for a linked project root) the resolved root: each of these is at or below
  a returned path, and no returned path is below another one.
\<close>

theorem minimal_mounts_cover:
  "let wanted = {q. ext_mount fs (realpath fs cwd root_dir) q} \<union> set (existing_paths fs cwd root_dir existing);
       mounts = set (get_minimal_mounts fs cwd root_dir existing)
   in mounts \<subseteq> wanted \<and> wanted \<subseteq> {p. \<exists>m. m \<in> mounts \<and> is_relative_to p m} \<and>
      {(m, m') \<in> mounts \<times> mounts. is_relative_to m m'} = Id_on mounts"
proof -
  let ?l = "list_external_mounts fs cwd root_dir @ existing_paths fs cwd root_dir existing"
  have "set ?l = {q. ext_mount fs (realpath fs cwd root_dir) q} \<union> set (existing_paths fs cwd root_dir existing)"
    by (auto simp: list_external_mounts_set)
  moreover have "set (get_minimal_mounts fs cwd root_dir existing) = path_min.least (set ?l)"
    "\<forall>p \<in> set ?l. \<exists>m \<in> set (get_minimal_mounts fs cwd root_dir existing). is_relative_to p m"
    using path_min.fold_step_Nil [where xs = "sort (remdups ?l)"]
    by (simp_all add: get_minimal_mounts_def minimize_paths_def)
  ultimately show ?thesis
    unfolding Let_def by (auto simp: path_min.least_def Id_on_def)
qed

text \<open>
  C37: The test for a cycle in \<^verbatim>\<open>_process_symlink\<close> never stops a chain: without it the loop computes the
  same, and no path leads back to itself. The test that the target exists is what ends a cycle
  of links, since the kernel gives up on it.
\<close>

theorem cycle_test_redundant:
  "process_symlink fs scan_dir path st = follow_chain fs scan_dir path st \<and> \<not> (hop fs)\<^sup>+\<^sup>+ p p"
proof -
  have "(hop fs)\<^sup>+\<^sup>+ p q \<Longrightarrow> chain_measure fs q < chain_measure fs p" for q
  proof (induction rule: tranclp_induct)
    case (step y z)
    then show ?case using chain_measure_less [of fs y] by (fastforce simp: hop_def)
  qed (auto simp: hop_def intro: chain_measure_less)
  then show ?thesis by (auto simp: process_symlink_follow)
qed

text \<open>A project with a link through another link and back up.\<close>

definition demo_links :: fsys where
  "demo_links =
     [([''p''], Dir), ([''p'', ''x''], Symlink ''/e/l/../data''),
      ([''e''], Dir), ([''e'', ''l''], Symlink ''/a/b''),
      ([''a''], Dir), ([''a'', ''b''], Dir), ([''a'', ''data''], File ''cert'' 420)]"

text \<open>
  The targets are normalised as text: for a link whose target goes up with \<^verbatim>\<open>..\<close> after another link,
  the path that is listed need not exist and the file the link leads to is not listed.
\<close>

lemma dotdot_after_link_lost:
  "list_external_mounts demo_links [] (to_path ''/p'') = [to_path ''/e/data''] \<and>
   \<not> path_exists demo_links [] (to_path ''/e/data'') \<and>
   read_bytes demo_links [] (to_path ''/p/x'') = Inr ''cert'' \<and>
   lookup_loc demo_links [] True (to_path ''/p/x'') = Some [''a'', ''data'']"
  by code_simp

end
