(* ===== verification/Event_Handler.thy ===== *)
theory Event_Handler
  imports Py_World
begin

text \<open>
  \<^verbatim>\<open>scripts/container_event_handler.py\<close>: a thread that listens on a TCP socket for events of the
  container, the handling of one event, and the event object that stops the thread. What the
  script tells the user is its log, so the log is part of the state here. The thread, the caller
  of \<^verbatim>\<open>SocketCancelEvent.set\<close> and the network are interleaved step by step.
\<close>

section \<open>Decoding the received bytes\<close>

text \<open>
  \<^verbatim>\<open>data.decode(errors="replace")\<close>: every maximal part of an ill-formed sequence becomes one U+FFFD.
\<close>

definition ill_formed :: "string \<Rightarrow> nat" where
  "ill_formed s =
     (let n = (of_char (hd s) :: nat); cs = tl s;
          second = cs \<noteq> [] \<and>
            (if n = 224 then byte_in 160 191 (hd cs) else if n = 237 then byte_in 128 159 (hd cs)
             else if n = 240 then byte_in 144 191 (hd cs) else if n = 244 then byte_in 128 143 (hd cs)
             else byte_in 128 191 (hd cs));
          third = length cs \<ge> 2 \<and> byte_in 128 191 (cs ! 1)
      in if 224 \<le> n \<and> n \<le> 239 \<and> second then 2
         else if 240 \<le> n \<and> n \<le> 244 \<and> second then (if third then 3 else 2)
         else 1)"

function decode_replace :: "string \<Rightarrow> string" where
  "decode_replace s =
     (if s = [] then []
      else (case utf8_step s of
          Some n \<Rightarrow> take (max 1 n) s @ decode_replace (drop (max 1 n) s)
        | None \<Rightarrow> [CHR 0xEF, CHR 0xBF, CHR 0xBD] @ decode_replace (drop (ill_formed s) s)))"
  by pat_completeness auto
termination
  by (relation "measure length") (auto simp: ill_formed_def Let_def)

declare decode_replace.simps [simp del]

section \<open>Handling an event\<close>

text \<open>The log entries, with the values their texts show.\<close>

datatype log_entry =
    EndTime int int
  | Latency int
  | BadStartTime string
  | NoStartTime
  | ParseFailed exn
  | EventData string
  | UnknownEvent string
  | MalformedEvent string
  | ReceivedEvent
  | ListenerError exn
  | UnexpectedError exn
  | ListenerFailed exn

type_synonym 'a logged = "(log_entry list, 'a) io"

definition log_to :: "log_entry \<Rightarrow> unit logged" where
  "log_to e = (\<lambda>entries. (Inr (), entries @ [e]))"

definition int_of_str :: "string \<Rightarrow> int res" where
  "int_of_str s =
     (case parse_int s of None \<Rightarrow> Inl (ValueError ''invalid literal for int()'') | Some i \<Rightarrow> Inr i)"

text \<open>
  \<^verbatim>\<open>datetime.fromtimestamp(t, timezone.utc)\<close> for \<open>t \<ge> 0\<close>: seconds and microseconds, ValueError for a year
  after 9999, OSError when the year does not fit a C int, OverflowError when the seconds do not
  fit 64 bits.
\<close>

definition timestamp_parts :: "rat \<Rightarrow> int \<times> int" where
  "timestamp_parts x =
     (let s = \<lfloor>x\<rfloor>; us = round_half_even (round_rat ((x - of_int s) * 1000000))
      in if us \<ge> 1000000 then (s + 1, us - 1000000) else (s, us))"

definition fromtimestamp_utc :: "pyfloat \<Rightarrow> (int \<times> int) res" where
  "fromtimestamp_utc t =
     (case t of
        Fin x \<Rightarrow>
          (case timestamp_parts x of (s, us) \<Rightarrow>
             if s \<ge> 9223372036854775808 then Inl (OtherError ''OverflowError'')
             else if s \<ge> 67768036191676800 then Inl (OSError ''Value too large for defined data type'')
             else if s \<ge> 253402300800 then Inl (ValueError ''year is out of range'')
             else Inr (s, us))
      | _ \<Rightarrow> Inl (OtherError ''OverflowError''))"

text \<open>\<open>start_time\<close> is the value of DEVKIT_START_TIME_MS in the environment.\<close>

definition log_latency :: "string option \<Rightarrow> int \<Rightarrow> unit logged" where
  "log_latency start_time ts_end =
     (case start_time of
        Some s \<Rightarrow>
          if s = [] then log_to NoStartTime
          else io_catch
            (io_bind (io_lift (int_of_str s)) (\<lambda>ts_start. log_to (Latency (ts_end - ts_start))))
            (\<lambda>e. if is_ValueError e then Some (log_to (BadStartTime s)) else None)
      | None \<Rightarrow> log_to NoStartTime)"

definition handle_entrypoint_end_time_ms :: "string option \<Rightarrow> string \<Rightarrow> unit logged" where
  "handle_entrypoint_end_time_ms start_time value =
     io_catch
       (io_bind (io_lift (int_of_str (strip value))) (\<lambda>ts_end.
          if ts_end < 0 then io_raise (ValueError ''Timestamp cannot be negative.'')
          else io_bind (io_lift (res_bind (int_truediv ts_end 1000) fromtimestamp_utc)) (\<lambda>(s, us).
            io_bind (log_to (EndTime s us)) (\<lambda>_. log_latency start_time ts_end))))
       (\<lambda>e. if is_ValueError e then Some (log_to (ParseFailed e)) else None)"

definition process_container_event :: "string option \<Rightarrow> string \<Rightarrow> unit logged" where
  "process_container_event start_time data =
     (let decoded_data = strip (decode_replace data) in
      io_bind (log_to (EventData decoded_data)) (\<lambda>_.
        if CHR '':'' \<in> set decoded_data then
          (case split_once (CHR '':'') decoded_data of (event_name, event_value) \<Rightarrow>
             if event_name = ''entrypoint_end_time_ms''
             then handle_entrypoint_end_time_ms start_time event_value
             else log_to (UnknownEvent event_name))
        else log_to (MalformedEvent decoded_data)))"

section \<open>The listener thread\<close>

datatype listener_phase =
    Starting | Testing | Accepting | Connected | Received string | Raised exn | Closing | Closed

text \<open>How far the caller of \<^verbatim>\<open>SocketCancelEvent.set\<close> is.\<close>

datatype canceller = NotCancelled | EventSet | CancelDone

record listener =
  l_phase :: listener_phase
  l_canceller :: canceller
  l_event :: bool
  l_shutdown :: bool
  l_open :: bool
  l_log :: "log_entry list"

text \<open>
  What the network answers to a blocking call; \<open>Proceed\<close> where the thread makes no call. A socket
  that was shut down accepts no connection, and one \<^verbatim>\<open>recv(1024)\<close> returns at most 1024 bytes.
\<close>

datatype net_answer =
    ListenOk | ListenFails exn | Connection | AcceptFails exn | Data string | RecvFails exn | Proceed

definition is_set :: "listener \<Rightarrow> bool" where
  "is_set s = l_event s"

fun add_log :: "log_entry \<Rightarrow> listener \<Rightarrow> listener" where
  "add_log e s = s\<lparr>l_log := l_log s @ [e]\<rparr>"

text \<open>The exception handlers inside the loop.\<close>

definition handle_raised :: "exn \<Rightarrow> listener \<Rightarrow> listener" where
  "handle_raised e s =
     (if is_set s \<or> \<not> is_Exception e then s
      else if is_OSError e then add_log (ListenerError e) s
      else add_log (UnexpectedError e) s)\<lparr>l_phase := Closing\<rparr>"

fun phase_step :: "string option \<Rightarrow> listener_phase \<Rightarrow> net_answer \<Rightarrow> listener \<Rightarrow> listener option" where
  "phase_step start_time Starting ListenOk s = Some (s\<lparr>l_phase := Testing\<rparr>)"
| "phase_step start_time Starting (ListenFails e) s = Some ((add_log (ListenerFailed e) s)\<lparr>l_phase := Closing\<rparr>)"
| "phase_step start_time Testing Proceed s = Some (s\<lparr>l_phase := if is_set s then Closing else Accepting\<rparr>)"
| "phase_step start_time Accepting Connection s =
     (if l_shutdown s then None else Some (s\<lparr>l_phase := Connected\<rparr>))"
| "phase_step start_time Accepting (AcceptFails e) s = Some (s\<lparr>l_phase := Raised e\<rparr>)"
| "phase_step start_time Connected (Data d) s =
     (if d = [] then Some (s\<lparr>l_phase := Testing\<rparr>)
      else if length d \<le> 1024 then Some ((add_log ReceivedEvent s)\<lparr>l_phase := Received d\<rparr>)
      else None)"
| "phase_step start_time Connected (RecvFails e) s = Some (s\<lparr>l_phase := Raised e\<rparr>)"
| "phase_step start_time (Received d) Proceed s =
     (case process_container_event start_time d (l_log s) of
        (Inr _, entries) \<Rightarrow> Some (s\<lparr>l_phase := Testing, l_log := entries\<rparr>)
      | (Inl e, entries) \<Rightarrow> Some (s\<lparr>l_phase := Raised e, l_log := entries\<rparr>))"
| "phase_step start_time (Raised e) Proceed s = Some (handle_raised e s)"
| "phase_step start_time Closing Proceed s = Some (s\<lparr>l_phase := Closed, l_open := False\<rparr>)"
| "phase_step start_time _ _ s = None"

definition listener_step :: "string option \<Rightarrow> net_answer \<Rightarrow> listener \<Rightarrow> listener option" where
  "listener_step start_time answer s = phase_step start_time (l_phase s) answer s"

text \<open>
  \<^verbatim>\<open>SocketCancelEvent.set\<close>: first the event, then the shutdown of the socket, which has an effect only
  on a socket that listens; the OSError it raises otherwise is ignored.
\<close>

fun cancel_step :: "listener \<Rightarrow> listener option" where
  "cancel_step s =
     (case l_canceller s of
        NotCancelled \<Rightarrow> Some (s\<lparr>l_event := True, l_canceller := EventSet\<rparr>)
      | EventSet \<Rightarrow> Some (s\<lparr>l_shutdown := l_open s \<and> l_phase s \<noteq> Starting, l_canceller := CancelDone\<rparr>)
      | CancelDone \<Rightarrow> None)"

declare cancel_step.simps [simp del]

text \<open>\<^verbatim>\<open>start_container_event_handler\<close>: the socket is bound before the thread starts.\<close>

definition start_container_event_handler :: listener where
  "start_container_event_handler =
     \<lparr>l_phase = Starting, l_canceller = NotCancelled, l_event = False, l_shutdown = False,
      l_open = True, l_log = []\<rparr>"

inductive container_event_listener :: "string option \<Rightarrow> listener \<Rightarrow> listener \<Rightarrow> bool"
  for start_time where
  "listener_step start_time answer s = Some s' \<Longrightarrow> container_event_listener start_time s s'"

inductive handler_reachable :: "string option \<Rightarrow> listener \<Rightarrow> bool" for start_time where
  init: "handler_reachable start_time start_container_event_handler"
| thread: "handler_reachable start_time s \<Longrightarrow> container_event_listener start_time s s' \<Longrightarrow>
    handler_reachable start_time s'"
| cancel: "handler_reachable start_time s \<Longrightarrow> cancel_step s = Some s' \<Longrightarrow>
    handler_reachable start_time s'"

inductive_cases listener_stepE [elim]: "container_event_listener start_time s s'"

end
