(* ===== verification/Event_Handler_Spec.thy ===== *)
theory Event_Handler_Spec
  imports Event_Handler
begin

text \<open>
  The event handler: invariants of the interleaved listener and canceller, the end of the thread
  after a cancellation, and what one event can do.
\<close>

section \<open>The state machine\<close>

text \<open>
  The socket is closed exactly at the end of the thread; the event is set exactly when the
  cancellation has begun; and once the cancellation is complete the thread cannot wait for a
  connection on a socket that was not shut down.
\<close>

definition listener_inv :: "listener \<Rightarrow> bool" where
  "listener_inv s \<longleftrightarrow>
     (l_open s \<longleftrightarrow> l_phase s \<noteq> Closed) \<and>
     (l_event s \<longleftrightarrow> l_canceller s \<noteq> NotCancelled) \<and>
     (l_shutdown s \<longrightarrow> l_canceller s = CancelDone) \<and>
     (l_canceller s = CancelDone \<and> l_phase s = Accepting \<longrightarrow> l_shutdown s)"

lemma listener_inv_step:
  "listener_inv s \<Longrightarrow> listener_step start_time answer s = Some s' \<Longrightarrow> listener_inv s'"
  by (cases "l_phase s"; cases answer)
    (auto simp: listener_step_def listener_inv_def is_set_def handle_raised_def split: if_splits prod.splits sum.splits)

lemma listener_inv_cancel: "listener_inv s \<Longrightarrow> cancel_step s = Some s' \<Longrightarrow> listener_inv s'"
  by (cases "l_canceller s") (auto simp: cancel_step.simps listener_inv_def)

lemma reachable_inv: "handler_reachable start_time s \<Longrightarrow> listener_inv s"
proof (induction rule: handler_reachable.induct)
  case init
  show ?case by (simp add: listener_inv_def start_container_event_handler_def)
qed (auto intro: listener_inv_step listener_inv_cancel)

text \<open>After a cancellation the thread has this many steps left at most.\<close>

definition steps_left :: "listener \<Rightarrow> nat" where
  "steps_left s =
     (case l_phase s of
        Starting \<Rightarrow> 3 | Testing \<Rightarrow> 2 | Accepting \<Rightarrow> 3 | Connected \<Rightarrow> 4 | Received _ \<Rightarrow> 3
      | Raised _ \<Rightarrow> 2 | Closing \<Rightarrow> 1 | Closed \<Rightarrow> 0)"

lemma steps_left_le: "steps_left s \<le> 4"
  by (simp add: steps_left_def split: listener_phase.split)

text \<open>The thread does not touch the canceller.\<close>

lemma listener_keeps_canceller:
  assumes "container_event_listener start_time s s'"
  shows "l_canceller s' = l_canceller s"
  using assms
proof cases
  case (1 answer)
  then show ?thesis
    by (cases "l_phase s"; cases answer)
      (auto simp: listener_step_def handle_raised_def split: if_splits prod.splits sum.splits)
qed

lemma steps_left_less:
  assumes "listener_inv s" and "l_canceller s = CancelDone"
    and "container_event_listener start_time s s'"
  shows "steps_left s' < steps_left s \<and> l_canceller s' = CancelDone"
  using assms(3)
proof cases
  case (1 answer)
  then show ?thesis
    using assms(1,2)
    by (cases "l_phase s"; cases answer)
      (auto simp: listener_step_def listener_inv_def steps_left_def is_set_def handle_raised_def
        split: if_splits prod.splits sum.splits)
qed

lemma cancelled_run_bounded:
  assumes "(container_event_listener start_time ^^ n) s s'" and "listener_inv s"
    and "l_canceller s = CancelDone"
  shows "n + steps_left s' \<le> steps_left s \<and> listener_inv s' \<and> l_canceller s' = CancelDone"
  using assms
proof (induction n arbitrary: s')
  case (Suc n)
  from Suc.prems(1) obtain t where t: "(container_event_listener start_time ^^ n) s t"
    "container_event_listener start_time t s'" by (rule relpowp_Suc_E)
  from Suc.IH [OF t(1)] Suc.prems have IH: "n + steps_left t \<le> steps_left s" "listener_inv t"
    "l_canceller t = CancelDone" by auto
  from steps_left_less [OF IH(2,3) t(2)] IH t(2) show ?case
    by (auto intro: listener_inv_step)
qed simp

text \<open>
  The thread of a cancelled handler waits for nothing but the client of an open connection:
  otherwise it can go on without the network (\<open>accept\<close> on a socket that was shut down fails).
\<close>

lemma cancelled_not_blocked:
  assumes "listener_inv s" and "l_canceller s = CancelDone" and "l_phase s \<noteq> Closed"
  shows "\<exists>answer s'. listener_step start_time answer s = Some s' \<and>
    (answer \<in> {Proceed, ListenOk} \<or> (l_phase s = Accepting \<and> l_shutdown s) \<or> l_phase s = Connected)"
proof (cases "l_phase s")
  case Accepting
  then have "listener_step start_time (AcceptFails (OSError [])) s \<noteq> None" by (simp add: listener_step_def)
  with Accepting assms show ?thesis unfolding listener_inv_def by blast
next
  case Connected
  then have "listener_step start_time (Data []) s \<noteq> None" by (simp add: listener_step_def)
  with Connected show ?thesis by blast
next
  case Starting
  then have "listener_step start_time ListenOk s \<noteq> None" by (simp add: listener_step_def)
  then show ?thesis by blast
next
  case (Received d)
  then have "listener_step start_time Proceed s \<noteq> None"
    by (simp add: listener_step_def split: prod.split sum.split)
  then show ?thesis by blast
qed (use assms in \<open>auto simp: listener_step_def intro!: exI [of _ Proceed]\<close>)

section \<open>One event\<close>

definition MAX_END_TIME_MS :: int where
  "MAX_END_TIME_MS = 253402300799000"

lemma round_rat_int:
  assumes "0 \<le> k" and "k < 2 ^ 53"
  shows "round_rat (of_int k) = of_int k"
proof (cases "k = 0")
  case False
  let ?x = "of_int k :: rat"
  let ?e = "log2_floor ?x"
  have "2 powi ?e \<le> ?x" using log2_floor_bounds [of ?x] assms False by simp
  also have "?x < of_int (2 ^ 53)" using assms(2) by (simp only: of_int_less_iff)
  finally have "(2::rat) powi ?e < 2 powi 53" by simp
  then have "?e < 53" using power_int_increasing [of 53 ?e "2::rat"] by force
  then have u: "ulp_exp ?x \<le> 0" using assms False by (simp add: ulp_exp_def)
  then have e: "?x / 2 powi ulp_exp ?x = of_int (k * 2 ^ nat (- ulp_exp ?x))"
    by (simp add: power_int_def divide_simps)
  then have "of_int (round_half_even (?x / 2 powi ulp_exp ?x)) = ?x / 2 powi ulp_exp ?x"
    by (simp only: round_half_even_of_int)
  then show ?thesis using False by (simp add: round_rat_def)
qed simp

lemma timestamp_parts_bounds:
  assumes "0 \<le> x" and "x \<le> 253402300799"
  shows "fst (timestamp_parts x) < 253402300800"
proof -
  have le: "\<lfloor>x\<rfloor> \<le> 253402300799" using assms(2) by linarith
  show ?thesis
  proof (cases "\<lfloor>x\<rfloor> = 253402300799")
    case True
    then have "x = 253402300799" using assms(2) by linarith
    then show ?thesis by (simp add: timestamp_parts_def Let_def round_half_even_def)
  next
    case False
    define k where "k = \<lfloor>x\<rfloor>"
    have "k < 253402300799" using le False unfolding k_def by linarith
    then show ?thesis unfolding timestamp_parts_def Let_def k_def [symmetric] by simp
  qed
qed

lemma end_time_in_range:
  assumes "0 \<le> n" and "n \<le> MAX_END_TIME_MS"
  shows "\<exists>s us. res_bind (int_truediv n 1000) fromtimestamp_utc = Inr (s, us)"
proof -
  let ?x = "of_int n / 1000 :: rat"
  have x: "0 \<le> ?x" "?x \<le> 253402300799"
    using assms by (simp_all add: MAX_END_TIME_MS_def divide_le_eq)
  have const: "round_rat 253402300799 = 253402300799" using round_rat_int [of 253402300799] by simp
  have y: "0 \<le> round_rat ?x" "round_rat ?x \<le> 253402300799"
    using round_rat_nonneg [OF x(1)] round_rat_mono [OF x] const by simp_all
  have "(253402300799::rat) < 2 ^ 38" by simp
  also have "(2::rat) ^ 38 \<le> 2 ^ 1024" by (rule power_increasing) simp_all
  finally have "double ?x = Fin (round_rat ?x)" using y by (simp add: double_def Let_def del: power_numeral)
  then have "int_truediv n 1000 = Inr (Fin (round_rat ?x))" by (simp add: int_truediv_def)
  moreover obtain s us where "timestamp_parts (round_rat ?x) = (s, us)" by fastforce
  ultimately show ?thesis
    using timestamp_parts_bounds [OF y] by (auto simp: fromtimestamp_utc_def)
qed

lemma decode_replace_ascii: "list_all is_ascii s \<Longrightarrow> decode_replace s = s"
proof (induction s)
  case (Cons c s)
  then have "utf8_step (c # s) = Some 1" by (simp add: utf8_step_def is_ascii_def Let_def)
  with Cons show ?case by (subst decode_replace.simps) simp
qed (simp add: decode_replace.simps)

lemma strip_newline:
  assumes "s \<noteq> []" and "list_all is_ascii s" and "\<And>c. c \<in> set s \<Longrightarrow> \<not> is_space [c]"
  shows "strip (s @ [CHR 0x0A]) = s"
proof -
  have "is_ascii (CHR 0x0A)" by (simp add: is_ascii_def)
  with assms(2) have cps: "cps (s @ [CHR 0x0A]) = map (\<lambda>c. [c]) s @ [[CHR 0x0A]]"
    by (simp add: cps_ascii)
  have "dropWhile is_space (map (\<lambda>c. [c]) s @ [[CHR 0x0A]]) = map (\<lambda>c. [c]) s @ [[CHR 0x0A]]"
    using assms(1,3) by (cases s) auto
  moreover have "dropWhile is_space (rev (map (\<lambda>c. [c]) s)) = rev (map (\<lambda>c. [c]) s)"
    by (rule dropWhile_no) (use assms(3) in auto)
  moreover have "is_space [CHR 0x0A]" by (simp add: is_space_def space_cps_def)
  ultimately show ?thesis by (simp add: strip_def cps)
qed

text \<open>The line the entry point of the container sends.\<close>

definition event_line :: "int \<Rightarrow> string" where
  "event_line n = ''entrypoint_end_time_ms:'' @ show_int n @ [CHR 0x0A]"

lemma event_line_text: "strip (decode_replace (event_line n)) = ''entrypoint_end_time_ms:'' @ show_int n"
proof -
  let ?s = "''entrypoint_end_time_ms:'' @ show_int n"
  have head: "list_all (\<lambda>c. is_ascii c \<and> \<not> is_space [c]) ''entrypoint_end_time_ms:''"
    by (simp add: is_ascii_def is_space_def space_cps_def)
  have "is_ascii c \<and> \<not> is_space [c]" if "c \<in> set (show_int n)" for c
    using show_int_chars [OF that] digit_ascii [of c] digit_no_space [of c]
    by (cases "c = CHR ''-''") (auto simp: is_ascii_def is_space_def space_cps_def)
  with head have all: "list_all (\<lambda>c. is_ascii c \<and> \<not> is_space [c]) ?s"
    unfolding list_all_append by (simp add: list_all_iff)
  then have asc: "list_all is_ascii ?s" by (simp only: list_all_iff) blast
  moreover have "list_all is_ascii [CHR 0x0A]" by (simp add: is_ascii_def)
  ultimately have "list_all is_ascii (event_line n)" unfolding event_line_def list_all_append by simp
  then have "decode_replace (event_line n) = ?s @ [CHR 0x0A]"
    by (simp add: decode_replace_ascii event_line_def)
  moreover have "\<not> is_space [c]" if "c \<in> set ?s" for c
    using all that by (simp only: list_all_iff) blast
  moreover have "?s \<noteq> []" by simp
  ultimately show ?thesis using strip_newline [OF _ asc] by metis
qed

text \<open>The timestamp an event carries, if it carries one.\<close>

definition end_time_of :: "string \<Rightarrow> int option" where
  "end_time_of data =
     (let decoded_data = strip (decode_replace data) in
      if CHR '':'' \<in> set decoded_data \<and> fst (split_once (CHR '':'') decoded_data) = ''entrypoint_end_time_ms''
      then parse_int (strip (snd (split_once (CHR '':'') decoded_data))) else None)"

lemma split_event_line:
  "split_once (CHR '':'') (''entrypoint_end_time_ms:'' @ show_int n) = (''entrypoint_end_time_ms'', show_int n)"
  using split_once_append [of "CHR '':''" "''entrypoint_end_time_ms''" "show_int n"] by simp

lemma end_time_of_event_line [simp]: "end_time_of (event_line n) = Some n"
  unfolding end_time_of_def event_line_text Let_def split_event_line by simp

text \<open>An event without a timestamp, or with one in range, is handled without an exception.\<close>

lemma log_latency_ok: "\<exists>e. log_latency start_time n entries = (Inr (), entries @ [e])"
  by (auto simp: log_latency_def log_to_def int_of_str_def res_simps split: option.split sum.split)

lemma handle_end_time:
  assumes "parse_int (strip v) = Some n" and "0 \<le> n" and "n \<le> MAX_END_TIME_MS"
  shows "\<exists>s us. handle_entrypoint_end_time_ms start_time v entries = log_latency start_time n (entries @ [EndTime s us])"
proof -
  obtain s us where d: "res_bind (int_truediv n 1000) fromtimestamp_utc = Inr (s, us)"
    using end_time_in_range [OF assms(2,3)] by blast
  obtain e where "log_latency start_time n (entries @ [EndTime s us]) = (Inr (), (entries @ [EndTime s us]) @ [e])"
    using log_latency_ok by blast
  then have "handle_entrypoint_end_time_ms start_time v entries = log_latency start_time n (entries @ [EndTime s us])"
    using assms d by (auto simp: handle_entrypoint_end_time_ms_def int_of_str_def log_to_def
        io_catch_def io_bind_def io_lift_def)
  then show ?thesis by blast
qed

lemma process_event_ok:
  assumes "\<And>n. end_time_of d = Some n \<Longrightarrow> n \<le> MAX_END_TIME_MS"
  shows "\<exists>es. process_container_event start_time d entries = (Inr (), entries @ es)"
proof -
  define dec where "dec = strip (decode_replace d)"
  obtain nm v where sp: "split_once (CHR '':'') dec = (nm, v)" by fastforce
  show ?thesis
  proof (cases "CHR '':'' \<in> set dec \<and> nm = ''entrypoint_end_time_ms''")
    case False
    then show ?thesis
      by (auto simp: process_container_event_def Let_def dec_def [symmetric] sp log_to_def res_simps)
  next
    case True
    then have et: "end_time_of d = parse_int (strip v)"
      by (simp add: end_time_of_def Let_def dec_def [symmetric] sp)
    have pr: "process_container_event start_time d entries =
        handle_entrypoint_end_time_ms start_time v (entries @ [EventData dec])"
      using True by (simp add: process_container_event_def Let_def dec_def [symmetric] sp log_to_def res_simps)
    show ?thesis
    proof (cases "\<exists>n. parse_int (strip v) = Some n \<and> 0 \<le> n")
      case True
      then obtain n where n: "parse_int (strip v) = Some n" "0 \<le> n" by blast
      with assms et have "n \<le> MAX_END_TIME_MS" by simp
      with handle_end_time [OF n] log_latency_ok show ?thesis unfolding pr by (metis append.assoc)
    next
      case False
      then show ?thesis unfolding pr
        by (cases "parse_int (strip v)")
          (auto simp: handle_entrypoint_end_time_ms_def int_of_str_def log_to_def res_simps)
    qed
  qed
qed

text \<open>A timestamp so large that its year does not fit a C int.\<close>

lemma huge_time_raises:
  assumes "2 ^ 56 * 1000 \<le> n" and "n \<le> 2 ^ 62 * 1000"
  shows "\<exists>m. res_bind (int_truediv n 1000) fromtimestamp_utc = Inl (OSError m)"
proof -
  let ?x = "of_int n / 1000 :: rat"
  have "of_int (2 ^ 56 * 1000) \<le> (of_int n :: rat)" "(of_int n :: rat) \<le> of_int (2 ^ 62 * 1000)"
    using assms by (simp_all only: of_int_le_iff)
  then have x: "2 powi 56 \<le> ?x" "?x \<le> 2 powi 62" by simp_all
  have pos: "0 < ?x" using x(1) by (simp add: less_le_trans)
  have y: "2 powi 56 \<le> round_rat ?x" "round_rat ?x \<le> 2 powi 62"
    using round_rat_ge_pow [OF x(1)] round_rat_le_pow [OF pos x(2)] by simp_all
  have "(2::rat) powi 62 = 2 ^ 62" by (simp add: power_int_def)
  also have "(2::rat) ^ 62 < 2 ^ 1024" by (rule power_strict_increasing) simp_all
  finally have "round_rat ?x < 2 ^ 1024" using y(2) by (rule le_less_trans [rotated])
  moreover have "\<not> round_rat ?x \<le> - (2 ^ 1024)"
  proof -
    have "- (2 ^ 1024) < (0::rat)" by (simp only: neg_less_0_iff_less zero_less_power zero_less_numeral)
    also have "\<dots> \<le> round_rat ?x" using round_rat_nonneg pos by simp
    finally show ?thesis by simp
  qed
  ultimately have "double ?x = Fin (round_rat ?x)" by (simp add: double_def Let_def del: power_numeral)
  then have td: "int_truediv n 1000 = Inr (Fin (round_rat ?x))" by (simp add: int_truediv_def)
  obtain s us where su: "timestamp_parts (round_rat ?x) = (s, us)" by fastforce
  define k where "k = \<lfloor>round_rat ?x\<rfloor>"
  have "2 ^ 56 \<le> k" "k \<le> 2 ^ 62" using y unfolding k_def by (simp_all add: le_floor_iff floor_le_iff)
  moreover have "s = k \<or> s = k + 1"
    using su unfolding timestamp_parts_def Let_def k_def [symmetric] by (auto split: if_splits)
  ultimately have "67768036191676800 \<le> s" "s < 9223372036854775808" by auto
  with td su show ?thesis by (simp add: fromtimestamp_utc_def)
qed

lemma huge_event_raises:
  assumes et: "end_time_of d = Some n" and "2 ^ 56 * 1000 \<le> n" and "n \<le> 2 ^ 62 * 1000"
  shows "\<exists>m es. process_container_event start_time d entries = (Inl (OSError m), entries @ es)"
proof -
  define dec where "dec = strip (decode_replace d)"
  obtain nm v where sp: "split_once (CHR '':'') dec = (nm, v)" by fastforce
  from et have nm: "CHR '':'' \<in> set dec" "nm = ''entrypoint_end_time_ms''" and v: "parse_int (strip v) = Some n"
    by (auto simp: end_time_of_def Let_def dec_def [symmetric] sp split: if_splits)
  obtain m where m: "res_bind (int_truediv n 1000) fromtimestamp_utc = Inl (OSError m)"
    using huge_time_raises [OF assms(2,3)] by blast
  have "0 \<le> n" using assms(2) by simp
  with nm v m show ?thesis
    by (auto simp: process_container_event_def Let_def dec_def [symmetric] sp log_to_def io_bind_def
        handle_entrypoint_end_time_ms_def int_of_str_def io_catch_def io_lift_def)
qed

section \<open>Properties\<close>

text \<open>A run: the thread waits for a connection when the handler is cancelled.\<close>

definition demo_waiting :: listener where
  "demo_waiting = start_container_event_handler\<lparr>l_phase := Accepting\<rparr>"

definition demo_cancelled :: listener where
  "demo_cancelled = demo_waiting\<lparr>l_event := True, l_shutdown := True, l_canceller := CancelDone\<rparr>"

lemma demo_reachable: "handler_reachable start_time demo_cancelled"
proof -
  let ?s0 = start_container_event_handler
  let ?s1 = "?s0\<lparr>l_phase := Testing\<rparr>"
  have "listener_step start_time ListenOk ?s0 = Some ?s1"
    by (simp add: listener_step_def start_container_event_handler_def)
  then have 1: "handler_reachable start_time ?s1"
    by (blast intro: handler_reachable.intros container_event_listener.intros)
  have "listener_step start_time Proceed ?s1 = Some demo_waiting"
    by (simp add: listener_step_def start_container_event_handler_def demo_waiting_def is_set_def)
  with 1 have 2: "handler_reachable start_time demo_waiting"
    by (blast intro: handler_reachable.intros container_event_listener.intros)
  let ?s3 = "demo_waiting\<lparr>l_event := True, l_canceller := EventSet\<rparr>"
  have "cancel_step demo_waiting = Some ?s3"
    by (simp add: cancel_step.simps demo_waiting_def start_container_event_handler_def)
  with 2 have 3: "handler_reachable start_time ?s3" by (rule handler_reachable.cancel)
  have "cancel_step ?s3 = Some demo_cancelled"
    by (simp add: cancel_step.simps demo_waiting_def demo_cancelled_def start_container_event_handler_def)
  with 3 show ?thesis by (rule handler_reachable.cancel)
qed

text \<open>
  C13: In every reachable state of the event handler, whatever the interleaving of the thread, the
  caller of \<^verbatim>\<open>set()\<close> and the network: the socket is open exactly until the thread has ended, the event
  is set exactly when \<^verbatim>\<open>set()\<close> has begun, the socket is shut down only by \<^verbatim>\<open>set()\<close>, and after \<^verbatim>\<open>set()\<close> the
  thread is never left waiting in \<^verbatim>\<open>accept()\<close> on a socket that was not shut down.
\<close>

theorem handler_invariant:
  assumes "handler_reachable start_time s"
  shows "(l_open s \<longleftrightarrow> l_phase s \<noteq> Closed) \<and> (l_event s \<longleftrightarrow> l_canceller s \<noteq> NotCancelled) \<and>
    (l_shutdown s \<longrightarrow> l_canceller s = CancelDone) \<and>
    (l_canceller s = CancelDone \<and> l_phase s = Accepting \<longrightarrow> l_shutdown s)"
  using reachable_inv [OF assms] by (simp add: listener_inv_def)

theorem handler_invariant_witness:
  "handler_reachable (Some ''1'') demo_cancelled \<and> l_open demo_cancelled \<and> l_phase demo_cancelled \<noteq> Closed"
  using handler_invariant [OF demo_reachable [of "Some ''1''"]] demo_reachable [of "Some ''1''"]
  by (simp add: demo_cancelled_def demo_waiting_def)

text \<open>
  C5: Once \<^verbatim>\<open>SocketCancelEvent.set\<close> has returned, the listener thread makes at most four more steps, whatever
  the network does; and it stops short of closing the socket only while it waits for the client
  of a connection it had accepted before.
\<close>

theorem cancel_ends_listener:
  assumes "handler_reachable start_time s" and "l_canceller s = CancelDone"
    and "(container_event_listener start_time ^^ n) s s'"
  shows "n \<le> 4 \<and>
    (l_phase s' = Closed \<and> \<not> l_open s' \<or> l_phase s' = Connected \<or>
     (\<exists>answer s''. listener_step start_time answer s' = Some s'' \<and>
        (answer = Proceed \<or> answer = ListenOk \<or> (l_phase s' = Accepting \<and> l_shutdown s'))))"
proof -
  have inv: "listener_inv s" using assms(1) by (rule reachable_inv)
  from cancelled_run_bounded [OF assms(3) inv assms(2)]
  have run: "n + steps_left s' \<le> steps_left s" "listener_inv s'" "l_canceller s' = CancelDone" by auto
  have "n \<le> 4" using run(1) steps_left_le [of s] by simp
  then show ?thesis
    using run cancelled_not_blocked [OF run(2,3), of start_time]
    by (cases "l_phase s' = Closed") (auto simp: listener_inv_def)
qed

theorem cancel_ends_listener_witness:
  "(container_event_listener None ^^ 3) demo_cancelled (demo_cancelled\<lparr>l_phase := Closed, l_open := False\<rparr>) \<and>
   (3::nat) \<le> 4"
proof -
  let ?e = "OSError ''Invalid argument''"
  let ?t1 = "demo_cancelled\<lparr>l_phase := Raised ?e\<rparr>"
  let ?t2 = "demo_cancelled\<lparr>l_phase := Closing\<rparr>"
  let ?t3 = "demo_cancelled\<lparr>l_phase := Closed, l_open := False\<rparr>"
  have "listener_step None (AcceptFails ?e) demo_cancelled = Some ?t1"
    "listener_step None Proceed ?t1 = Some ?t2" "listener_step None Proceed ?t2 = Some ?t3"
    by (simp_all add: listener_step_def demo_cancelled_def demo_waiting_def handle_raised_def is_set_def)
  then have "container_event_listener None demo_cancelled ?t1" "container_event_listener None ?t1 ?t2"
    "container_event_listener None ?t2 ?t3" by (blast intro: container_event_listener.intros)+
  then have run: "(container_event_listener None ^^ 3) demo_cancelled ?t3"
    unfolding numeral_3_eq_3 by (simp only: relpowp.simps relcompp_apply) blast
  have "l_canceller demo_cancelled = CancelDone" by (simp add: demo_cancelled_def)
  from cancel_ends_listener [OF demo_reachable this run] run show ?thesis by blast
qed

text \<open>
  C26: An event that carries no timestamp, or one up to the end of the year 9999, never stops the
  listener: after handling it the thread goes back to its loop. For the line the container's
  entry point sends, the log gets the end time and the latency from DEVKIT_START_TIME_MS.
\<close>

theorem events_keep_listening:
  assumes "l_phase s = Received d" and "case end_time_of d of None \<Rightarrow> True | Some n \<Rightarrow> n \<le> MAX_END_TIME_MS"
  shows "(\<exists>es. listener_step start_time Proceed s = Some (s\<lparr>l_phase := Testing, l_log := l_log s @ es\<rparr>)) \<and>
    (\<forall>n t. d = event_line n \<and> 0 \<le> n \<and> start_time = Some (show_int t) \<longrightarrow>
      (\<exists>sec us. listener_step start_time Proceed s = Some (s\<lparr>l_phase := Testing,
         l_log := l_log s @ [EventData (''entrypoint_end_time_ms:'' @ show_int n), EndTime sec us, Latency (n - t)]\<rparr>)))"
proof (intro conjI allI impI)
  from assms(2) obtain es where "process_container_event start_time d (l_log s) = (Inr (), l_log s @ es)"
    using process_event_ok [of d] by (auto split: option.splits)
  then show "\<exists>es. listener_step start_time Proceed s = Some (s\<lparr>l_phase := Testing, l_log := l_log s @ es\<rparr>)"
    using assms(1) by (auto simp: listener_step_def)
next
  fix n t
  assume n: "d = event_line n \<and> 0 \<le> n \<and> start_time = Some (show_int t)"
  let ?e = "EventData (''entrypoint_end_time_ms:'' @ show_int n)"
  have "n \<le> MAX_END_TIME_MS" using n assms(2) by simp
  moreover have "parse_int (strip (show_int n)) = Some n" by simp
  ultimately obtain sec us where h: "handle_entrypoint_end_time_ms start_time (show_int n) (l_log s @ [?e]) =
      log_latency start_time n ((l_log s @ [?e]) @ [EndTime sec us])"
    using handle_end_time [of "show_int n" n start_time "l_log s @ [?e]"] n by blast
  have "show_int t \<noteq> []" by (simp add: show_int_def)
  then have "log_latency start_time n entries = (Inr (), entries @ [Latency (n - t)])" for entries
    using n by (simp add: log_latency_def int_of_str_def log_to_def res_simps)
  with h have "process_container_event start_time d (l_log s) =
      (Inr (), l_log s @ [?e, EndTime sec us, Latency (n - t)])"
    using n unfolding process_container_event_def
    by (simp add: event_line_text split_event_line log_to_def io_bind_def del: append_Cons)
  then show "\<exists>sec us. listener_step start_time Proceed s = Some (s\<lparr>l_phase := Testing,
         l_log := l_log s @ [?e, EndTime sec us, Latency (n - t)]\<rparr>)"
    using assms(1) by (auto simp: listener_step_def)
qed

definition demo_event :: "int \<Rightarrow> listener" where
  "demo_event n = start_container_event_handler\<lparr>l_phase := Received (event_line n)\<rparr>"

theorem events_keep_listening_witness:
  "\<exists>sec us. listener_step (Some (show_int 1000)) Proceed (demo_event 1250) = Some ((demo_event 1250)\<lparr>l_phase := Testing,
     l_log := [EventData (''entrypoint_end_time_ms:'' @ show_int 1250), EndTime sec us, Latency 250]\<rparr>)"
  using conjunct2 [OF events_keep_listening [of "demo_event 1250" "event_line 1250" "Some (show_int 1000)"],
      rule_format, of 1250 1000]
  by (simp add: demo_event_def MAX_END_TIME_MS_def start_container_event_handler_def)

text \<open>
  C38: One event ends the listener: a timestamp whose year does not fit a C int (for instance
  \<^verbatim>\<open>entrypoint_end_time_ms:100000000000000000000\<close>) raises an OSError that \<^verbatim>\<open>handle_entrypoint_end_time_ms\<close> does not
  catch, and the loop takes it for a failure of the socket and stops, although nobody cancelled.
\<close>

theorem huge_timestamp_stops_listener:
  assumes "l_phase s = Received d" and "end_time_of d = Some n" and "2 ^ 56 * 1000 \<le> n" and "n \<le> 2 ^ 62 * 1000"
    and "\<not> is_set s"
  shows "\<exists>m s' s''. listener_step start_time Proceed s = Some s' \<and> listener_step start_time Proceed s' = Some s'' \<and>
    l_phase s'' = Closing \<and> last (l_log s'') = ListenerError (OSError m)"
proof -
  obtain m es where p: "process_container_event start_time d (l_log s) = (Inl (OSError m), l_log s @ es)"
    using huge_event_raises [OF assms(2-4)] by blast
  let ?s' = "s\<lparr>l_phase := Raised (OSError m), l_log := l_log s @ es\<rparr>"
  have "listener_step start_time Proceed s = Some ?s'" using assms(1) p by (simp add: listener_step_def)
  moreover have "listener_step start_time Proceed ?s' = Some (handle_raised (OSError m) ?s')"
    by (simp add: listener_step_def)
  moreover have "l_phase (handle_raised (OSError m) ?s') = Closing"
    "last (l_log (handle_raised (OSError m) ?s')) = ListenerError (OSError m)"
    using assms(5) by (simp_all add: handle_raised_def is_set_def)
  ultimately show ?thesis by blast
qed

theorem huge_timestamp_stops_listener_witness:
  "\<exists>m s' s''. listener_step None Proceed (demo_event 100000000000000000000) = Some s' \<and>
     listener_step None Proceed s' = Some s'' \<and>
     l_phase s'' = Closing \<and> last (l_log s'') = ListenerError (OSError m)"
  by (rule huge_timestamp_stops_listener [where d = "event_line 100000000000000000000"
        and n = 100000000000000000000])
    (simp_all add: demo_event_def is_set_def start_container_event_handler_def)

end
