(* ===== verification/Cert_Tool.thy ===== *)
theory Cert_Tool
  imports Py_World "HOL-Library.Word"
begin

text \<open>
  \<^verbatim>\<open>tools/issue_certificate_response_to_der.py\<close>: reads the JSON answer of the certificate authority from
  standard input, takes the first signed certificate and writes its Base64 text as DER bytes.
\<close>

unbundle bit_operations_syntax

section \<open>Base64 decoding\<close>

text \<open>
  \<^verbatim>\<open>binascii.a2b_base64\<close>, not strict, as \<^verbatim>\<open>base64.b64decode(s)\<close> calls it: a state machine over the characters.
  Characters outside of the alphabet are skipped, data after a complete padding is not read.
\<close>

type_synonym byte = "8 word"

definition b64_value :: "char \<Rightarrow> byte option" where
  "b64_value c =
     (let n = (of_char c :: nat) in
      if 65 \<le> n \<and> n \<le> 90 then Some (of_nat (n - 65))
      else if 97 \<le> n \<and> n \<le> 122 then Some (of_nat (n - 71))
      else if 48 \<le> n \<and> n \<le> 57 then Some (of_nat (n + 4))
      else if n = 43 then Some 62
      else if n = 47 then Some 63
      else None)"

record a2b_state =
  quad_pos :: nat
  leftchar :: byte
  pads :: nat
  bin_data :: "byte list"

definition a2b_digit :: "byte \<Rightarrow> a2b_state \<Rightarrow> a2b_state" where
  "a2b_digit v s =
     (if quad_pos s = 0 then s\<lparr>quad_pos := 1, leftchar := v, pads := 0\<rparr>
      else if quad_pos s = 1 then
        s\<lparr>quad_pos := 2, leftchar := v AND 15, pads := 0,
          bin_data := bin_data s @ [push_bit 2 (leftchar s) OR drop_bit 4 v]\<rparr>
      else if quad_pos s = 2 then
        s\<lparr>quad_pos := 3, leftchar := v AND 3, pads := 0,
          bin_data := bin_data s @ [push_bit 4 (leftchar s) OR drop_bit 2 v]\<rparr>
      else
        s\<lparr>quad_pos := 0, leftchar := 0, pads := 0,
          bin_data := bin_data s @ [push_bit 6 (leftchar s) OR v]\<rparr>)"

fun a2b_loop :: "string \<Rightarrow> a2b_state \<Rightarrow> byte list res" where
  "a2b_loop [] s =
     (if quad_pos s = 0 then Inr (bin_data s)
      else if quad_pos s = 1
      then Inl (ValueError ''number of data characters cannot be 1 more than a multiple of 4'')
      else Inl (ValueError ''Incorrect padding''))"
| "a2b_loop (c # cs) s =
     (if c = CHR ''='' then
        (if quad_pos s \<ge> 2 then
           (if quad_pos s + pads s + 1 \<ge> 4 then Inr (bin_data s)
            else a2b_loop cs (s\<lparr>pads := pads s + 1\<rparr>))
         else a2b_loop cs s)
      else (case b64_value c of
          None \<Rightarrow> a2b_loop cs s
        | Some v \<Rightarrow> a2b_loop cs (a2b_digit v s)))"

definition a2b_start :: a2b_state where
  "a2b_start = \<lparr>quad_pos = 0, leftchar = 0, pads = 0, bin_data = []\<rparr>"

definition a2b_base64 :: "string \<Rightarrow> byte list res" where
  "a2b_base64 s = a2b_loop s a2b_start"

text \<open>\<^verbatim>\<open>base64.b64decode(value)\<close>: text must be ASCII; any other JSON value is not a bytes-like object.\<close>

definition b64decode :: "json \<Rightarrow> byte list res" where
  "b64decode v =
     (case v of
        JStr s \<Rightarrow>
          if list_all is_ascii s then a2b_base64 s
          else Inl (ValueError ''string argument should contain only ASCII characters'')
      | _ \<Rightarrow> Inl (TypeError ''argument should be a bytes-like object or ASCII string''))"

section \<open>The script\<close>

definition not_found_text :: string where
  "not_found_text = ''Error: Could not find '' @ [CHR 0x27] @ ''signedCertificates'' @ [CHR 0x27] @ '' field in input.''"

text \<open>The value found first under the two names, as \<^verbatim>\<open>certs\<close> ends up.\<close>

definition find_certs :: "json \<Rightarrow> json res" where
  "find_certs data =
     res_bind (py_get data ''signedCertificates'' JNull) (\<lambda>certs.
       if py_truth certs then Inr certs else py_get data ''signed_certificates'' JNull)"

definition extract_cert_from_json :: "(exn \<Rightarrow> string) \<Rightarrow> string \<Rightarrow> json option script" where
  "extract_cert_from_json err json_input =
     io_catch
       (io_bind (io_lift (json_loads json_input)) (\<lambda>data.
          io_bind (io_lift (find_certs data)) (\<lambda>certs.
            case certs of
              JList (c # cs) \<Rightarrow> io_return (Some c)
            | _ \<Rightarrow> io_bind (print_to Stderr (not_found_text @ [CHR 0x0A])) (\<lambda>_. io_return None))))
       (\<lambda>e. if e = JSONDecodeError
            then Some (io_bind (print_to Stderr (''Error decoding JSON: '' @ err e @ [CHR 0x0A]))
                   (\<lambda>_. io_return None))
            else None)"

definition byte_chars :: "byte list \<Rightarrow> string" where
  "byte_chars bs = map (\<lambda>b. char_of (unat b)) bs"

text \<open>\<^verbatim>\<open>sys.stdin.read()\<close>: bytes that are not UTF-8 raise UnicodeDecodeError.\<close>

definition read_stdin :: "string \<Rightarrow> string res" where
  "read_stdin input = (if utf8_valid input then Inr input else Inl UnicodeDecodeError)"

definition fail_with :: "string \<Rightarrow> (exn \<Rightarrow> string) \<Rightarrow> exn \<Rightarrow> 'a script option" where
  "fail_with label err e =
     (if is_Exception e
      then Some (io_bind (print_to Stderr (label @ err e @ [CHR 0x0A])) (\<lambda>_. sys_exit 1))
      else None)"

definition cert_main :: "(exn \<Rightarrow> string) \<Rightarrow> string \<Rightarrow> unit script" where
  "cert_main err input =
     io_bind (io_catch (io_lift (read_stdin input)) (fail_with ''Error reading from stdin: '' err))
       (\<lambda>json_content.
     io_bind (extract_cert_from_json err json_content) (\<lambda>b64_cert.
       case b64_cert of
         Some c \<Rightarrow>
           if py_truth c then
             io_catch
               (io_bind (io_lift (b64decode c)) (\<lambda>der_output. print_to Stdout (byte_chars der_output)))
               (fail_with ''Error decoding Base64: '' err)
           else sys_exit 1
       | None \<Rightarrow> sys_exit 1))"

end
