(* ===== verification/Cert_Tool_Spec.thy ===== *)
theory Cert_Tool_Spec
  imports Cert_Tool
begin

text \<open>
  The certificate tool returns the bytes that were encoded, tolerates characters that are not
  Base64, and what it does on every other answer.
\<close>

section \<open>Encoding\<close>

text \<open>The reference encoder (RFC 4648), which the JSON form of a \<^verbatim>\<open>bytes\<close> field uses.\<close>

definition b64_char :: "byte \<Rightarrow> char" where
  "b64_char v =
     (let n = unat v in
      if n < 26 then char_of (n + 65)
      else if n < 52 then char_of (n + 71)
      else if n < 62 then char_of (n - 4)
      else if n = 62 then CHR ''+'' else CHR ''/'')"

text \<open>The four digits of three bytes.\<close>

definition digit1 :: "byte \<Rightarrow> byte" where "digit1 a = drop_bit 2 a"

definition digit2 :: "byte \<Rightarrow> byte \<Rightarrow> byte" where "digit2 a b = push_bit 4 (a AND 3) OR drop_bit 4 b"

definition digit3 :: "byte \<Rightarrow> byte \<Rightarrow> byte" where "digit3 b c = push_bit 2 (b AND 15) OR drop_bit 6 c"

definition digit4 :: "byte \<Rightarrow> byte" where "digit4 c = c AND 63"

fun b64encode :: "byte list \<Rightarrow> string" where
  "b64encode [] = []"
| "b64encode [a] = [b64_char (digit1 a), b64_char (digit2 a 0), CHR ''='', CHR ''='']"
| "b64encode [a, b] =
     [b64_char (digit1 a), b64_char (digit2 a b), b64_char (digit3 b 0), CHR ''='']"
| "b64encode (a # b # c # bs) =
     [b64_char (digit1 a), b64_char (digit2 a b), b64_char (digit3 b c), b64_char (digit4 c)] @ b64encode bs"

lemma of_char_of_less: "k < 256 \<Longrightarrow> (of_char (char_of k :: char) :: nat) = k"
  by simp

lemma b64_value_char:
  assumes "v < 64"
  shows "b64_value (b64_char v) = Some v \<and> b64_char v \<noteq> CHR ''='' \<and> is_ascii (b64_char v)"
proof -
  obtain n where u: "unat v = n" by simp
  then have v: "of_nat n = v" by auto
  have n64: "n < 64" using assms u by (simp add: word_less_nat_alt)
  consider "n < 26" | "26 \<le> n" "n < 52" | "52 \<le> n" "n < 62" | "n = 62" | "n = 63"
    using n64 by linarith
  then have "b64_value (b64_char v) = Some v \<and> is_ascii (b64_char v)"
  proof cases
    case 1
    then have "(of_char (b64_char v) :: nat) = n + 65" by (simp add: b64_char_def Let_def u)
    then show ?thesis using 1 v by (simp add: b64_value_def Let_def is_ascii_def)
  next
    case 2
    then have "(of_char (b64_char v) :: nat) = n + 71" by (simp add: b64_char_def Let_def u)
    then show ?thesis using 2 v by (simp add: b64_value_def Let_def is_ascii_def)
  next
    case 3
    then obtain m where m: "n = m + 52" "m < 10" using that [of "n - 52"] by simp
    then have "(of_char (b64_char v) :: nat) = m + 48" by (simp add: b64_char_def Let_def u)
    then show ?thesis using m v by (auto simp: b64_value_def Let_def is_ascii_def add.commute)
  next
    case 4
    then show ?thesis using u v by (auto simp: b64_char_def b64_value_def is_ascii_def)
  next
    case 5
    then show ?thesis using u v by (auto simp: b64_char_def b64_value_def is_ascii_def)
  qed
  moreover have "b64_value (CHR ''='') = None" by (simp add: b64_value_def)
  ultimately show ?thesis by auto
qed

lemma byte_masks: "(3 :: byte) = mask 2" "(15 :: byte) = mask 4" "(63 :: byte) = mask 6"
  by (simp_all add: mask_eq_exp_minus_1)

lemmas byte_bits = bit_or_iff bit_and_iff bit_push_bit_iff bit_drop_bit_eq bit_mask_iff 
  o_def possible_bit_word

lemma high_bit: "8 \<le> n \<Longrightarrow> \<not> bit (a :: byte) n"
  using bit_imp_le_length [of a n] by auto

lemma byte_eqI:
  fixes a b :: byte
  assumes "\<And>n. n \<in> {0, 1, 2, 3, 4, 5, 6, 7} \<Longrightarrow> bit a n = bit b n"
  shows "a = b"
proof (rule bit_word_eqI)
  fix n :: nat
  assume "n < LENGTH(8)"
  then have "n \<in> {0, 1, 2, 3, 4, 5, 6, 7}" by auto
  then show "bit a n = bit b n" by (rule assms)
qed

lemma less_64I:
  assumes "\<not> bit v 6" and "\<not> bit v 7" shows "(v::byte) < 64"
proof -
  have "v = v AND mask 6"
    by (rule byte_eqI) (use assms in \<open>auto simp: bit_and_iff bit_mask_iff\<close>)
  then show ?thesis using and_mask_less' [of 6 v] by simp
qed

lemma digits_bytes:
  "push_bit 2 (digit1 a) OR drop_bit 4 (digit2 a b) = a"
  "push_bit 4 (digit2 a b AND 15) OR drop_bit 2 (digit3 b c) = b"
  "push_bit 6 (digit3 b c AND 3) OR digit4 c = c"
  unfolding byte_masks digit1_def digit2_def digit3_def digit4_def
  by (rule byte_eqI; (simp only: byte_bits); auto simp: high_bit simp del: add_2_eq_Suc add_2_eq_Suc')+

lemma digits_less: "digit1 a < 64" "digit2 a b < 64" "digit3 b c < 64" "digit4 c < 64"
  unfolding byte_masks digit1_def digit2_def digit3_def digit4_def
  by (rule less_64I; (simp only: byte_bits); auto simp: high_bit simp del: add_2_eq_Suc add_2_eq_Suc')+

lemma a2b_char:
  assumes "v < 64"
  shows "a2b_loop (b64_char v # cs) s = a2b_loop cs (a2b_digit v s)"
  using b64_value_char [OF assms] by simp

lemma a2b_quad:
  assumes "quad_pos s = 0" and "leftchar s = 0" and "pads s = 0"
  shows "bin_data (a2b_digit (digit2 a b) (a2b_digit (digit1 a) s)) = bin_data s @ [a]"
    "quad_pos (a2b_digit (digit2 a b) (a2b_digit (digit1 a) s)) = 2"
    "pads (a2b_digit (digit2 a b) (a2b_digit (digit1 a) s)) = 0"
    "bin_data (a2b_digit (digit3 b c) (a2b_digit (digit2 a b) (a2b_digit (digit1 a) s))) = bin_data s @ [a, b]"
    "quad_pos (a2b_digit (digit3 b c) (a2b_digit (digit2 a b) (a2b_digit (digit1 a) s))) = 3"
    "a2b_digit (digit4 c) (a2b_digit (digit3 b c) (a2b_digit (digit2 a b) (a2b_digit (digit1 a) s))) =
       s\<lparr>bin_data := bin_data s @ [a, b, c]\<rparr>"
  using assms
  by (simp_all add: a2b_digit_def digits_bytes digits_bytes [simplified])

lemma a2b_encode:
  "quad_pos s = 0 \<Longrightarrow> leftchar s = 0 \<Longrightarrow> pads s = 0 \<Longrightarrow> a2b_loop (b64encode bs) s = Inr (bin_data s @ bs)"
proof (induction bs arbitrary: s rule: b64encode.induct)
  case (2 a)
  then show ?case
    by (simp add: a2b_char digits_less del: a2b_loop.simps(2)) (simp add: a2b_quad)
next
  case (3 a b)
  then show ?case
    by (simp add: a2b_char digits_less del: a2b_loop.simps(2)) (simp add: a2b_quad)
next
  case (4 a b c bs)
  then show ?case
    by (simp add: a2b_char digits_less a2b_quad(6) del: a2b_loop.simps(2))
qed simp

lemma a2b_skip:
  "a2b_loop (filter (\<lambda>c. c = CHR ''='' \<or> b64_value c \<noteq> None) cs) s = a2b_loop cs s"
  by (induction cs arbitrary: s) (auto split: option.split)

lemma b64encode_nonempty: "bs \<noteq> [] \<Longrightarrow> b64encode bs \<noteq> []"
  by (cases bs rule: b64encode.cases) auto

lemma decode_interleaved:
  assumes "list_all is_ascii t" and "filter (\<lambda>c. c = CHR ''='' \<or> b64_value c \<noteq> None) t = b64encode bs"
  shows "b64decode (JStr t) = Inr bs"
  using assms a2b_skip [of t a2b_start] a2b_encode [of a2b_start bs]
  by (simp add: b64decode_def a2b_base64_def a2b_start_def)

section \<open>Properties\<close>

text \<open>
  C6: The tool writes exactly the encoded certificate: when the answer is a JSON object whose first
  signed certificate is the Base64 text of some bytes, possibly broken up by line breaks or other
  characters outside the alphabet, those bytes are written to standard output and nothing else is
  printed.
\<close>

theorem certificate_roundtrip:
  assumes "utf8_valid input" and "json_loads input = Inr (JObj kvs)"
    and "map_of kvs ''signedCertificates'' = Some (JList (JStr t # rest))"
    and "list_all is_ascii t" and "filter (\<lambda>c. c = CHR ''='' \<or> b64_value c \<noteq> None) t = b64encode der" and "der \<noteq> []"
  shows "cert_main err input w = (Inr (), w\<lparr>w_trace := w_trace w @ [Out Stdout (byte_chars der)]\<rparr>)"
proof -
  have "t \<noteq> []" using assms(5,6) b64encode_nonempty [of der] by auto
  moreover have "extract_cert_from_json err input w = (Inr (Some (JStr t)), w)"
    using assms(2,3) by (simp add: extract_cert_from_json_def find_certs_def res_simps)
  ultimately show ?thesis
    using assms(1) decode_interleaved [OF assms(4,5)]
    by (simp add: cert_main_def read_stdin_def print_to_def res_simps)
qed

definition demo_answer :: string where
  "demo_answer = [CHR 0x7B, CHR 0x22] @ ''signedCertificates'' @ [CHR 0x22] @ '':[''
     @ [CHR 0x22] @ ''MII='' @ [CHR 0x22] @ '']'' @ [CHR 0x7D]"

theorem certificate_roundtrip_witness:
  "cert_main (\<lambda>e. []) demo_answer \<lparr>w_fs = [], w_cwd = [], w_env = [], w_trace = []\<rparr> =
     (Inr (), \<lparr>w_fs = [], w_cwd = [], w_env = [], w_trace = [Out Stdout [CHR 0x30, CHR 0x82]]\<rparr>)"
proof -
  have 1: "json_loads demo_answer = Inr (JObj [(''signedCertificates'', JList [JStr ''MII=''])])"
    by code_simp
  have 2: "utf8_valid demo_answer" by code_simp
  have 3: "b64encode [0x30, 0x82] = ''MII=''" by code_simp
  have 4: "filter (\<lambda>c. c = CHR ''='' \<or> b64_value c \<noteq> None) ''MII='' = ''MII=''" by code_simp
  have 5: "byte_chars [0x30, 0x82] = [CHR 0x30, CHR 0x82]" by code_simp
  show ?thesis
    using certificate_roundtrip [OF 2 1, of "''MII=''" "[]" "[0x30, 0x82]" "\<lambda>e. []"
        "\<lparr>w_fs = [], w_cwd = [], w_env = [], w_trace = []\<rparr>"] 3 4 5
    by (simp add: is_ascii_def)
qed

text \<open>How the extraction ends.\<close>

lemma json_loads_error: "json_loads s = Inl e \<Longrightarrow> e = JSONDecodeError"
  by (auto simp: json_loads_def split: option.splits if_splits)

lemma extract_outcome:
  assumes "extract_cert_from_json err input w = (r, w1)"
  obtains c where "r = Inr (Some c)" "w1 = w"
  | "r = Inr None" "printed Stdout (w_trace w1) = printed Stdout (w_trace w)"
  | v where "r = Inl (AttributeError ''get'')" "w1 = w" "json_loads input = Inr v" "\<forall>kvs. v \<noteq> JObj kvs"
proof (cases "json_loads input")
  case (Inl e)
  with json_loads_error [OF Inl] assms that(2) show thesis
    by (auto simp: extract_cert_from_json_def print_to_def res_simps)
next
  case (Inr v)
  show thesis
  proof (cases "\<exists>kvs. v = JObj kvs")
    case False
    then have "find_certs v = Inl (AttributeError ''get'')" by (cases v) (auto simp: find_certs_def)
    with Inr False assms that(3) show thesis
      by (auto simp: extract_cert_from_json_def res_simps)
  next
    case True
    then have "\<exists>certs. find_certs v = Inr certs"
      by (auto simp: find_certs_def simp del: res_bind_Inr_iff)
    then obtain certs where "find_certs v = Inr certs" by blast
    with Inr assms that(1,2) show thesis
      by (auto simp: extract_cert_from_json_def print_to_def res_simps split: json.splits list.splits)
  qed
qed

lemma decode_text: "b64decode c = Inr der \<Longrightarrow> py_truth c \<Longrightarrow> \<exists>t. t \<noteq> [] \<and> a2b_base64 t = Inr der"
  by (cases c) (auto simp: b64decode_def split: if_splits)

lemma a2b_error: "a2b_loop t s = Inl e \<Longrightarrow> is_Exception e"
  by (induction t s rule: a2b_loop.induct) (auto split: if_splits option.splits)

lemma decode_error: "b64decode c = Inl e \<Longrightarrow> is_Exception e"
  by (auto simp: b64decode_def a2b_base64_def dest: a2b_error split: json.splits if_splits)


end
