(* ===== verification/Py_Files.thy ===== *)
theory Py_Files
  imports Py_Walk
begin

text \<open>
  Changing the file system: creating directories, writing files, temporary directories.
\<close>

section \<open>Directories\<close>

text \<open>
  \<^verbatim>\<open>path.mkdir(parents=True, exist_ok=True)\<close>: the missing parents first; OSError (FileExistsError,
  NotADirectoryError) where something that is not a directory is in the way.
\<close>

function mkdir_parents :: "fsys \<Rightarrow> loc \<Rightarrow> ppath \<Rightarrow> fsys res" where
  "mkdir_parents fs cwd p =
     (if path_is_dir fs cwd p then Inr fs
      else if path_node fs cwd False p \<noteq> None \<or> p_parts p = [] then Inl (OSError (path_str p))
      else res_bind (mkdir_parents fs cwd (path_parent p)) (\<lambda>fs'.
        if path_is_dir fs' cwd p then Inr fs'
        else (case lookup_loc fs' cwd True (path_parent p) of
            Some l \<Rightarrow> if node_at fs' l = Some Dir then Inr (fs' @ [(l @ [last (p_parts p)], Dir)])
                      else Inl (OSError (path_str p))
          | None \<Rightarrow> Inl (OSError (path_str p)))))"
  by pat_completeness auto
termination
  by (relation "measure (\<lambda>(fs, cwd, p). length (p_parts p))") (auto simp: path_parent_def)

declare mkdir_parents.simps [simp del]

section \<open>Files\<close>

text \<open>
  Where \<^verbatim>\<open>open(p, "w")\<close> puts the file: links are followed, also a dangling one at the end, and the last
  component may be missing.
\<close>

function target_loc :: "fsys \<Rightarrow> nat \<Rightarrow> loc \<Rightarrow> string list \<Rightarrow> loc option" where
  "target_loc fs n cur [] = Some cur"
| "target_loc fs n cur (c # cs) =
     (if node_at fs cur \<noteq> Some Dir then None
      else if c = [] \<or> c = ''.'' then target_loc fs n cur cs
      else if c = ''..'' then target_loc fs n (butlast cur) cs
      else (case node_at fs (cur @ [c]) of
          None \<Rightarrow> if cs = [] then Some (cur @ [c]) else None
        | Some (Symlink t) \<Rightarrow>
            if n = 0 then None
            else target_loc fs (n - 1) (if startswith t ''/'' then [] else cur)
                   (split_on (CHR ''/'') t @ cs)
        | Some _ \<Rightarrow> target_loc fs n (cur @ [c]) cs))"
  by pat_completeness auto
termination
  by (relation "measures [\<lambda>(fs, n, cur, cs). n, \<lambda>(fs, n, cur, cs). length cs]") auto

text \<open>A new file gets the mode 0644 (the usual umask 022); an existing one keeps its mode.\<close>

definition NEW_FILE_MODE :: nat where
  "NEW_FILE_MODE = 420"

definition write_at :: "fsys \<Rightarrow> loc \<Rightarrow> string \<Rightarrow> fsys res" where
  "write_at fs l c =
     (case node_at fs l of
        None \<Rightarrow> Inr (fs @ [(l, File c NEW_FILE_MODE)])
      | Some (File old m) \<Rightarrow> Inr (AList.update l (File c m) fs)
      | Some _ \<Rightarrow> Inl (OSError (path_str (PPath ''/'' l))))"

definition write_file :: "fsys \<Rightarrow> loc \<Rightarrow> ppath \<Rightarrow> string \<Rightarrow> fsys res" where
  "write_file fs cwd p c =
     (case target_loc fs MAXSYMLINKS (if p_root p = [] then cwd else []) (p_parts p) of
        None \<Rightarrow> Inl (FileNotFoundError (path_str p))
      | Some l \<Rightarrow> write_at fs l c)"

text \<open>\<^verbatim>\<open>shutil.copymode\<close>\<close>

definition copymode :: "fsys \<Rightarrow> loc \<Rightarrow> ppath \<Rightarrow> ppath \<Rightarrow> fsys res" where
  "copymode fs cwd src dst =
     (case (path_node fs cwd True src, lookup_loc fs cwd True dst) of
        (Some (File c m), Some l) \<Rightarrow>
          (case node_at fs l of
             Some (File c' m') \<Rightarrow> Inr (AList.update l (File c' m) fs)
           | _ \<Rightarrow> Inl (OSError (path_str dst)))
      | _ \<Rightarrow> Inl (FileNotFoundError (path_str src)))"

definition change_fs :: "(fsys \<Rightarrow> loc \<Rightarrow> fsys res) \<Rightarrow> unit script" where
  "change_fs f = (\<lambda>w. case f (w_fs w) (w_cwd w) of
     Inl e \<Rightarrow> (Inl e, w) | Inr fs \<Rightarrow> (Inr (), w\<lparr>w_fs := fs\<rparr>))"

definition path_mkdir :: "ppath \<Rightarrow> unit script" where
  "path_mkdir p = change_fs (\<lambda>fs cwd. mkdir_parents fs cwd p)"

text \<open>\<^verbatim>\<open>path.touch(exist_ok=True)\<close>: an existing file keeps its content (its time stamp is not modelled).\<close>

definition path_touch :: "ppath \<Rightarrow> unit script" where
  "path_touch p = change_fs (\<lambda>fs cwd. if path_exists fs cwd p then Inr fs else write_file fs cwd p [])"

section \<open>Temporary directories\<close>

definition remove_tree :: "loc \<Rightarrow> fsys \<Rightarrow> fsys" where
  "remove_tree d fs = filter (\<lambda>(l, _). \<not> prefix d l) fs"

text \<open>
  \<^verbatim>\<open>with tempfile.TemporaryDirectory() as d: body\<close>; \<open>mktemp\<close> is the name the system chooses. The
  directory is removed however the body ends.
\<close>

definition with_tempdir :: "(world \<Rightarrow> loc) \<Rightarrow> (ppath \<Rightarrow> 'a script) \<Rightarrow> 'a script" where
  "with_tempdir mktemp body = (\<lambda>w.
     let d = mktemp w in
     io_finally (body (PPath ''/'' d)) (\<lambda>w'. (Inr (), w'\<lparr>w_fs := remove_tree d (w_fs w')\<rparr>))
       (w\<lparr>w_fs := w_fs w @ [(d, Dir)]\<rparr>))"

section \<open>Facts\<close>

lemma node_at_append_new:
  "node_at fs l = None \<Longrightarrow> node_at (fs @ [(l, nd)]) l = Some nd"
  by (simp add: node_at_def map_add_def split: if_splits)

lemma node_at_append:
  "node_at fs k \<noteq> None \<Longrightarrow> node_at (fs @ [(l, nd)]) k = node_at fs k"
  by (auto simp: node_at_def map_add_def split: option.splits if_splits)

lemma node_at_update:
  "l \<noteq> [] \<Longrightarrow> node_at (AList.update l nd fs) k = (if k = l then Some nd else node_at fs k)"
  by (simp add: node_at_def update_conv')

text \<open>Replacing a file by a file, or adding a file where none was, keeps every walk that succeeded.\<close>

fun same_kind :: "node \<Rightarrow> node \<Rightarrow> bool" where
  "same_kind (File c m) nd = (\<exists>c' m'. nd = File c' m')"
| "same_kind nd nd' = (nd = nd')"

lemma same_kind_refl [simp]: "same_kind nd nd"
  by (cases nd) auto

lemma same_kind_trans: "same_kind a b \<Longrightarrow> same_kind b c \<Longrightarrow> same_kind a c"
  by (cases a) auto

definition grows :: "fsys \<Rightarrow> fsys \<Rightarrow> bool" where
  "grows fs fs' \<longleftrightarrow> (\<forall>l nd. node_at fs l = Some nd \<longrightarrow> (\<exists>nd'. node_at fs' l = Some nd' \<and> same_kind nd nd'))"

lemma growsD: "grows fs fs' \<Longrightarrow> node_at fs l = Some nd \<Longrightarrow> \<exists>nd'. node_at fs' l = Some nd' \<and> same_kind nd nd'"
  by (simp add: grows_def)

lemma grows_refl: "grows fs fs"
  by (auto simp: grows_def)

lemma grows_trans: "grows a b \<Longrightarrow> grows b c \<Longrightarrow> grows a c"
  unfolding grows_def using same_kind_trans by metis

lemma grows_add: "node_at fs l = None \<Longrightarrow> grows fs (fs @ [(l, nd)])"
  by (auto simp: grows_def node_at_append)

lemma grows_update: "node_at fs l = Some (File c m) \<Longrightarrow> grows fs (AList.update l (File c' m') fs)"
proof -
  assume l: "node_at fs l = Some (File c m)"
  then have "l \<noteq> []" by (auto simp: node_at_def)
  with l show ?thesis by (auto simp: grows_def node_at_update)
qed

lemma walk_rem_grows:
  "grows fs fs' \<Longrightarrow> walk_rem fs n cur cs = Some x \<Longrightarrow> walk_rem fs' n cur cs = Some x"
proof (induction fs n cur cs rule: walk_rem.induct)
  case (2 fs n cur c cs)
  have dir: "node_at fs cur = Some Dir" using "2.prems"(2) by (auto split: if_splits)
  then have dir': "node_at fs' cur = Some Dir" using growsD [OF "2.prems"(1)] by force
  show ?case
  proof (cases "c = [] \<or> c = ''.'' \<or> c = ''..''")
    case True
    with 2 dir dir' show ?thesis by auto
  next
    case False
    with "2.prems"(2) dir obtain nd where nd: "node_at fs (cur @ [c]) = Some nd" by (auto split: option.splits)
    from growsD [OF "2.prems"(1) nd] obtain nd' where nd': "node_at fs' (cur @ [c]) = Some nd'" "same_kind nd nd'"
      by blast
    show ?thesis
    proof (cases nd)
      case Dir
      with 2 False dir dir' nd nd' show ?thesis by auto
    next
      case (File k m)
      with 2 False dir dir' nd nd' show ?thesis by auto
    next
      case (Symlink t)
      with 2 False dir dir' nd nd' show ?thesis by (auto split: if_splits)
    qed
  qed
qed simp

lemma write_at_facts:
  assumes "write_at fs l c = Inr fs'"
  shows "grows fs fs' \<and> (\<exists>m. node_at fs' l = Some (File c m))"
proof (cases "node_at fs l")
  case None
  with assms show ?thesis
    by (auto simp: write_at_def node_at_append_new intro: grows_add)
next
  case (Some nd)
  then have "nd = Dir \<or> (\<exists>t. nd = Symlink t) \<or> l \<noteq> []" by (auto simp: node_at_def split: if_splits)
  with Some assms show ?thesis
    by (auto simp: write_at_def node_at_update intro: grows_update split: node.splits)
qed

lemma target_walk:
  "target_loc fs n cur cs = Some l \<Longrightarrow> grows fs fs' \<Longrightarrow> node_at fs' l = Some (File k m) \<Longrightarrow>
   \<exists>r. walk_rem fs' n cur cs = Some (l, r)"
proof (induction fs n cur cs rule: target_loc.induct)
  case (2 fs n cur c cs)
  have dir: "node_at fs cur = Some Dir" using "2.prems"(1) by (auto split: if_splits)
  then have dir': "node_at fs' cur = Some Dir" using growsD [OF "2.prems"(2)] by force
  show ?case
  proof (cases "c = [] \<or> c = ''.'' \<or> c = ''..''")
    case True
    with 2 dir dir' show ?thesis by auto
  next
    case False
    show ?thesis
    proof (cases "node_at fs (cur @ [c])")
      case None
      with "2.prems"(1) False dir have "cs = []" "l = cur @ [c]" by (auto split: if_splits)
      with "2.prems"(3) False dir' show ?thesis by simp
    next
      case (Some nd)
      from growsD [OF "2.prems"(2) Some] obtain nd' where nd': "node_at fs' (cur @ [c]) = Some nd'" "same_kind nd nd'"
        by blast
      show ?thesis
      proof (cases nd)
        case Dir
        with 2 False dir dir' Some nd' show ?thesis by auto
      next
        case (File k' m')
        with 2 False dir dir' Some nd' show ?thesis by auto
      next
        case (Symlink t)
        with 2 False dir dir' Some nd' show ?thesis by (auto split: if_splits)
      qed
    qed
  qed
qed simp

text \<open>A file that was written is read back.\<close>

lemma write_file_reads:
  assumes "write_file fs cwd p c = Inr fs'"
  shows "grows fs fs' \<and> (\<exists>l r m. loc_of fs' cwd p = Some (l, r) \<and> node_at fs' l = Some (File c m))"
proof -
  from assms obtain l where l: "target_loc fs MAXSYMLINKS (if p_root p = [] then cwd else []) (p_parts p) = Some l"
    and w: "write_at fs l c = Inr fs'" by (auto simp: write_file_def split: option.splits)
  from write_at_facts [OF w] obtain m where g: "grows fs fs'" and m: "node_at fs' l = Some (File c m)" by blast
  from target_walk [OF l g m] g m show ?thesis by (auto simp: loc_of_def)
qed

end
