(* ===== verification/Bep.thy ===== *)
theory Bep
  imports Py_Files Find_Root
begin

text \<open>
  \<^verbatim>\<open>scripts/bep.py\<close>: one Bazel run per target that writes the build events of the target to a file.
  Bazel, behind \<^verbatim>\<open>devkit/build\<close>, is the parameter \<open>run\<close>; the names of temporary directories are the
  parameter \<open>mktemp\<close>.
\<close>

text \<open>
  The output of a command is captured only when asked for; otherwise it goes to the terminal and
  an error carries none.
\<close>

definition report_failure :: "bool \<Rightarrow> string list \<Rightarrow> exn \<Rightarrow> string script option" where
  "report_failure capture_output cmd_args e =
     (case e of
        CalledProcessError cmd rc out err \<Rightarrow>
          Some (io_bind (print_to Stderr (''Error: Command '' @ [CHR 0x27] @ join '' '' cmd @ [CHR 0x27] @
                  '' failed with exit code '' @ show_int rc @ ''.'' @ [CHR 0x0A])) (\<lambda>_.
                io_bind (if capture_output \<and> out \<noteq> []
                         then print_to Stderr (''STDOUT:'' @ [CHR 0x0A] @ out @ [CHR 0x0A]) else io_return ()) (\<lambda>_.
                io_bind (if capture_output \<and> err \<noteq> []
                         then print_to Stderr (''STDERR:'' @ [CHR 0x0A] @ err @ [CHR 0x0A]) else io_return ()) (\<lambda>_.
                sys_exit 1))))
      | FileNotFoundError _ \<Rightarrow>
          Some (io_bind (print_to Stderr (''Error: Command not found: '' @ hd cmd_args @ [CHR 0x0A])) (\<lambda>_.
                sys_exit 1))
      | _ \<Rightarrow> None)"

definition run_command :: "runner \<Rightarrow> bool \<Rightarrow> string list \<Rightarrow> string script" where
  "run_command run capture_output cmd_args =
     io_catch
       (io_bind (run_checked run cmd_args) (\<lambda>(out, err). io_return (if capture_output then strip out else [])))
       (report_failure capture_output cmd_args)"

definition bep_cmd :: "ppath \<Rightarrow> ppath \<Rightarrow> ppath \<Rightarrow> string \<Rightarrow> ppath \<Rightarrow> string \<Rightarrow> string list" where
  "bep_cmd project_root cache_dir registry_cache_dir bazel_command output_path bazel_target =
     [path_str (path_div (path_div project_root (to_path ''devkit'')) (to_path ''build'')),
      ''bazel'',
      ''--output_base='' @ path_str cache_dir,
      bazel_command,
      ''--build_event_json_file='' @ path_str output_path,
      ''--repository_cache='' @ path_str registry_cache_dir,
      bazel_target] @
     (if bazel_command = ''build'' then [''--noremote_accept_cached''] else [])"

definition generate_build_event_json ::
    "runner \<Rightarrow> (world \<Rightarrow> loc) \<Rightarrow> string \<Rightarrow> ppath \<Rightarrow> string \<Rightarrow> unit script" where
  "generate_build_event_json run mktemp bazel_target output_path bazel_command =
     io_bind find_project_root (\<lambda>project_root.
       with_tempdir mktemp (\<lambda>bazel_cache_dir.
         with_tempdir mktemp (\<lambda>bazel_registry_cache_dir.
           io_bind (run_command run False
               (bep_cmd project_root bazel_cache_dir bazel_registry_cache_dir bazel_command output_path bazel_target))
             (\<lambda>_. io_return ()))))"

definition process_target_and_save ::
    "runner \<Rightarrow> (world \<Rightarrow> loc) \<Rightarrow> string \<Rightarrow> ppath \<Rightarrow> string \<Rightarrow> unit script" where
  "process_target_and_save run mktemp bazel_target output_file command =
     generate_build_event_json run mktemp bazel_target output_file command"

definition sanitized_target_name :: "string \<Rightarrow> string" where
  "sanitized_target_name bazel_target = last (split_on (CHR ''/'') (py_replace '':'' ''_'' bazel_target))"

definition bep_file :: "ppath \<Rightarrow> string \<Rightarrow> ppath" where
  "bep_file output_dir bazel_target =
     path_div (path_div output_dir (to_path (sanitized_target_name bazel_target))) (to_path ''bep.json'')"

definition process_one :: "runner \<Rightarrow> (world \<Rightarrow> loc) \<Rightarrow> string \<Rightarrow> ppath \<Rightarrow> string \<Rightarrow> unit script" where
  "process_one run mktemp command output_dir bazel_target =
     io_bind (path_mkdir (path_parent (bep_file output_dir bazel_target))) (\<lambda>_.
       process_target_and_save run mktemp bazel_target (bep_file output_dir bazel_target) command)"

definition generate_bazel_events_folder ::
    "runner \<Rightarrow> (world \<Rightarrow> loc) \<Rightarrow> string list \<Rightarrow> string \<Rightarrow> ppath \<Rightarrow> unit script" where
  "generate_bazel_events_folder run mktemp targets command output_dir =
     io_bind (path_mkdir output_dir) (\<lambda>_.
       if targets = []
       then process_target_and_save run mktemp ''//...'' (path_div output_dir (to_path ''bep.json'')) command
       else io_for targets (process_one run mktemp command output_dir))"

record bep_args =
  bep_targets :: "string list"
  bep_command :: string
  bep_output_dir :: ppath

definition bep_main :: "runner \<Rightarrow> (world \<Rightarrow> loc) \<Rightarrow> bep_args \<Rightarrow> unit script" where
  "bep_main run mktemp args =
     io_bind (generate_bazel_events_folder run mktemp (bep_targets args) (bep_command args) (bep_output_dir args))
       (\<lambda>_. print_to Stdout (''All targets processed successfully.'' @ [CHR 0x0A]))"

end
