(* ===== verification/Bep_Spec.thy ===== *)
theory Bep_Spec
  imports Bep
begin

text \<open>
  The build event files: one Bazel run per target in the given order, each into its own temporary
  caches, and where two targets share one file.
\<close>

section \<open>One run per target\<close>

text \<open>
  A script that runs one command satisfying \<open>P\<close> if it returns, at most one if it raises, and
  prints nothing on standard output.
\<close>

definition runs_one :: "(string list \<Rightarrow> bool) \<Rightarrow> 'a script \<Rightarrow> bool" where
  "runs_one P m \<longleftrightarrow> (\<forall>w. \<exists>cs. execs (w_trace (snd (m w))) = execs (w_trace w) @ cs \<and>
     list_all P cs \<and> printed Stdout (w_trace (snd (m w))) = printed Stdout (w_trace w) \<and>
     (case fst (m w) of Inr _ \<Rightarrow> length cs = 1 | Inl _ \<Rightarrow> length cs \<le> 1))"

lemma runs_oneI:
  assumes "\<And>w r w'. m w = (r, w') \<Longrightarrow> \<exists>cs. execs (w_trace w') = execs (w_trace w) @ cs \<and> list_all P cs \<and>
    printed Stdout (w_trace w') = printed Stdout (w_trace w) \<and> (case r of Inr _ \<Rightarrow> length cs = 1 | Inl _ \<Rightarrow> length cs \<le> 1)"
  shows "runs_one P m"
  unfolding runs_one_def
proof
  fix w
  from assms [of w "fst (m w)" "snd (m w)"]
  show "\<exists>cs. execs (w_trace (snd (m w))) = execs (w_trace w) @ cs \<and>
     list_all P cs \<and> printed Stdout (w_trace (snd (m w))) = printed Stdout (w_trace w) \<and>
     (case fst (m w) of Inr _ \<Rightarrow> length cs = 1 | Inl _ \<Rightarrow> length cs \<le> 1)" by simp
qed

lemma runs_oneD:
  assumes "runs_one P m" and "m w = (r, w')"
  shows "\<exists>cs. execs (w_trace w') = execs (w_trace w) @ cs \<and> list_all P cs \<and>
    printed Stdout (w_trace w') = printed Stdout (w_trace w) \<and> (case r of Inr _ \<Rightarrow> length cs = 1 | Inl _ \<Rightarrow> length cs \<le> 1)"
  using assms unfolding runs_one_def by (metis fst_conv snd_conv)

lemma run_command_runs: "P cmd \<Longrightarrow> runs_one P (run_command run False cmd)"
  by (rule runs_oneI)
    (auto simp: run_command_def run_checked_def run_unchecked_def report_failure_def sys_exit_def print_to_def
      res_simps Let_def split: prod.splits proc.splits if_splits exn.splits)

text \<open>A script before or around the run that only reads or changes files.\<close>

definition silent :: "'a script \<Rightarrow> bool" where
  "silent m \<longleftrightarrow> (\<forall>w. w_trace (snd (m w)) = w_trace w)"

lemma runs_one_after:
  assumes "silent m" and "\<And>x. runs_one P (f x)"
  shows "runs_one P (io_bind m f)"
proof (rule runs_oneI)
  fix w r w'
  assume eq: "io_bind m f w = (r, w')"
  obtain r1 w1 where m: "m w = (r1, w1)" by fastforce
  then have tr: "w_trace w1 = w_trace w" using assms(1) unfolding silent_def by (metis snd_conv)
  show "\<exists>cs. execs (w_trace w') = execs (w_trace w) @ cs \<and> list_all P cs \<and>
    printed Stdout (w_trace w') = printed Stdout (w_trace w) \<and> (case r of Inr _ \<Rightarrow> length cs = 1 | Inl _ \<Rightarrow> length cs \<le> 1)"
  proof (cases r1)
    case (Inl e)
    with eq m tr show ?thesis by (auto simp: io_bind_def)
  next
    case (Inr x)
    with eq m have "f x w1 = (r, w')" by (simp add: io_bind_def)
    from runs_oneD [OF assms(2) this] show ?thesis by (simp add: tr)
  qed
qed

lemma runs_one_return: "runs_one P m \<Longrightarrow> runs_one P (io_bind m (\<lambda>_. io_return x))"
proof (rule runs_oneI)
  fix w r w'
  assume m: "runs_one P m" and eq: "io_bind m (\<lambda>_. io_return x) w = (r, w')"
  obtain r1 w1 where mw: "m w = (r1, w1)" by fastforce
  with eq have "w1 = w'" "(\<exists>y. r1 = Inr y) \<longleftrightarrow> (\<exists>y. r = Inr y)"
    by (auto simp: io_bind_def io_return_def split: sum.splits)
  with runs_oneD [OF m mw] show "\<exists>cs. execs (w_trace w') = execs (w_trace w) @ cs \<and> list_all P cs \<and>
    printed Stdout (w_trace w') = printed Stdout (w_trace w) \<and> (case r of Inr _ \<Rightarrow> length cs = 1 | Inl _ \<Rightarrow> length cs \<le> 1)"
    by (cases r1; cases r) auto
qed

lemma runs_one_tempdir:
  assumes "\<And>d. runs_one P (body d)"
  shows "runs_one P (with_tempdir mktemp body)"
proof (rule runs_oneI)
  fix w r w'
  assume eq: "with_tempdir mktemp body w = (r, w')"
  let ?d = "mktemp w"
  obtain r1 w1 where b: "body (PPath ''/'' ?d) (w\<lparr>w_fs := w_fs w @ [(?d, Dir)]\<rparr>) = (r1, w1)" by fastforce
  with eq have "r = r1" "w_trace w' = w_trace w1"
    by (auto simp: with_tempdir_def Let_def io_finally_def)
  with runs_oneD [OF assms b] show "\<exists>cs. execs (w_trace w') = execs (w_trace w) @ cs \<and> list_all P cs \<and>
    printed Stdout (w_trace w') = printed Stdout (w_trace w) \<and> (case r of Inr _ \<Rightarrow> length cs = 1 | Inl _ \<Rightarrow> length cs \<le> 1)"
    by simp
qed

definition bep_run :: "string \<Rightarrow> string \<times> ppath \<Rightarrow> string list \<Rightarrow> bool" where
  "bep_run command tf c \<longleftrightarrow> (\<exists>root d1 d2. c = bep_cmd root d1 d2 command (snd tf) (fst tf))"

lemma silent_simps [simp]: "silent find_project_root" "silent (path_mkdir p)"
  by (auto simp: silent_def find_project_root_def query_res_def path_mkdir_def change_fs_def split: sum.splits)

lemma process_target_runs: "runs_one (bep_run command (t, f)) (process_target_and_save run mktemp t f command)"
  unfolding process_target_and_save_def generate_build_event_json_def
  by (intro runs_one_after runs_one_tempdir runs_one_return run_command_runs)
    (auto simp: bep_run_def)

lemma process_one_runs: "runs_one (bep_run command (t, bep_file d t)) (process_one run mktemp command d t)"
  unfolding process_one_def by (intro runs_one_after process_target_runs) simp

text \<open>The loop: a prefix of the targets, all of them if it returns.\<close>

lemma for_runs:
  assumes "\<And>t. runs_one (Q t) (f t)" and "io_for ts f w = (r, w')"
  shows "\<exists>cs. execs (w_trace w') = execs (w_trace w) @ cs \<and> list_all2 Q (take (length cs) ts) cs \<and>
    printed Stdout (w_trace w') = printed Stdout (w_trace w) \<and> (case r of Inr _ \<Rightarrow> length cs = length ts | Inl _ \<Rightarrow> True)"
  using assms(2)
proof (induction ts arbitrary: w)
  case Nil
  then show ?case by (auto simp: io_return_def)
next
  case (Cons t ts)
  obtain r1 w1 where f: "f t w = (r1, w1)" by fastforce
  from runs_oneD [OF assms(1) f] obtain cs where cs: "execs (w_trace w1) = execs (w_trace w) @ cs" "list_all (Q t) cs"
    "printed Stdout (w_trace w1) = printed Stdout (w_trace w)"
    "case r1 of Inr _ \<Rightarrow> length cs = 1 | Inl _ \<Rightarrow> length cs \<le> 1" by blast
  show ?case
  proof (cases r1)
    case (Inl e)
    with Cons.prems f have "r = Inl e" "w' = w1" by (auto simp: io_bind_def)
    moreover have "cs = [] \<or> (\<exists>c. cs = [c])" using cs(4) Inl by (cases cs) auto
    ultimately show ?thesis using cs by (intro exI [of _ cs]) auto
  next
    case (Inr x)
    then obtain c where c: "cs = [c]" using cs(4) by (cases cs) auto
    from Inr f Cons.prems have "io_for ts f w1 = (r, w')" by (simp add: io_bind_def)
    from Cons.IH [OF this] obtain cs' where "execs (w_trace w') = execs (w_trace w1) @ cs'"
      "list_all2 Q (take (length cs') ts) cs'" "printed Stdout (w_trace w') = printed Stdout (w_trace w1)"
      "case r of Inr _ \<Rightarrow> length cs' = length ts | Inl _ \<Rightarrow> True" by blast
    with cs c show ?thesis by (intro exI [of _ "c # cs'"]) (auto split: sum.splits)
  qed
qed

section \<open>Names of the output files\<close>

lemma py_replace_char: "py_replace [x] [y] s = map (\<lambda>c. if c = x then y else c) s"
proof (induction s)
  case Nil
  show ?case by (subst py_replace.simps) simp
next
  case (Cons c s)
  then show ?case by (subst py_replace.simps) (simp add: startswith_def)
qed

lemma split_on_sep: "split_on d (a @ d # s) = split_on d a @ split_on d s"
proof (induction a)
  case (Cons c a)
  then show ?case by (cases "split_on d a") auto
qed simp

lemma last_split_on: "last (split_on d (a @ d # s)) = last (split_on d s)"
  by (simp add: split_on_sep)

lemma sanitized_suffix:
  "CHR ''/'' \<notin> set s \<Longrightarrow> sanitized_target_name (a @ CHR ''/'' # s) = map (\<lambda>c. if c = CHR '':'' then CHR ''_'' else c) s"
  unfolding sanitized_target_name_def py_replace_char
  by (simp add: last_split_on) (subst split_on_none, auto)

section \<open>Properties\<close>

text \<open>What is to be run: the pairs of target and output file.\<close>

definition bep_wanted :: "bep_args \<Rightarrow> (string \<times> ppath) list" where
  "bep_wanted args =
     (if bep_targets args = [] then [(''//...'', path_div (bep_output_dir args) (to_path ''bep.json''))]
      else map (\<lambda>t. (t, bep_file (bep_output_dir args) t)) (bep_targets args))"

lemma bep_folder_runs:
  assumes "generate_bazel_events_folder run mktemp (bep_targets args) (bep_command args) (bep_output_dir args) w = (r, w')"
  shows "\<exists>cs. execs (w_trace w') = execs (w_trace w) @ cs \<and>
    list_all2 (bep_run (bep_command args)) (take (length cs) (bep_wanted args)) cs \<and>
    printed Stdout (w_trace w') = printed Stdout (w_trace w) \<and>
    (case r of Inr _ \<Rightarrow> length cs = length (bep_wanted args) | Inl _ \<Rightarrow> True)"
proof -
  obtain r1 w1 where m: "path_mkdir (bep_output_dir args) w = (r1, w1)" by fastforce
  then have tr: "w_trace w1 = w_trace w" using silent_simps(2) unfolding silent_def by (metis snd_conv)
  show ?thesis
  proof (cases r1)
    case (Inl e)
    with assms m tr show ?thesis by (auto simp: generate_bazel_events_folder_def io_bind_def)
  next
    case (Inr x)
    show ?thesis
    proof (cases "bep_targets args = []")
      case True
      let ?f = "path_div (bep_output_dir args) (to_path ''bep.json'')"
      have "process_target_and_save run mktemp ''//...'' ?f (bep_command args) w1 = (r, w')"
        using assms m Inr True by (simp add: generate_bazel_events_folder_def io_bind_def)
      from runs_oneD [OF process_target_runs this] obtain cs where
        "execs (w_trace w') = execs (w_trace w1) @ cs" "list_all (bep_run (bep_command args) (''//...'', ?f)) cs"
        "printed Stdout (w_trace w') = printed Stdout (w_trace w1)"
        "case r of Inr _ \<Rightarrow> length cs = 1 | Inl _ \<Rightarrow> length cs \<le> 1" by blast
      moreover from this(4) have "cs = [] \<or> (\<exists>c. cs = [c])" by (cases cs) (auto split: sum.splits)
      ultimately show ?thesis using True tr
        by (intro exI [of _ cs]) (auto simp: bep_wanted_def split: sum.splits)
    next
      case False
      let ?Q = "\<lambda>t. bep_run (bep_command args) (t, bep_file (bep_output_dir args) t)"
      have "io_for (bep_targets args) (process_one run mktemp (bep_command args) (bep_output_dir args)) w1 = (r, w')"
        using assms m Inr False by (simp add: generate_bazel_events_folder_def io_bind_def)
      from for_runs [of ?Q, OF process_one_runs this] obtain cs where
        "execs (w_trace w') = execs (w_trace w1) @ cs" "list_all2 ?Q (take (length cs) (bep_targets args)) cs"
        "printed Stdout (w_trace w') = printed Stdout (w_trace w1)"
        "case r of Inr _ \<Rightarrow> length cs = length (bep_targets args) | Inl _ \<Rightarrow> True" by blast
      then show ?thesis using False tr
        by (intro exI [of _ cs]) (auto simp: bep_wanted_def take_map list_all2_conv_all_nth split: sum.splits)
    qed
  qed
qed

text \<open>
  \<^verbatim>\<open>bep.py\<close> runs Bazel once per requested target, in the given order, each run writing to the file
  of its target (one run for all targets when none is given), and announces success only after
  all of them; whatever fails, no later target is run and no success is announced.
\<close>

lemma bep_runs_in_order:
  "\<exists>cs. execs (w_trace (snd (bep_main run mktemp args w))) = execs (w_trace w) @ cs \<and>
    list_all2 (bep_run (bep_command args)) (take (length cs) (bep_wanted args)) cs \<and>
    (case fst (bep_main run mktemp args w) of
       Inr _ \<Rightarrow> length cs = length (bep_wanted args) \<and>
         printed Stdout (w_trace (snd (bep_main run mktemp args w))) =
           printed Stdout (w_trace w) @ [''All targets processed successfully.'' @ [CHR 0x0A]]
     | Inl _ \<Rightarrow> printed Stdout (w_trace (snd (bep_main run mktemp args w))) = printed Stdout (w_trace w))"
proof -
  obtain r w' where eq: "generate_bazel_events_folder run mktemp (bep_targets args) (bep_command args)
      (bep_output_dir args) w = (r, w')" by fastforce
  from bep_folder_runs [OF eq] obtain cs where cs: "execs (w_trace w') = execs (w_trace w) @ cs"
    "list_all2 (bep_run (bep_command args)) (take (length cs) (bep_wanted args)) cs"
    "printed Stdout (w_trace w') = printed Stdout (w_trace w)"
    "case r of Inr _ \<Rightarrow> length cs = length (bep_wanted args) | Inl _ \<Rightarrow> True" by blast
  show ?thesis
  proof (cases r)
    case (Inl e)
    then have "bep_main run mktemp args w = (Inl e, w')" using eq by (simp add: bep_main_def io_bind_def)
    with cs Inl show ?thesis by auto
  next
    case (Inr x)
    then have "bep_main run mktemp args w =
        (Inr (), w'\<lparr>w_trace := w_trace w' @ [Out Stdout (''All targets processed successfully.'' @ [CHR 0x0A])]\<rparr>)"
      using eq by (simp add: bep_main_def io_bind_def print_to_def)
    with cs Inr show ?thesis by auto
  qed
qed

text \<open>
  Targets of different packages share an output file: only the text after the last slash goes
  into its name, so for instance \<^verbatim>\<open>//a/x:y\<close> and \<^verbatim>\<open>//b/x:y\<close> are both written to \<^verbatim>\<open>x_y/bep.json\<close>, and so are
  \<^verbatim>\<open>x:y\<close> and \<^verbatim>\<open>x_y\<close>; the later run overwrites the events of the earlier one.
\<close>

lemma bep_files_collide:
  assumes "CHR ''/'' \<notin> set s" and "CHR ''/'' \<notin> set s'"
    and "map (\<lambda>c. if c = CHR '':'' then CHR ''_'' else c) s = map (\<lambda>c. if c = CHR '':'' then CHR ''_'' else c) s'"
  shows "bep_file d (a @ ''/'' @ s) = bep_file d (b @ ''/'' @ s')"
  using assms by (simp add: bep_file_def sanitized_suffix)

end
