(* ===== verification/Bootstrap.thy ===== *)
theory Bootstrap
  imports Py_Files
begin

text \<open>
  \<^verbatim>\<open>scripts/bootstrap.py\<close>: copies a directory of templates, rendering each file with Jinja2. Jinja2 is
  not part of the repository: \<open>parse\<close> is \<^verbatim>\<open>env.from_string(content)\<close> and \<open>render\<close> the rendering of a
  template with a loader for the template directory and a context; either may raise. The walk
  over the templates is the walk of the file system at its start; a destination inside of the
  template directory, which the running walk could meet, is not modelled.
\<close>

section \<open>Templates\<close>

record jinja =
  j_parse :: "fsys \<Rightarrow> ppath \<Rightarrow> string \<Rightarrow> unit res"
  j_render :: "fsys \<Rightarrow> ppath \<Rightarrow> string \<Rightarrow> string dict \<Rightarrow> string res"

text \<open>The lines of the source around an error, as \<^verbatim>\<open>f"    {i + 1:4d}{...} {lines[i]}"\<close>.\<close>

definition context_line :: "int \<Rightarrow> string list \<Rightarrow> nat \<Rightarrow> string" where
  "context_line lineno lines i =
     ''    '' @ pad_left 4 (show_int (int i + 1)) @
     (if int i + 1 = lineno then '' >'' else ''  '') @ '' '' @ lines ! i @ [CHR 0x0A]"

definition context_range :: "int \<Rightarrow> string list \<Rightarrow> nat list" where
  "context_range lineno lines =
     [nat (max 0 (lineno - 4)) ..< nat (min (int (length lines)) (lineno + 3))]"

definition print_syntax_error :: "ppath \<Rightarrow> string \<Rightarrow> int \<Rightarrow> string \<Rightarrow> unit script" where
  "print_syntax_error src_file_path content lineno message =
     io_bind (print_to Stderr (''Error in template: '' @ path_str src_file_path @ [CHR 0x0A])) (\<lambda>_.
     io_bind (print_to Stderr (''  Line '' @ show_int lineno @ '': '' @ message @ [CHR 0x0A])) (\<lambda>_.
       let lines = splitlines content in
       io_for (context_range lineno lines) (\<lambda>i. print_to Stderr (context_line lineno lines i))))"

definition print_undefined_error :: "ppath \<Rightarrow> string \<Rightarrow> unit script" where
  "print_undefined_error src_file_path message =
     io_bind (print_to Stderr (''Error in template: '' @ path_str src_file_path @ [CHR 0x0A])) (\<lambda>_.
       print_to Stderr (''  '' @ message @ [CHR 0x0A]))"

text \<open>A text file is read with universal newlines.\<close>

fun universal_newlines :: "string \<Rightarrow> string" where
  "universal_newlines [] = []"
| "universal_newlines (c # cs) =
     (if c = CHR 0x0D then
        CHR 0x0A # (if cs \<noteq> [] \<and> hd cs = CHR 0x0A then universal_newlines (tl cs) else universal_newlines cs)
      else c # universal_newlines cs)"

definition read_template :: "fsys \<Rightarrow> loc \<Rightarrow> ppath \<Rightarrow> string res" where
  "read_template fs cwd p = res_bind (read_text fs cwd p) (\<lambda>c. Inr (universal_newlines c))"

text \<open>
  Reading, rendering and writing one file. The destination is opened, and so emptied, before the
  template is rendered.
\<close>

definition render_file :: "jinja \<Rightarrow> ppath \<Rightarrow> string dict \<Rightarrow> ppath \<Rightarrow> ppath \<Rightarrow> string \<Rightarrow> unit script" where
  "render_file j src_dir context src_file_path dest_file_path content =
     io_bind (query_res (\<lambda>w. j_parse j (w_fs w) src_dir content)) (\<lambda>_.
     io_bind (change_fs (\<lambda>fs cwd. write_file fs cwd dest_file_path [])) (\<lambda>_.
     io_bind (query_res (\<lambda>w. j_render j (w_fs w) src_dir content context)) (\<lambda>text.
     io_bind (change_fs (\<lambda>fs cwd. write_file fs cwd dest_file_path (text @ [CHR 0x0A]))) (\<lambda>_.
       change_fs (\<lambda>fs cwd. copymode fs cwd src_file_path dest_file_path)))))"

text \<open>The result tells whether an error occurred.\<close>

definition copy_file :: "jinja \<Rightarrow> ppath \<Rightarrow> ppath \<Rightarrow> string dict \<Rightarrow> ppath \<Rightarrow> bool script" where
  "copy_file j src_dir dest_dir context src_file_path =
     (let dest_file_path = path_div dest_dir (relative_to src_file_path src_dir) in
      io_bind (path_mkdir (path_parent dest_file_path)) (\<lambda>_.
      io_bind (query_res (\<lambda>w. read_template (w_fs w) (w_cwd w) src_file_path)) (\<lambda>content.
      io_catch
        (io_bind (render_file j src_dir context src_file_path dest_file_path content) (\<lambda>_. io_return False))
        (\<lambda>e. case e of
           TemplateSyntaxError lineno message \<Rightarrow>
             Some (io_bind (print_syntax_error src_file_path content lineno message) (\<lambda>_. io_return True))
         | UndefinedError message \<Rightarrow>
             Some (io_bind (print_undefined_error src_file_path message) (\<lambda>_. io_return True))
         | _ \<Rightarrow> None))))"

text \<open>The files of the walk, in order, without the \<^verbatim>\<open>.include\<close> files.\<close>

definition template_files :: "fsys \<Rightarrow> loc \<Rightarrow> ppath \<Rightarrow> ppath list" where
  "template_files fs cwd src_dir =
     concat (map (\<lambda>(dirpath, dirs, filenames).
         map (child dirpath) (filter (\<lambda>filename. \<not> endswith filename ''.include'') filenames))
       (os_walk fs cwd True (\<lambda>_. True) src_dir))"

fun copy_loop :: "(ppath \<Rightarrow> bool script) \<Rightarrow> bool \<Rightarrow> ppath list \<Rightarrow> bool script" where
  "copy_loop copy error_occurred [] = io_return error_occurred"
| "copy_loop copy error_occurred (p # ps) =
     io_bind (copy p) (\<lambda>failed. copy_loop copy (error_occurred \<or> failed) ps)"

definition copy_and_template :: "jinja \<Rightarrow> ppath \<Rightarrow> ppath \<Rightarrow> string dict \<Rightarrow> bool script" where
  "copy_and_template j src_dir dest_dir context =
     io_bind (query (\<lambda>w. template_files (w_fs w) (w_cwd w) src_dir))
       (copy_loop (copy_file j src_dir dest_dir context) False)"

section \<open>The script\<close>

record bootstrap_args =
  arg_template :: string
  arg_templates_root :: "ppath option"
  arg_output_dir :: ppath
  arg_args :: "string list"

text \<open>The context: a later pair with the same key replaces an earlier one.\<close>

fun parse_context :: "string list \<Rightarrow> string dict \<Rightarrow> string dict script" where
  "parse_context [] context = io_return context"
| "parse_context (arg # args) context =
     (if CHR ''='' \<notin> set arg
      then io_bind (print_to Stderr (''Invalid argument: '' @ arg @ ''. Expected key=value.'' @ [CHR 0x0A]))
             (\<lambda>_. sys_exit 1)
      else (case split_once (CHR ''='') arg of (key, val) \<Rightarrow>
        parse_context args (AList.update key val context)))"

text \<open>
  \<^verbatim>\<open>path.resolve(strict=True)\<close>: FileNotFoundError for a missing component, another OSError for a file in
  the middle of the path or a cycle of links.
\<close>

definition resolve_strict :: "fsys \<Rightarrow> loc \<Rightarrow> ppath \<Rightarrow> ppath res" where
  "resolve_strict fs cwd p =
     (if path_exists fs cwd p then Inr (realpath fs cwd p)
      else if list_ex (\<lambda>q. case path_node fs cwd True q of Some (File _ _) \<Rightarrow> True | _ \<Rightarrow> False) (path_parents p) \<or>
        path_is_symlink fs cwd (realpath fs cwd p)
      then Inl (OSError (path_str p)) else Inl (FileNotFoundError (path_str p)))"

text \<open>\<open>script_dir\<close> is the directory of the script; \<open>err\<close> the text of an exception.\<close>

definition template_dir_of :: "ppath \<Rightarrow> bootstrap_args \<Rightarrow> ppath script" where
  "template_dir_of script_dir args =
     (let templates_root_dir = (case arg_templates_root args of
            Some r \<Rightarrow> r | None \<Rightarrow> path_div (path_parent script_dir) (to_path ''templates''))
      in query (\<lambda>w. realpath (w_fs w) (w_cwd w) (path_div templates_root_dir (to_path (arg_template args)))))"

definition bootstrap_main ::
    "jinja \<Rightarrow> (exn \<Rightarrow> string) \<Rightarrow> ppath \<Rightarrow> bootstrap_args \<Rightarrow> unit script" where
  "bootstrap_main j err script_dir args =
     io_bind (parse_context (arg_args args) []) (\<lambda>context.
     io_bind (template_dir_of script_dir args) (\<lambda>template_dir.
     io_bind
       (io_catch (query_res (\<lambda>w. resolve_strict (w_fs w) (w_cwd w) template_dir))
         (\<lambda>e. if is_FileNotFound e
              then Some (io_bind (print_to Stderr (''Template '' @ [CHR 0x27] @ arg_template args @ [CHR 0x27] @
                     '' not found at '' @ [CHR 0x27] @ path_str template_dir @ [CHR 0x27, CHR 0x0A])) (\<lambda>_. sys_exit 1))
              else None)) (\<lambda>template_dir.
     io_bind
       (io_catch
         (io_bind (copy_and_template j template_dir (arg_output_dir args) context) (\<lambda>error_occurred.
            if error_occurred
            then io_bind (print_to Stderr (''Errors occurred during templating.'' @ [CHR 0x0A])) (\<lambda>_. sys_exit 1)
            else io_return ()))
         (\<lambda>e. if is_Exception e
              then Some (io_bind (print_to Stderr (''An error occurred: '' @ err e @ [CHR 0x0A])) (\<lambda>_. sys_exit 1))
              else None)) (\<lambda>_.
       print_to Stdout (''Project bootstrapped with '' @ [CHR 0x27] @ arg_template args @ [CHR 0x27] @
         '' template.'' @ [CHR 0x0A])))))"

end
