(* ===== verification/Bootstrap_Spec.thy ===== *)
theory Bootstrap_Spec
  imports Bootstrap
begin

text \<open>
  The bootstrap script: what a copied template contains, and that a success means that every
  template file has its copy.
\<close>

section \<open>Files are only added or rewritten\<close>

definition keeps_nodes :: "fsys \<Rightarrow> fsys \<Rightarrow> bool" where
  "keeps_nodes fs fs' \<longleftrightarrow> (\<forall>l nd. node_at fs l = Some nd \<longrightarrow> node_at fs' l = Some nd)"

lemma keeps_nodes_grows: "keeps_nodes fs fs' \<Longrightarrow> grows fs fs'"
  by (auto simp: keeps_nodes_def grows_def)

lemma mkdir_keeps: "mkdir_parents fs cwd p = Inr fs' \<Longrightarrow> keeps_nodes fs fs'"
proof (induction fs cwd p arbitrary: fs' rule: mkdir_parents.induct)
  case (1 fs cwd p)
  show ?case
  proof (cases "path_is_dir fs cwd p")
    case True
    with "1.prems" show ?thesis by (simp add: mkdir_parents.simps keeps_nodes_def)
  next
    case False
    have guard: "\<not> (path_node fs cwd False p \<noteq> None \<or> p_parts p = [])"
      using "1.prems" False by (subst (asm) mkdir_parents.simps) (auto split: if_splits)
    then obtain fs1 where fs1: "mkdir_parents fs cwd (path_parent p) = Inr fs1"
      and rest: "fs' = fs1 \<or> (\<exists>l. fs' = fs1 @ [(l, Dir)])"
      using "1.prems" False by (subst (asm) mkdir_parents.simps) (auto split: if_splits option.splits)
    from "1.IH" [OF False guard fs1] have "keeps_nodes fs fs1" .
    with rest show ?thesis by (auto simp: keeps_nodes_def node_at_append)
  qed
qed

lemma copymode_grows: "copymode fs cwd src dst = Inr fs' \<Longrightarrow> grows fs fs'"
  by (auto simp: copymode_def intro: grows_update split: option.splits node.splits)

definition files_grow :: "world \<Rightarrow> world \<Rightarrow> bool" where
  "files_grow w w' \<longleftrightarrow> grows (w_fs w) (w_fs w') \<and> w_cwd w' = w_cwd w"

interpretation files_grow: state_rel files_grow
  by unfold_locales (auto simp: files_grow_def intro: grows_refl grows_trans)

lemma keeps_change:
  "(\<And>fs cwd fs'. f fs cwd = Inr fs' \<Longrightarrow> grows fs fs') \<Longrightarrow> keeps files_grow (change_fs f)"
  by (auto simp: keeps_def change_fs_def files_grow_def grows_refl split: sum.split)

lemma files_grow_print: "keeps files_grow (print_to s m)"
  by (simp add: keeps_def print_to_def files_grow_def grows_refl)

lemma files_grow_query: "keeps files_grow (query f)" "keeps files_grow (query_res g)" "keeps files_grow (sys_exit n)"
  by (auto simp: keeps_def query_def query_res_def sys_exit_def io_raise_def intro: files_grow.R_refl)

lemmas files_grow_rules = files_grow.keeps_rules files_grow_print files_grow_query

lemma files_grow_errors:
  "keeps files_grow (print_syntax_error p content n m)" "keeps files_grow (print_undefined_error p m)"
  unfolding print_syntax_error_def print_undefined_error_def Let_def
  by (intro files_grow_rules)+

lemma render_file_grows: "keeps files_grow (render_file j src_dir context p q content)"
  unfolding render_file_def
  by (intro files_grow_rules keeps_change) (auto dest: write_file_reads copymode_grows)

lemma copy_file_grows: "keeps files_grow (copy_file j src_dir dest_dir context p)"
  unfolding copy_file_def path_mkdir_def Let_def
  by (intro files_grow_rules keeps_change render_file_grows)
    (auto dest: mkdir_keeps keeps_nodes_grows
      intro: files_grow_rules files_grow_errors split: exn.splits)

text \<open>What a walk resolved stays resolved.\<close>

lemma loc_of_grows: "grows fs fs' \<Longrightarrow> loc_of fs cwd p = Some x \<Longrightarrow> loc_of fs' cwd p = Some x"
  by (simp add: loc_of_def walk_rem_grows)

definition is_file :: "fsys \<Rightarrow> loc \<Rightarrow> ppath \<Rightarrow> bool" where
  "is_file fs cwd p \<longleftrightarrow> (\<exists>c m. path_node fs cwd True p = Some (File c m))"

lemma path_node_loc: "path_node fs cwd True p = Some nd \<longleftrightarrow> (\<exists>l r. loc_of fs cwd p = Some (l, r) \<and> node_at fs l = Some nd)"
  by (auto simp: path_node_def lookup_follow bind_eq_Some_conv)

lemma is_file_grows: "grows fs fs' \<Longrightarrow> is_file fs cwd p \<Longrightarrow> is_file fs' cwd p"
proof -
  assume g: "grows fs fs'" and "is_file fs cwd p"
  then obtain l r c m where l: "loc_of fs cwd p = Some (l, r)" "node_at fs l = Some (File c m)"
    by (auto simp: is_file_def path_node_loc)
  from growsD [OF g l(2)] loc_of_grows [OF g l(1)] show ?thesis by (auto simp: is_file_def path_node_loc)
qed

section \<open>One file\<close>

text \<open>Writing keeps the modes of the files there are.\<close>

definition keeps_modes :: "fsys \<Rightarrow> fsys \<Rightarrow> bool" where
  "keeps_modes fs fs' \<longleftrightarrow> (\<forall>l c m. node_at fs l = Some (File c m) \<longrightarrow> (\<exists>c'. node_at fs' l = Some (File c' m)))"

lemma write_file_modes: "write_file fs cwd p c = Inr fs' \<Longrightarrow> keeps_modes fs fs'"
proof -
  have "write_at fs l c = Inr fs' \<Longrightarrow> keeps_modes fs fs'" for l
    by (cases "l = []")
      (auto simp: write_at_def keeps_modes_def node_at_append node_at_update split: option.splits node.splits,
        auto simp: node_at_def)
  then show "write_file fs cwd p c = Inr fs' \<Longrightarrow> ?thesis"
    by (auto simp: write_file_def split: option.splits)
qed

lemma file_mode_kept:
  assumes "grows fs fs'" and "keeps_modes fs fs'" and "path_node fs cwd True p = Some (File c m)"
  shows "\<exists>c'. path_node fs' cwd True p = Some (File c' m)"
  using assms loc_of_grows [OF assms(1)] by (fastforce simp: path_node_loc keeps_modes_def)

lemma io_bind_change:
  "io_bind (change_fs f) g w = (r, w') \<Longrightarrow>
   (\<exists>e. f (w_fs w) (w_cwd w) = Inl e \<and> r = Inl e \<and> w' = w) \<or>
   (\<exists>fs. f (w_fs w) (w_cwd w) = Inr fs \<and> g () (w\<lparr>w_fs := fs\<rparr>) = (r, w'))"
  by (auto simp: io_bind_def change_fs_def split: sum.splits)

lemma io_bind_query_res:
  "io_bind (query_res f) g w = (r, w') \<Longrightarrow>
   (\<exists>e. f w = Inl e \<and> r = Inl e \<and> w' = w) \<or> (\<exists>x. f w = Inr x \<and> g x w = (r, w'))"
  by (auto simp: io_bind_def query_res_def split: sum.splits)

lemma render_file_result:
  assumes "render_file j src_dir context src dest content w = (Inr (), w')"
    and srcf: "path_node (w_fs w) (w_cwd w) True src = Some (File c m)"
  shows "\<exists>fs0 out. j_render j fs0 src_dir content context = Inr out \<and>
    path_node (w_fs w') (w_cwd w') True dest = Some (File (out @ [CHR 0x0A]) m)"
proof -
  note eq = assms(1) [unfolded render_file_def]
  from io_bind_query_res [OF eq] have
    "io_bind (change_fs (\<lambda>fs cwd. write_file fs cwd dest [])) (\<lambda>_.
     io_bind (query_res (\<lambda>w. j_render j (w_fs w) src_dir content context)) (\<lambda>out.
     io_bind (change_fs (\<lambda>fs cwd. write_file fs cwd dest (out @ [CHR 0x0A]))) (\<lambda>_.
       change_fs (\<lambda>fs cwd. copymode fs cwd src dest)))) w = (Inr (), w')" by auto
  from io_bind_change [OF this] obtain fs0 where fs0: "write_file (w_fs w) (w_cwd w) dest [] = Inr fs0"
    and eq1: "io_bind (query_res (\<lambda>w. j_render j (w_fs w) src_dir content context)) (\<lambda>out.
     io_bind (change_fs (\<lambda>fs cwd. write_file fs cwd dest (out @ [CHR 0x0A]))) (\<lambda>_.
       change_fs (\<lambda>fs cwd. copymode fs cwd src dest))) (w\<lparr>w_fs := fs0\<rparr>) = (Inr (), w')" by auto
  from io_bind_query_res [OF eq1] obtain out where tx: "j_render j fs0 src_dir content context = Inr out"
    and eq2: "io_bind (change_fs (\<lambda>fs cwd. write_file fs cwd dest (out @ [CHR 0x0A]))) (\<lambda>_.
       change_fs (\<lambda>fs cwd. copymode fs cwd src dest)) (w\<lparr>w_fs := fs0\<rparr>) = (Inr (), w')" by auto
  from io_bind_change [OF eq2] obtain fs2 where fs2: "write_file fs0 (w_cwd w) dest (out @ [CHR 0x0A]) = Inr fs2"
    and eq3: "change_fs (\<lambda>fs cwd. copymode fs cwd src dest) (w\<lparr>w_fs := fs2\<rparr>) = (Inr (), w')" by auto
  from write_file_reads [OF fs0] have g0: "grows (w_fs w) fs0" by blast
  from write_file_reads [OF fs2] obtain l r m0 where g2: "grows fs0 fs2"
    and l: "loc_of fs2 (w_cwd w) dest = Some (l, r)" "node_at fs2 l = Some (File (out @ [CHR 0x0A]) m0)" by blast
  from eq3 obtain fs3 where fs3: "copymode fs2 (w_cwd w) src dest = Inr fs3" "w' = w\<lparr>w_fs := fs3\<rparr>"
    by (auto simp: change_fs_def split: sum.splits)
  obtain c1 where "path_node fs0 (w_cwd w) True src = Some (File c1 m)"
    using file_mode_kept [OF g0 write_file_modes [OF fs0] srcf] by blast
  then obtain c2 where "path_node fs2 (w_cwd w) True src = Some (File c2 m)"
    using file_mode_kept [OF g2 write_file_modes [OF fs2]] by blast
  with fs3(1) l have upd: "fs3 = AList.update l (File (out @ [CHR 0x0A]) m) fs2"
    by (auto simp: copymode_def lookup_follow split: option.splits node.splits)
  have "l \<noteq> []" using l(2) by (auto simp: node_at_def)
  moreover have "loc_of fs3 (w_cwd w) dest = Some (l, r)"
    using loc_of_grows [OF copymode_grows [OF fs3(1)] l(1)] .
  ultimately have "path_node fs3 (w_cwd w) True dest = Some (File (out @ [CHR 0x0A]) m)"
    by (auto simp: path_node_loc upd node_at_update)
  with tx fs3(2) show ?thesis by auto
qed

lemma path_node_kept:
  "keeps_nodes fs fs' \<Longrightarrow> path_node fs cwd True p = Some nd \<Longrightarrow> path_node fs' cwd True p = Some nd"
  using loc_of_grows [OF keeps_nodes_grows] by (fastforce simp: path_node_loc keeps_nodes_def)

definition dest_of :: "ppath \<Rightarrow> ppath \<Rightarrow> ppath \<Rightarrow> ppath" where
  "dest_of src_dir dest_dir p = path_div dest_dir (relative_to p src_dir)"

lemma copy_file_result:
  assumes eq: "copy_file j src_dir dest_dir context p w = (Inr False, w')"
    and srcf: "path_node (w_fs w) (w_cwd w) True p = Some (File c m)"
  shows "\<exists>fs0 out. j_render j fs0 src_dir (universal_newlines c) context = Inr out \<and>
    path_node (w_fs w') (w_cwd w') True (dest_of src_dir dest_dir p) = Some (File (out @ [CHR 0x0A]) m)"
proof -
  let ?d = "dest_of src_dir dest_dir p"
  note eq1 = eq [unfolded copy_file_def Let_def path_mkdir_def dest_of_def [symmetric]]
  from io_bind_change [OF eq1] obtain fs1 where mk: "mkdir_parents (w_fs w) (w_cwd w) (path_parent ?d) = Inr fs1"
    and eq2: "io_bind (query_res (\<lambda>w. read_template (w_fs w) (w_cwd w) p)) (\<lambda>content.
      io_catch (io_bind (render_file j src_dir context p ?d content) (\<lambda>_. io_return False))
        (\<lambda>e. case e of
           TemplateSyntaxError lineno message \<Rightarrow>
             Some (io_bind (print_syntax_error p content lineno message) (\<lambda>_. io_return True))
         | UndefinedError message \<Rightarrow>
             Some (io_bind (print_undefined_error p message) (\<lambda>_. io_return True))
         | _ \<Rightarrow> None)) (w\<lparr>w_fs := fs1\<rparr>) = (Inr False, w')" by auto
  have file1: "path_node fs1 (w_cwd w) True p = Some (File c m)"
    using path_node_kept [OF mkdir_keeps [OF mk] srcf] .
  from io_bind_query_res [OF eq2] obtain content where
    "read_template fs1 (w_cwd w) p = Inr content" and
    eq3: "io_catch (io_bind (render_file j src_dir context p ?d content) (\<lambda>_. io_return False))
        (\<lambda>e. case e of
           TemplateSyntaxError lineno message \<Rightarrow>
             Some (io_bind (print_syntax_error p content lineno message) (\<lambda>_. io_return True))
         | UndefinedError message \<Rightarrow>
             Some (io_bind (print_undefined_error p message) (\<lambda>_. io_return True))
         | _ \<Rightarrow> None) (w\<lparr>w_fs := fs1\<rparr>) = (Inr False, w')" by auto
  then have content: "content = universal_newlines c"
    using file1 by (auto simp: read_template_def read_text_def read_bytes_def split: if_splits)
  obtain r w2 where rf: "render_file j src_dir context p ?d content (w\<lparr>w_fs := fs1\<rparr>) = (r, w2)" by fastforce
  have "r = Inr () \<and> w2 = w'"
  proof (cases r)
    case (Inl e)
    have "io_bind m (\<lambda>_. io_return True) v \<noteq> (Inr False, w')" for m :: "unit script" and v
      by (auto simp: io_bind_def io_return_def split: prod.splits sum.splits)
    with eq3 rf Inl show ?thesis by (auto simp: io_catch_def io_bind_def split: exn.splits option.splits)
  qed (use eq3 rf in \<open>auto simp: io_catch_def io_bind_def io_return_def\<close>)
  with rf have "render_file j src_dir context p ?d content (w\<lparr>w_fs := fs1\<rparr>) = (Inr (), w')" by simp
  from render_file_result [OF this] file1 content show ?thesis by simp
qed

section \<open>All files\<close>

lemma render_file_dest:
  assumes "render_file j src_dir context src dest content w = (Inr (), w')"
  shows "is_file (w_fs w') (w_cwd w') dest"
proof -
  have k: "keeps files_grow (io_bind (query_res (\<lambda>w. j_render j (w_fs w) src_dir content context)) (\<lambda>out.
     io_bind (change_fs (\<lambda>fs cwd. write_file fs cwd dest (out @ [CHR 0x0A]))) (\<lambda>_.
       change_fs (\<lambda>fs cwd. copymode fs cwd src dest))))"
    by (intro files_grow_rules keeps_change) (auto dest: write_file_reads copymode_grows)
  from io_bind_query_res [OF assms [unfolded render_file_def]]
  have "io_bind (change_fs (\<lambda>fs cwd. write_file fs cwd dest [])) (\<lambda>_.
     io_bind (query_res (\<lambda>w. j_render j (w_fs w) src_dir content context)) (\<lambda>out.
     io_bind (change_fs (\<lambda>fs cwd. write_file fs cwd dest (out @ [CHR 0x0A]))) (\<lambda>_.
       change_fs (\<lambda>fs cwd. copymode fs cwd src dest)))) w = (Inr (), w')" by auto
  from io_bind_change [OF this] obtain fs0 where fs0: "write_file (w_fs w) (w_cwd w) dest [] = Inr fs0"
    and "io_bind (query_res (\<lambda>w. j_render j (w_fs w) src_dir content context)) (\<lambda>out.
     io_bind (change_fs (\<lambda>fs cwd. write_file fs cwd dest (out @ [CHR 0x0A]))) (\<lambda>_.
       change_fs (\<lambda>fs cwd. copymode fs cwd src dest))) (w\<lparr>w_fs := fs0\<rparr>) = (Inr (), w')" by auto
  from keepsD [OF k this(2)] have "grows fs0 (w_fs w')" "w_cwd w' = w_cwd w" by (auto simp: files_grow_def)
  moreover have "is_file fs0 (w_cwd w) dest"
    using write_file_reads [OF fs0] by (auto simp: is_file_def path_node_loc)
  ultimately show ?thesis using is_file_grows by simp
qed

lemma copy_file_dest:
  assumes "copy_file j src_dir dest_dir context p w = (Inr False, w')"
  shows "is_file (w_fs w') (w_cwd w') (dest_of src_dir dest_dir p)"
proof -
  have no_True: "io_bind m (\<lambda>_. io_return True) v \<noteq> (Inr False, w')" for m :: "unit script" and v
    by (auto simp: io_bind_def io_return_def split: prod.splits sum.splits)
  from io_bind_change [OF assms [unfolded copy_file_def Let_def path_mkdir_def dest_of_def [symmetric]]]
  obtain fs1 content where "io_catch (io_bind (render_file j src_dir context p (dest_of src_dir dest_dir p) content) (\<lambda>_. io_return False))
        (\<lambda>e. case e of
           TemplateSyntaxError lineno message \<Rightarrow>
             Some (io_bind (print_syntax_error p content lineno message) (\<lambda>_. io_return True))
         | UndefinedError message \<Rightarrow>
             Some (io_bind (print_undefined_error p message) (\<lambda>_. io_return True))
         | _ \<Rightarrow> None) (w\<lparr>w_fs := fs1\<rparr>) = (Inr False, w')"
    by (auto dest!: io_bind_query_res)
  with no_True show ?thesis
    using render_file_dest [of j src_dir "context" p "dest_of src_dir dest_dir p" content "w\<lparr>w_fs := fs1\<rparr>"]
    by (auto simp: io_catch_def io_bind_def io_return_def split: prod.splits sum.splits exn.splits option.splits)
qed

lemma copy_loop_all:
  assumes "\<And>p. keeps files_grow (copy p)" and "copy_loop copy e ps w = (Inr False, w')"
  shows "\<not> e \<and> files_grow w w' \<and> (\<forall>p \<in> set ps. \<exists>w1 w2. copy p w1 = (Inr False, w2) \<and> files_grow w1 w2 \<and> files_grow w2 w')"
  using assms(2)
proof (induction ps arbitrary: e w)
  case Nil
  then show ?case by (auto simp: io_return_def files_grow.R_refl)
next
  case (Cons p ps)
  then obtain f w1 where c: "copy p w = (Inr f, w1)" "copy_loop copy (e \<or> f) ps w1 = (Inr False, w')"
    by (auto elim: io_bind_InrE)
  note g = keepsD [OF assms(1) c(1)]
  from Cons.IH [OF c(2)] c(1) g show ?case by (auto intro: files_grow.R_trans)
qed

lemma copy_all_dest:
  assumes "copy_and_template j src_dir dest_dir context w = (Inr False, w')"
  shows "dest_of src_dir dest_dir ` set (template_files (w_fs w) (w_cwd w) src_dir)
    \<subseteq> {q. is_file (w_fs w') (w_cwd w) q}"
proof
  fix q
  assume "q \<in> dest_of src_dir dest_dir ` set (template_files (w_fs w) (w_cwd w) src_dir)"
  then obtain p where p: "p \<in> set (template_files (w_fs w) (w_cwd w) src_dir)" "q = dest_of src_dir dest_dir p" by blast
  have "copy_loop (copy_file j src_dir dest_dir context) False (template_files (w_fs w) (w_cwd w) src_dir) w = (Inr False, w')"
    using assms by (simp add: copy_and_template_def io_bind_def query_def)
  from copy_loop_all [OF copy_file_grows this] p(1) obtain w1 w2 where
    c: "copy_file j src_dir dest_dir context p w1 = (Inr False, w2)" "files_grow w2 w'" "files_grow w w'" by blast
  from copy_file_dest [OF c(1)] c(2,3) p(2) show "q \<in> {q. is_file (w_fs w') (w_cwd w) q}"
    by (auto simp: files_grow_def dest: is_file_grows)
qed

text \<open>Nothing but the final message goes to standard output.\<close>

definition quiet :: "world \<Rightarrow> string list" where
  "quiet w = printed Stdout (w_trace w)"

lemma quiet_rules:
  "keeps (same_part quiet) (print_to Stderr m)" "keeps (same_part quiet) (change_fs f)"
  "keeps (same_part quiet) (query g)" "keeps (same_part quiet) (query_res h)" "keeps (same_part quiet) (sys_exit n)"
  by (auto simp: keeps_def same_part_def quiet_def print_to_def change_fs_def query_def query_res_def
      sys_exit_def io_raise_def split: sum.split)

lemma quiet_errors:
  "keeps (same_part quiet) (print_syntax_error p content n m)" "keeps (same_part quiet) (print_undefined_error p m)"
  unfolding print_syntax_error_def print_undefined_error_def Let_def
  by (intro same_part.keeps_rules quiet_rules)+

lemma quiet_copy_file: "keeps (same_part quiet) (copy_file j src_dir dest_dir context p)"
  unfolding copy_file_def render_file_def path_mkdir_def Let_def
  by (intro same_part.keeps_rules quiet_rules)
    (auto intro: same_part.keeps_rules quiet_errors split: exn.splits)

lemma quiet_copy_loop: "(\<And>p. keeps (same_part quiet) (copy p)) \<Longrightarrow> keeps (same_part quiet) (copy_loop copy e ps)"
  by (induction ps arbitrary: e) (auto intro: same_part.keeps_rules)

lemma quiet_copy_all: "keeps (same_part quiet) (copy_and_template j src_dir dest_dir context)"
  unfolding copy_and_template_def by (intro same_part.keeps_rules quiet_rules quiet_copy_loop quiet_copy_file)

lemma parse_context_quiet: "keeps (same_part quiet) (parse_context args context)"
  by (induction args arbitrary: "context")
    (auto intro: same_part.keeps_rules quiet_rules split: prod.split)

lemma parse_context_Inr: "parse_context args context w = (Inr c, w1) \<Longrightarrow> w1 = w"
  by (induction args arbitrary: "context")
    (auto simp: io_return_def io_bind_def sys_exit_def io_raise_def print_to_def split: if_splits prod.splits)

section \<open>Properties\<close>

text \<open>
  C14: A template file that is copied without an error ends up at its place below the destination, with
  exactly the rendered text (of the source with normalised line ends) and a final newline, and
  with the permissions of the source.
\<close>

theorem template_rendered:
  assumes "copy_file j src_dir dest_dir context p w = (Inr False, w')"
    and "path_node (w_fs w) (w_cwd w) True p = Some (File c m)"
  shows "\<exists>fs0 out. j_render j fs0 src_dir (universal_newlines c) context = Inr out \<and>
    path_node (w_fs w') (w_cwd w') True (path_div dest_dir (relative_to p src_dir)) =
      Some (File (out @ [CHR 0x0A]) m)"
  using copy_file_result [OF assms] by (simp add: dest_of_def)

text \<open>A renderer that keeps the text, and a world with one executable template.\<close>

definition demo_jinja :: jinja where
  "demo_jinja = \<lparr>j_parse = (\<lambda>fs d s. Inr ()), j_render = (\<lambda>fs d s c. Inr s)\<rparr>"

definition demo_templates :: world where
  "demo_templates = \<lparr>w_fs = [([''t''], Dir), ([''t'', ''b''], Dir), ([''t'', ''b'', ''run''], File ''go'' 493)],
     w_cwd = [], w_env = [], w_trace = []\<rparr>"

definition demo_done :: world where
  "demo_done = snd (copy_file demo_jinja (to_path ''/t'') (to_path ''/out'') [] (to_path ''/t/b/run'') demo_templates)"

theorem template_rendered_witness:
  "\<exists>fs0 out. j_render demo_jinja fs0 (to_path ''/t'') ''go'' [] = Inr out \<and>
     path_node (w_fs demo_done) (w_cwd demo_done) True
       (path_div (to_path ''/out'') (relative_to (to_path ''/t/b/run'') (to_path ''/t''))) =
       Some (File (out @ [CHR 0x0A]) 493)"
proof -
  have 1: "fst (copy_file demo_jinja (to_path ''/t'') (to_path ''/out'') [] (to_path ''/t/b/run'') demo_templates) = Inr False"
    by code_simp
  have 2: "path_node (w_fs demo_templates) (w_cwd demo_templates) True (to_path ''/t/b/run'') = Some (File ''go'' 493)"
    by code_simp
  have 3: "universal_newlines ''go'' = ''go''" by simp
  have "copy_file demo_jinja (to_path ''/t'') (to_path ''/out'') [] (to_path ''/t/b/run'') demo_templates = (Inr False, demo_done)"
    using 1 by (simp add: demo_done_def prod_eq_iff)
  from template_rendered [OF this 2] 3 show ?thesis by simp
qed

text \<open>The two guarded parts of \<^verbatim>\<open>main\<close>.\<close>

definition resolve_part :: "bootstrap_args \<Rightarrow> ppath \<Rightarrow> ppath script" where
  "resolve_part args template_dir =
     io_catch (query_res (\<lambda>w. resolve_strict (w_fs w) (w_cwd w) template_dir))
       (\<lambda>e. if is_FileNotFound e
            then Some (io_bind (print_to Stderr (''Template '' @ [CHR 0x27] @ arg_template args @ [CHR 0x27] @
                   '' not found at '' @ [CHR 0x27] @ path_str template_dir @ [CHR 0x27, CHR 0x0A])) (\<lambda>_. sys_exit 1))
            else None)"

definition copy_part :: "jinja \<Rightarrow> (exn \<Rightarrow> string) \<Rightarrow> bootstrap_args \<Rightarrow> string dict \<Rightarrow> ppath \<Rightarrow> unit script" where
  "copy_part j err args context d =
     io_catch
       (io_bind (copy_and_template j d (arg_output_dir args) context) (\<lambda>error_occurred.
          if error_occurred
          then io_bind (print_to Stderr (''Errors occurred during templating.'' @ [CHR 0x0A])) (\<lambda>_. sys_exit 1)
          else io_return ()))
       (\<lambda>e. if is_Exception e
            then Some (io_bind (print_to Stderr (''An error occurred: '' @ err e @ [CHR 0x0A])) (\<lambda>_. sys_exit 1))
            else None)"

lemma bootstrap_main_parts:
  "bootstrap_main j err script_dir args =
     io_bind (parse_context (arg_args args) []) (\<lambda>context.
     io_bind (template_dir_of script_dir args) (\<lambda>template_dir.
     io_bind (resolve_part args template_dir) (\<lambda>d.
     io_bind (copy_part j err args context d) (\<lambda>_.
       print_to Stdout (''Project bootstrapped with '' @ [CHR 0x27] @ arg_template args @ [CHR 0x27] @
         '' template.'' @ [CHR 0x0A])))))"
  unfolding bootstrap_main_def resolve_part_def copy_part_def by (rule refl)

lemma quiet_parts:
  "keeps (same_part quiet) (resolve_part args t)" "keeps (same_part quiet) (copy_part j err args context d)"
  "keeps (same_part quiet) (template_dir_of script_dir args)"
  unfolding resolve_part_def copy_part_def template_dir_of_def Let_def
  by (intro same_part.keeps_rules quiet_rules quiet_copy_all;
      auto intro: same_part.keeps_rules quiet_rules split: if_splits)+

lemma quiet_until:
  assumes "keeps (same_part quiet) m" and "io_bind m f w = (Inl e, w')"
    and "\<And>x w1. f x w1 = (Inl e, w') \<Longrightarrow> quiet w' = quiet w1"
  shows "quiet w' = quiet w"
proof -
  obtain r w1 where m: "m w = (r, w1)" by fastforce
  from keepsD [OF assms(1) m] have "quiet w1 = quiet w" by (simp add: same_part_def)
  with assms(2,3) m show ?thesis by (cases r) (auto simp: io_bind_def)
qed

lemma resolve_part_Inr:
  "resolve_part args t w = (Inr d, w1) \<Longrightarrow> resolve_strict (w_fs w) (w_cwd w) t = Inr d \<and> w1 = w"
  by (auto simp: resolve_part_def io_catch_def query_res_def io_bind_def sys_exit_def io_raise_def print_to_def
      split: sum.splits if_splits)

lemma copy_part_Inr:
  "copy_part j err args context d w = (Inr u, w1) \<Longrightarrow>
   copy_and_template j d (arg_output_dir args) context w = (Inr False, w1)"
  by (auto simp: copy_part_def io_catch_def io_bind_def io_return_def sys_exit_def io_raise_def print_to_def
      split: sum.splits if_splits prod.splits)

text \<open>
  C24: \<^verbatim>\<open>bootstrap.py\<close> reports success, on standard output, only when every file of the template that is not
  an include has a regular file at its place below the output directory; in every other run it
  prints nothing on standard output.
\<close>

theorem bootstrap_complete:
  "case bootstrap_main j err script_dir args w of
     (Inr _, w') \<Rightarrow>
       (\<exists>template_dir. fst (template_dir_of script_dir args w) = Inr template_dir \<and>
          (\<exists>d. resolve_strict (w_fs w) (w_cwd w) template_dir = Inr d \<and>
             (\<lambda>p. path_div (arg_output_dir args) (relative_to p d)) ` set (template_files (w_fs w) (w_cwd w) d)
               \<subseteq> {q. is_file (w_fs w') (w_cwd w) q})) \<and>
       printed Stdout (w_trace w') = printed Stdout (w_trace w) @
         [''Project bootstrapped with '' @ [CHR 0x27] @ arg_template args @ [CHR 0x27] @ '' template.'' @ [CHR 0x0A]]
   | (Inl _, w') \<Rightarrow> printed Stdout (w_trace w') = printed Stdout (w_trace w)"
proof -
  let ?msg = "''Project bootstrapped with '' @ [CHR 0x27] @ arg_template args @ [CHR 0x27] @ '' template.'' @ [CHR 0x0A]"
  obtain r w' where eq: "bootstrap_main j err script_dir args w = (r, w')" by fastforce
  show ?thesis
  proof (cases r)
    case (Inl e)
    have "quiet w' = quiet w"
    proof (rule quiet_until [OF parse_context_quiet eq [unfolded bootstrap_main_parts Inl]],
        erule quiet_until [OF quiet_parts(3)], erule quiet_until [OF quiet_parts(1)],
        erule quiet_until [OF quiet_parts(2)])
      show "print_to Stdout ?msg w1 = (Inl e, w') \<Longrightarrow> quiet w' = quiet w1" for w1
        by (simp add: print_to_def)
    qed
    then show ?thesis using eq Inl by (simp add: quiet_def)
  next
    case (Inr u)
    with eq obtain ctx t d w1 w2 w3 w4 where steps:
      "parse_context (arg_args args) [] w = (Inr ctx, w1)" "template_dir_of script_dir args w1 = (Inr t, w2)"
      "resolve_part args t w2 = (Inr d, w3)" "copy_part j err args ctx d w3 = (Inr (), w4)"
      "print_to Stdout ?msg w4 = (Inr u, w')"
      unfolding bootstrap_main_parts by (auto elim!: io_bind_InrE)
    have w: "w1 = w" "w2 = w" "w3 = w"
      using parse_context_Inr [OF steps(1)] steps(2) resolve_part_Inr [OF steps(3)]
      by (auto simp: template_dir_of_def query_def Let_def)
    have "quiet w4 = quiet w" using keepsD [OF quiet_parts(2) steps(4)] w by (simp add: same_part_def)
    moreover have "w' = w4\<lparr>w_trace := w_trace w4 @ [Out Stdout ?msg]\<rparr>"
      using steps(5) by (simp add: print_to_def)
    moreover have "w_fs w' = w_fs w4" using calculation(2) by simp
    ultimately show ?thesis
      using eq Inr steps(2) resolve_part_Inr [OF steps(3)] copy_all_dest [OF copy_part_Inr [OF steps(4)]] w
      by (auto simp: quiet_def dest_of_def [abs_def])
  qed
qed

end
