(* ===== verification/Py_Shell.thy ===== *)
theory Py_Shell
  imports Py_Json
begin

text \<open>
  The two string functions \<^verbatim>\<open>docker_run.py\<close> applies to extra arguments: \<^verbatim>\<open>shlex.split\<close> and \<^verbatim>\<open>os.path.expandvars\<close>.
\<close>

section \<open>shlex.split\<close>

text \<open>The lexer of \<^verbatim>\<open>shlex\<close> in POSIX mode, splitting at white space, without comments.\<close>

datatype lex_state = LSpace | LWord | LQuote char | LEscape "char option"

definition lex_white :: "char \<Rightarrow> bool" where
  "lex_white c \<longleftrightarrow> c \<in> {CHR 0x20, CHR 0x09, CHR 0x0D, CHR 0x0A}"

definition lex_quote :: "char \<Rightarrow> bool" where
  "lex_quote c \<longleftrightarrow> c = CHR 0x27 \<or> c = CHR 0x22"

text \<open>
  State, token so far, whether a part of it was quoted, rest of the input. \<open>LEscape (Some q)\<close> is a
  backslash inside of the quotes \<open>q\<close>.
\<close>

fun shlex_loop :: "lex_state \<Rightarrow> string \<Rightarrow> bool \<Rightarrow> string \<Rightarrow> string list res" where
  "shlex_loop LSpace tok q [] = Inr []"
| "shlex_loop LSpace tok q (c # cs) =
     (if lex_white c then shlex_loop LSpace [] False cs
      else if c = CHR 0x5C then shlex_loop (LEscape None) [] False cs
      else if lex_quote c then shlex_loop (LQuote c) [] False cs
      else shlex_loop LWord [c] False cs)"
| "shlex_loop LWord tok q [] = Inr (if tok \<noteq> [] \<or> q then [tok] else [])"
| "shlex_loop LWord tok q (c # cs) =
     (if lex_white c then
        res_bind (shlex_loop LSpace [] False cs) (\<lambda>ts. Inr (if tok \<noteq> [] \<or> q then tok # ts else ts))
      else if lex_quote c then shlex_loop (LQuote c) tok q cs
      else if c = CHR 0x5C then shlex_loop (LEscape None) tok q cs
      else shlex_loop LWord (tok @ [c]) q cs)"
| "shlex_loop (LQuote d) tok q [] = Inl (ValueError ''No closing quotation'')"
| "shlex_loop (LQuote d) tok q (c # cs) =
     (if c = d then shlex_loop LWord tok True cs
      else if c = CHR 0x5C \<and> d = CHR 0x22 then shlex_loop (LEscape (Some d)) tok True cs
      else shlex_loop (LQuote d) (tok @ [c]) True cs)"
| "shlex_loop (LEscape e) tok q [] = Inl (ValueError ''No escaped character'')"
| "shlex_loop (LEscape e) tok q (c # cs) =
     (case e of
        None \<Rightarrow> shlex_loop LWord (tok @ [c]) q cs
      | Some d \<Rightarrow>
          shlex_loop (LQuote d) (if c \<noteq> CHR 0x5C \<and> c \<noteq> d then tok @ [CHR 0x5C, c] else tok @ [c]) q cs)"

definition shlex_split :: "string \<Rightarrow> string list res" where
  "shlex_split s = shlex_loop LSpace [] False s"

text \<open>\<^verbatim>\<open>shlex.quote\<close> and \<^verbatim>\<open>shlex.join\<close>, the inverse.\<close>

definition safe_char :: "char \<Rightarrow> bool" where
  "safe_char c \<longleftrightarrow>
     (let n = (of_char c :: nat) in
      48 \<le> n \<and> n \<le> 57 \<or> 65 \<le> n \<and> n \<le> 90 \<or> 97 \<le> n \<and> n \<le> 122 \<or> c \<in> set ''_@%+=:,./-'')"

definition shlex_quote :: "string \<Rightarrow> string" where
  "shlex_quote s =
     (if s = [] then [CHR 0x27, CHR 0x27]
      else if list_all safe_char s then s
      else [CHR 0x27] @ concat (map (\<lambda>c. if c = CHR 0x27
             then [CHR 0x27, CHR 0x22, CHR 0x27, CHR 0x22, CHR 0x27] else [c]) s) @ [CHR 0x27])"

definition shlex_join :: "string list \<Rightarrow> string" where
  "shlex_join xs = join '' '' (map shlex_quote xs)"

lemma safe_char_plain: "safe_char c \<Longrightarrow> \<not> lex_white c \<and> \<not> lex_quote c \<and> c \<noteq> CHR 0x5C"
  by (auto simp: safe_char_def lex_white_def lex_quote_def Let_def)

lemma shlex_safe: "list_all safe_char s \<Longrightarrow> shlex_loop LWord tok q (s @ cs) = shlex_loop LWord (tok @ s) q cs"
  by (induction s arbitrary: tok) (auto dest: safe_char_plain)

lemma shlex_quoted:
  "shlex_loop (LQuote (CHR 0x27)) tok q
     (concat (map (\<lambda>c. if c = CHR 0x27 then [CHR 0x27, CHR 0x22, CHR 0x27, CHR 0x22, CHR 0x27] else [c]) s) @
      CHR 0x27 # cs) = shlex_loop LWord (tok @ s) True cs"
  by (induction s arbitrary: tok q) (auto simp: lex_white_def lex_quote_def)

lemma shlex_quote_word:
  "\<exists>q. (s = [] \<longrightarrow> q) \<and> (\<forall>cs. shlex_loop LSpace [] False (shlex_quote s @ cs) = shlex_loop LWord s q cs)"
proof (cases "s \<noteq> [] \<and> list_all safe_char s")
  case True
  then obtain c s' where s: "s = c # s'" by (cases s) auto
  with True have "shlex_loop LSpace [] False (shlex_quote s @ cs) = shlex_loop LWord s False cs" for cs
    using shlex_safe [of s' "[c]" False cs] safe_char_plain [of c] by (simp add: shlex_quote_def)
  with True show ?thesis by blast
next
  case False
  have "shlex_loop LSpace [] False (shlex_quote s @ cs) = shlex_loop LWord s True cs" for cs
    using False shlex_quoted [of "[]" False s cs]
    by (cases "s = []") (auto simp: shlex_quote_def lex_white_def lex_quote_def)
  then show ?thesis by blast
qed

text \<open>Splitting what \<^verbatim>\<open>shlex.join\<close> prints gives the arguments back, whatever characters they contain.\<close>

lemma shlex_split_join: "shlex_split (shlex_join xs) = Inr xs"
proof -
  have "shlex_loop LSpace [] False (shlex_join xs) = Inr xs"
  proof (induction xs)
    case Nil
    show ?case by (simp add: shlex_join_def)
  next
    case (Cons x xs)
    obtain q where q: "x = [] \<longrightarrow> q"
      "\<And>cs. shlex_loop LSpace [] False (shlex_quote x @ cs) = shlex_loop LWord x q cs"
      using shlex_quote_word [of x] by blast
    show ?case
    proof (cases xs)
      case Nil
      then show ?thesis using q(2) [of "[]"] q(1) by (auto simp: shlex_join_def)
    next
      case (Cons y ys)
      then have "shlex_join (x # xs) = shlex_quote x @ CHR 0x20 # shlex_join xs" by (simp add: shlex_join_def)
      then show ?thesis
        using q Cons.IH by (auto simp: lex_white_def)
    qed
  qed
  then show ?thesis by (simp add: shlex_split_def)
qed

section \<open>os.path.expandvars\<close>

definition word_char :: "char \<Rightarrow> bool" where
  "word_char c \<longleftrightarrow>
     (let n = (of_char c :: nat) in
      48 \<le> n \<and> n \<le> 57 \<or> 65 \<le> n \<and> n \<le> 90 \<or> 97 \<le> n \<and> n \<le> 122 \<or> n = 95)"

text \<open>What follows a dollar sign: the name of a variable, the text it takes and the rest.\<close>

definition var_at :: "string \<Rightarrow> (string \<times> string \<times> string) option" where
  "var_at cs =
     (if takeWhile word_char cs \<noteq> []
      then Some (takeWhile word_char cs, takeWhile word_char cs, dropWhile word_char cs)
      else if cs \<noteq> [] \<and> hd cs = CHR 0x7B \<and> CHR 0x7D \<in> set (tl cs)
      then (let name = takeWhile (\<lambda>c. c \<noteq> CHR 0x7D) (tl cs) in
        Some (name, [CHR 0x7B] @ name @ [CHR 0x7D], tl (dropWhile (\<lambda>c. c \<noteq> CHR 0x7D) (tl cs))))
      else None)"

lemma length_var_at: "var_at cs = Some (name, txt', rest) \<Longrightarrow> length rest \<le> length cs"
proof -
  have "length (tl (dropWhile P (tl cs))) \<le> length cs" for P
    using length_dropWhile_le [of P "tl cs"] by simp
  then show "var_at cs = Some (name, txt', rest) \<Longrightarrow> length rest \<le> length cs"
    using length_dropWhile_le [of word_char cs] by (auto simp: var_at_def Let_def split: if_splits)
qed

function expandvars :: "string dict \<Rightarrow> string \<Rightarrow> string" where
  "expandvars env [] = []"
| "expandvars env (c # cs) =
     (if c \<noteq> CHR ''$'' then c # expandvars env cs
      else (case var_at cs of
          None \<Rightarrow> c # expandvars env cs
        | Some (name, matched, rest) \<Rightarrow>
            (case map_of env name of
               Some v \<Rightarrow> v @ expandvars env rest
             | None \<Rightarrow> c # matched @ expandvars env rest)))"
  by pat_completeness auto
termination
  by (relation "measure (\<lambda>(env, s). length s)") (auto dest: length_var_at simp: le_imp_less_Suc)

lemma expandvars_plain: "CHR ''$'' \<notin> set s \<Longrightarrow> expandvars env s = s"
  by (induction s) auto

end
