(* ===== verification/Docker_Run.thy ===== *)
theory Docker_Run
  imports Find_Root External_Mounts Py_Files Py_Shell Docker_Cleanup Event_Handler
begin

text \<open>
  \<^verbatim>\<open>scripts/docker_run.py\<close>: collects mounts, environment and arguments and runs the container. The facts
  of the host (users, groups, terminal, limits, name) are a record; \<^verbatim>\<open>docker\<close>, \<^verbatim>\<open>git\<close> and \<^verbatim>\<open>xhost\<close> are behind
  \<open>run\<close>; the order in which Python iterates over the set of mounts is the parameter \<open>order\<close>. The
  session holds the two background threads: the listener of the event handler, whose steps while
  the script waits are the parameter \<open>serve\<close>, and the cleanup with the arguments it was given.
\<close>

record host =
  h_uid :: int
  h_gid :: int
  h_user_of :: "int \<Rightarrow> string option"
  h_group_of :: "int \<Rightarrow> string option"
  h_gid_of :: "string \<Rightarrow> int option"
  h_pw_dir :: string
  h_stdin_tty :: bool
  h_stdout_tty :: bool
  h_hostname :: string
  h_nofile :: "int \<times> int"
  h_port :: int

text \<open>The cleanup thread: not started, running with its arguments, or with its event set.\<close>

datatype cleanup_thread = NoCleanup | Cleaning cleanup_args | CleanupCancelled cleanup_args

record session =
  s_world :: world
  s_listener :: "listener option"
  s_cleanup :: cleanup_thread

type_synonym 'a run_script = "(session, 'a) io"

definition in_world :: "'a script \<Rightarrow> 'a run_script" where
  "in_world m = (\<lambda>s. case m (s_world s) of (r, w) \<Rightarrow> (r, s\<lparr>s_world := w\<rparr>))"

section \<open>Paths\<close>

text \<open>\<^verbatim>\<open>os.environ.get(k) or default\<close> and \<^verbatim>\<open>path_from_env\<close>: an empty value counts as absent.\<close>

definition env_or :: "world \<Rightarrow> string \<Rightarrow> string option" where
  "env_or w k = (case map_of (w_env w) k of Some v \<Rightarrow> if v = [] then None else Some v | None \<Rightarrow> None)"

definition path_from_env :: "string \<Rightarrow> ppath \<Rightarrow> world \<Rightarrow> ppath" where
  "path_from_env env_var dflt w = (case env_or w env_var of Some v \<Rightarrow> to_path v | None \<Rightarrow> dflt)"

text \<open>\<^verbatim>\<open>Path.home()\<close>\<close>

definition path_home :: "host \<Rightarrow> world \<Rightarrow> ppath" where
  "path_home h w =
     (let s = (case map_of (w_env w) ''HOME'' of Some v \<Rightarrow> v | None \<Rightarrow> h_pw_dir h)
      in to_path (if s = [] then ''/'' else s))"

text \<open>The default is computed first, so outside of a project the script fails even when the variable is set.\<close>

definition host_project_root :: "ppath script" where
  "host_project_root =
     io_catch
       (io_bind find_project_root (\<lambda>root. query (path_from_env ''DEVKIT_HOST_PROJECT_ROOT'' root)))
       (\<lambda>e. case e of
          FileNotFoundError m \<Rightarrow>
            Some (io_bind (print_to Stderr (''Error: '' @ m @ [CHR 0x0A])) (\<lambda>_. sys_exit 1))
        | _ \<Rightarrow> None)"

record run_paths =
  host_root :: ppath
  container_root :: ppath
  command_root :: ppath
  host_home :: ppath
  command_home :: ppath
  container_home :: ppath
  host_tmp :: ppath
  container_tmp :: ppath

definition paths_of :: "host \<Rightarrow> ppath \<Rightarrow> world \<Rightarrow> run_paths" where
  "paths_of h proot w =
     (let hhome = path_from_env ''DEVKIT_HOST_HOME'' (path_home h w) w;
          tmpdir = to_path (case map_of (w_env w) ''TMPDIR'' of Some v \<Rightarrow> v | None \<Rightarrow> ''/tmp'');
          htmp = path_from_env ''DEVKIT_HOST_TMP_DIR'' tmpdir w
      in \<lparr>host_root = proot,
          container_root = path_from_env ''DEVKIT_CONTAINER_PROJECT_ROOT'' proot w,
          command_root = path_from_env ''DEVKIT_COMMAND_PROJECT_ROOT'' proot w,
          host_home = hhome,
          command_home = path_from_env ''DEVKIT_COMMAND_HOME'' hhome w,
          container_home = path_from_env ''DEVKIT_CONTAINER_HOME'' hhome w,
          host_tmp = htmp,
          container_tmp = path_from_env ''DEVKIT_CONTAINER_TMP_DIR'' htmp w\<rparr>)"

section \<open>User, home directory, git\<close>

definition home_files :: "string list" where
  "home_files = [''.gitconfig'']"

definition home_dirs :: "string list" where
  "home_dirs =
     [''.cache/bazel'', ''.cache/bazelisk'', ''.cache/buf'', ''.cache/go-build'', ''.cache/nvim'',
      ''.cache/pip'', ''.cache/pip-tools'', ''.cache/pre-commit'', ''.cache/pylint'', ''.config/gcloud'',
      ''.config/google-chrome'', ''.config/matplotlib'', ''.devkit/logs'', ''.docker'', ''.gemini'',
      ''.local/pre-commit'', ''.local/share/nvim'', ''.local/state'', ''.npm'', ''.vim'']"

record user_info =
  user_name :: string
  user_id :: int
  group_name :: string
  group_id :: int

text \<open>\<^verbatim>\<open>os.environ.get(k) or lookup\<close> with a lookup that raises KeyError, and \<^verbatim>\<open>int(os.environ.get(k) or n)\<close>.\<close>

definition name_or :: "string \<Rightarrow> string option \<Rightarrow> world \<Rightarrow> string res" where
  "name_or k found w =
     (case env_or w k of
        Some v \<Rightarrow> Inr v
      | None \<Rightarrow> (case found of Some n \<Rightarrow> Inr n | None \<Rightarrow> Inl (KeyError ''uid or gid not found'')))"

definition id_or :: "string \<Rightarrow> int \<Rightarrow> world \<Rightarrow> int res" where
  "id_or k n w =
     (case env_or w k of
        Some v \<Rightarrow> (case parse_int v of Some i \<Rightarrow> Inr i | None \<Rightarrow> Inl (ValueError ''invalid literal for int()''))
      | None \<Rightarrow> Inr n)"

definition user_info_of :: "host \<Rightarrow> world \<Rightarrow> user_info res" where
  "user_info_of h w =
     res_bind (name_or ''USER'' (h_user_of h (h_uid h)) w) (\<lambda>un.
     res_bind (id_or ''USER_ID'' (h_uid h) w) (\<lambda>ui.
     res_bind (name_or ''GROUP'' (h_group_of h (h_gid h)) w) (\<lambda>gn.
     res_bind (id_or ''GROUP_ID'' (h_gid h) w) (\<lambda>gi.
       Inr \<lparr>user_name = un, user_id = ui, group_name = gn, group_id = gi\<rparr>))))"

definition session_bus_socket :: "int \<Rightarrow> ppath" where
  "session_bus_socket uid = path_div (path_div (to_path ''/run/user'') (to_path (show_int uid))) (to_path ''bus'')"

definition system_mounts :: "world \<Rightarrow> ppath list" where
  "system_mounts w =
     [to_path ''/var/run/docker.sock'', to_path ''/run/dbus/system_bus_socket''] @
     (if path_exists (w_fs w) (w_cwd w) (to_path ''/etc/gitconfig'') then [to_path ''/etc/gitconfig''] else [])"

definition prepare_home :: "ppath \<Rightarrow> ppath list script" where
  "prepare_home home =
     io_bind (io_for home_dirs (\<lambda>rel. path_mkdir (path_div home (to_path rel)))) (\<lambda>_.
     io_bind (io_for home_files (\<lambda>rel.
       io_bind (path_mkdir (path_parent (path_div home (to_path rel)))) (\<lambda>_.
         path_touch (path_div home (to_path rel))))) (\<lambda>_.
       io_return (map (\<lambda>rel. path_div home (to_path rel)) (home_dirs @ home_files))))"

text \<open>The git directory when it is outside of the working directory: a mount and a variable.\<close>

definition git_mounts :: "runner \<Rightarrow> (ppath list \<times> string list) script" where
  "git_mounts run =
     io_catch
       (io_bind (run_unchecked run [''git'', ''rev-parse'', ''--is-inside-work-tree'']) (\<lambda>(rc, out, err).
          if rc = 0 \<and> strip out = ''true'' then
            io_bind (run_checked run [''git'', ''rev-parse'', ''--absolute-git-dir'']) (\<lambda>(out, err).
            io_bind (query (\<lambda>w. PPath ''/'' (w_cwd w))) (\<lambda>cwd.
              let git_dir = to_path (strip out) in
              io_return (if is_relative_to git_dir cwd then ([], [])
                         else ([git_dir], [''--env=GIT_DISCOVERY_ACROSS_FILESYSTEM=1'']))))
          else io_return ([], [])))
       (\<lambda>e. if is_CalledProcessError e \<or> is_FileNotFound e then Some (io_return ([], [])) else None)"

definition group_id_or_0 :: "host \<Rightarrow> string \<Rightarrow> int" where
  "group_id_or_0 h g = (case h_gid_of h g of Some i \<Rightarrow> i | None \<Rightarrow> 0)"

section \<open>Arguments of docker run\<close>

definition tty_args :: "host \<Rightarrow> string list" where
  "tty_args h =
     (if h_stdin_tty h \<and> h_stdout_tty h then [''--interactive'', ''--tty'']
      else if \<not> h_stdin_tty h then [''--interactive''] else [])"

text \<open>\<^verbatim>\<open>list.extend(value)\<close> on a JSON value: a string gives its characters, a dict its keys.\<close>

fun json_iter :: "json \<Rightarrow> json list res" where
  "json_iter (JList xs) = Inr xs"
| "json_iter (JStr s) = Inr (map JStr (cps s))"
| "json_iter (JObj kvs) = Inr (map (JStr \<circ> fst) kvs)"
| "json_iter v = Inl (TypeError ''object is not iterable'')"

definition json_run_args :: "ppath \<Rightarrow> json list script" where
  "json_run_args devkit_json_path =
     io_catch
       (query_res (\<lambda>w.
          if \<not> path_exists (w_fs w) (w_cwd w) devkit_json_path then Inr []
          else res_bind (read_text (w_fs w) (w_cwd w) devkit_json_path) (\<lambda>s.
               res_bind (json_loads s) (\<lambda>data.
               res_bind (py_get data ''docker'' (JObj [])) (\<lambda>d.
               res_bind (py_get d ''run'' (JList [])) (\<lambda>run_args.
                 if py_truth run_args then json_iter run_args else Inr []))))))
       (\<lambda>e. if is_Exception e then Some (io_return []) else None)"

definition env_run_args :: "world \<Rightarrow> string list res" where
  "env_run_args w = (case env_or w ''DEVKIT_DOCKER_RUN_ARGS'' of Some s \<Rightarrow> shlex_split s | None \<Rightarrow> Inr [])"

fun expand_arg :: "string dict \<Rightarrow> json \<Rightarrow> string res" where
  "expand_arg env (JStr s) = Inr (expandvars env s)"
| "expand_arg env v = Inl (TypeError ''expected str, bytes or os.PathLike object'')"

definition evaluated_args :: "host \<Rightarrow> ppath \<Rightarrow> string list script" where
  "evaluated_args h devkit_json_path =
     io_bind (json_run_args devkit_json_path) (\<lambda>json_args.
     io_bind (query_res env_run_args) (\<lambda>env_args.
       query_res (\<lambda>w. res_map (expand_arg (w_env w)) (map JStr (tty_args h) @ json_args @ map JStr env_args))))"

definition volume_arg :: "run_paths \<Rightarrow> ppath \<Rightarrow> string" where
  "volume_arg ps path =
     (if is_relative_to path (command_home ps)
      then (let suffix = relative_to path (command_home ps) in
        ''--volume='' @ path_str (path_div (host_home ps) suffix) @ '':'' @ path_str (path_div (container_home ps) suffix))
      else ''--volume='' @ path_str path @ '':'' @ path_str path)"

definition docker_cmd ::
    "host \<Rightarrow> ppath \<Rightarrow> loc \<Rightarrow> run_paths \<Rightarrow> user_info \<Rightarrow> string list \<Rightarrow> ppath list \<Rightarrow> string list \<Rightarrow> string list \<Rightarrow> string list" where
  "docker_cmd h scripts_dir cwd ps u additional_env mounts evaluated unknown_args =
     [''docker'', ''run'', ''--rm'', ''--ulimit'',
      ''nofile='' @ show_int (fst (h_nofile h)) @ '':'' @ show_int (snd (h_nofile h)),
      ''--volume='' @ path_str (host_root ps) @ '':'' @ path_str (container_root ps),
      ''--workdir='' @ path_str (PPath ''/'' cwd),
      ''--env=HOME='' @ path_str (container_home ps),
      ''--env=DEVKIT_SOCKET_PORT='' @ show_int (h_port h),
      ''--env=GOOGLE_CLOUD_PROJECT'', ''--env=GEMINI_API_KEY'', ''--env=AWS_SECRET_ACCESS_KEY'',
      ''--env=AWS_ACCESS_KEY_ID'', ''--env=AWS_SESSION_TOKEN'', ''--env=AWS_PAGER'', ''--env=GH_TOKEN'',
      ''--env=USER='' @ user_name u,
      ''--env=USER_ID='' @ show_int (user_id u),
      ''--env=GROUP='' @ group_name u,
      ''--env=GROUP_ID='' @ show_int (group_id u),
      ''--env=TMPDIR='' @ path_str (container_tmp ps),
      ''--env=TERM=xterm-256color'', ''--env=COLORTERM'',
      ''--env=DOCKER_GROUP=docker'',
      ''--env=DOCKER_GROUP_ID='' @ show_int (group_id_or_0 h ''docker''),
      ''--env=NOBODY_GROUP=nobody'',
      ''--env=DBUS_SYSTEM_BUS_ADDRESS=unix:path=/run/dbus/system_bus_socket'',
      ''--env=DBUS_SESSION_BUS_ADDRESS=unix:path='' @ path_str (session_bus_socket (user_id u)),
      ''--env=DEVKIT_NOFILE_SOFT='' @ show_int (fst (h_nofile h)),
      ''--env=DEVKIT_NOFILE_HARD='' @ show_int (snd (h_nofile h)),
      ''--env=ADDITIONAL_PATH=''] @
     additional_env @ map (volume_arg ps) mounts @
     [''--net=host'', ''--ipc=host'', ''--hostname='' @ h_hostname h,
      ''--volume='' @ path_str (host_tmp ps) @ '':'' @ path_str (container_tmp ps),
      ''--entrypoint='' @ path_str (path_div scripts_dir (to_path ''entrypoint_docker''))] @
     evaluated @ unknown_args"

section \<open>Running the container\<close>

text \<open>
  \<^verbatim>\<open>start_container_event_handler()\<close> and \<^verbatim>\<open>start_background_cleanup(devkit_json_path, [...])\<close> with its
  default batch size and threshold.
\<close>

definition background_cleanup_args :: "ppath \<Rightarrow> ppath \<Rightarrow> cleanup_args" where
  "background_cleanup_args devkit_json_path scripts_dir =
     \<lparr>ca_config_path = devkit_json_path,
      ca_search_paths = [path_div (path_parent scripts_dir) (to_path ''images'')],
      ca_batch_size = CLEANUP_BATCH_SIZE, ca_threshold_days = CLEANUP_THRESHOLD_DAYS\<rparr>"

definition start_threads :: "ppath \<Rightarrow> ppath \<Rightarrow> unit run_script" where
  "start_threads devkit_json_path scripts_dir = (\<lambda>s. (Inr (),
     s\<lparr>s_listener := Some start_container_event_handler,
       s_cleanup := Cleaning (background_cleanup_args devkit_json_path scripts_dir)\<rparr>))"

text \<open>
  \<^verbatim>\<open>SocketCancelEvent.set()\<close> as the script calls it; the listener may run between its two steps. What the
  listener does while a program runs is \<open>serve 0\<close> and \<open>serve 1\<close>, within \<^verbatim>\<open>set()\<close> it is \<open>serve 2\<close> and within
  \<^verbatim>\<open>join(timeout=1.0)\<close> it is \<open>serve 3\<close>.
\<close>

definition socket_set :: "(listener \<Rightarrow> listener) \<Rightarrow> listener \<Rightarrow> listener" where
  "socket_set between l =
     (case cancel_step l of None \<Rightarrow> l
      | Some l1 \<Rightarrow> (case cancel_step (between l1) of None \<Rightarrow> between l1 | Some l2 \<Rightarrow> l2))"

definition cancel_threads :: "(nat \<Rightarrow> listener \<Rightarrow> listener) \<Rightarrow> unit run_script" where
  "cancel_threads serve = (\<lambda>s. (Inr (),
     s\<lparr>s_cleanup := (case s_cleanup s of Cleaning a \<Rightarrow> CleanupCancelled a | t \<Rightarrow> t),
       s_listener := map_option (serve 3 \<circ> socket_set (serve 2)) (s_listener s)\<rparr>))"

definition with_listener :: "(listener \<Rightarrow> listener) \<Rightarrow> 'a script \<Rightarrow> 'a run_script" where
  "with_listener meanwhile m = (\<lambda>s. case in_world m s of (r, s') \<Rightarrow>
     (r, s'\<lparr>s_listener := map_option meanwhile (s_listener s')\<rparr>))"

definition run_container :: "runner \<Rightarrow> (nat \<Rightarrow> listener \<Rightarrow> listener) \<Rightarrow> string list \<Rightarrow> unit run_script" where
  "run_container run serve cmd =
     io_bind
       (io_finally
         (io_catch (io_bind (with_listener (serve 1) (run_unchecked run cmd)) (\<lambda>(rc, out, err). io_return rc))
           (\<lambda>e. if e = KeyboardInterrupt then Some (io_return (128 + 2)) else None))
         (cancel_threads serve))
       (\<lambda>return_code. in_world (sys_exit return_code))"

definition allow_display :: "runner \<Rightarrow> string \<Rightarrow> string list \<Rightarrow> unit script" where
  "allow_display run user cmd =
     (if list_ex (str_contains ''DISPLAY'') cmd
      then io_bind (run_checked run [''xhost'', ''+local:'' @ user]) (\<lambda>_. io_return ())
      else io_return ())"

text \<open>
  Everything before the threads are started: the command line, the user and the path of the
  configuration. (The listener is started just before the command line is put together, and
  nothing in between can raise.)
\<close>

definition prepare_run ::
    "runner \<Rightarrow> (ppath list \<Rightarrow> ppath list) \<Rightarrow> host \<Rightarrow> ppath \<Rightarrow> string list
     \<Rightarrow> (string list \<times> string \<times> ppath) script" where
  "prepare_run run order h scripts_dir unknown_args =
     io_bind host_project_root (\<lambda>root.
     io_bind (query (paths_of h root)) (\<lambda>ps.
     io_bind (query system_mounts) (\<lambda>sys.
     io_bind (query_res (user_info_of h)) (\<lambda>u.
     io_bind (prepare_home (command_home ps)) (\<lambda>home.
     io_bind (git_mounts run) (\<lambda>(git, git_env).
       let nobody = group_id_or_0 h ''nobody'';
           additional_env = git_env @
             (if nobody > 0 then [''--env=NOBODY_GROUP_ID='' @ show_int nobody] else []);
           mounts = sys @ [session_bus_socket (user_id u)] @ home @ git;
           devkit_json_path = path_div (command_root ps) (to_path ''devkit.json'')
       in
     io_bind (query (\<lambda>w. get_minimal_mounts (w_fs w) (w_cwd w) (command_root ps) mounts)) (\<lambda>minimal.
     io_bind (evaluated_args h devkit_json_path) (\<lambda>evaluated.
     io_bind (query w_cwd) (\<lambda>cwd.
       io_return (docker_cmd h scripts_dir cwd ps u additional_env (order minimal) evaluated unknown_args,
                  user_name u, devkit_json_path))))))))))"

definition docker_run_main ::
    "runner \<Rightarrow> (ppath list \<Rightarrow> ppath list) \<Rightarrow> (nat \<Rightarrow> listener \<Rightarrow> listener) \<Rightarrow> host \<Rightarrow> ppath \<Rightarrow> string list
     \<Rightarrow> unit run_script" where
  "docker_run_main run order serve h scripts_dir unknown_args =
     io_bind (in_world (prepare_run run order h scripts_dir unknown_args)) (\<lambda>(cmd, user, devkit_json_path).
     io_bind (start_threads devkit_json_path scripts_dir) (\<lambda>_.
     io_bind (with_listener (serve 0) (allow_display run user cmd)) (\<lambda>_.
       run_container run serve cmd)))"

end
