(* ===== verification/Docker_Run_Spec.thy ===== *)
theory Docker_Run_Spec
  imports Docker_Run Event_Handler_Spec
begin

text \<open>
  How a run of \<^verbatim>\<open>docker_run.py\<close> ends: the exit code, and that the background threads are cancelled
  whenever the container was started: the listener is then in a reachable state of the event handler
  and ends by itself.
\<close>

section \<open>What is run before the container\<close>

definition not_docker :: "effect \<Rightarrow> bool" where
  "not_docker e = (case e of Exec c \<Rightarrow> hd c \<noteq> ''docker'' | _ \<Rightarrow> True)"

lemma not_docker_simps [simp]:
  "not_docker (Out s m)" "not_docker (Exec (c # cs)) \<longleftrightarrow> c \<noteq> ''docker''"
  by (simp_all add: not_docker_def)

lemma extends_change: "keeps (extends P) (change_fs f)"
  by (auto simp: keeps_def change_fs_def extends_def split: sum.split)

lemma extends_find_root: "keeps (extends P) find_project_root"
  by (simp add: find_project_root_def)

lemma extends_host_root: "keeps (extends not_docker) host_project_root"
  unfolding host_project_root_def
  by (intro extends_rules extends_find_root) (auto intro!: extends_rules split: exn.splits)

lemma extends_prepare_home: "keeps (extends P) (prepare_home d)"
  unfolding prepare_home_def path_mkdir_def path_touch_def by (intro extends_rules extends_change)

lemma extends_git: "keeps (extends not_docker) (git_mounts run)"
  unfolding git_mounts_def Let_def
  by (intro extends_rules) (auto intro!: extends_rules split: if_splits prod.split)

lemma extends_evaluated: "keeps (extends P) (evaluated_args h p)"
  unfolding evaluated_args_def json_run_args_def
  by (intro extends_rules) (auto intro: extends_rules split: if_splits)

lemma extends_prepare: "keeps (extends not_docker) (prepare_run run order h d us)"
  unfolding prepare_run_def Let_def
  by (intro extends.keeps_bind extends_host_root keeps_query extends_prepare_home extends_git)
    (auto intro!: extends.keeps_bind extends.keeps_return extends_evaluated keeps_query split: prod.split)

lemma extends_display: "keeps (extends not_docker) (allow_display run user cmd)"
  unfolding allow_display_def by (auto intro!: extends_rules)

lemma in_world_extends:
  assumes "keeps (extends P) m" and "in_world m s = (r, s')"
  shows "extends P (s_world s) (s_world s') \<and> s_cleanup s' = s_cleanup s \<and> s_listener s' = s_listener s"
proof -
  obtain q w where m: "m (s_world s) = (q, w)" by fastforce
  with assms keepsD [OF assms(1) m] show ?thesis by (auto simp: in_world_def)
qed

lemma with_listener_extends:
  assumes "keeps (extends P) m" and "with_listener f m s = (r, s')"
  shows "extends P (s_world s) (s_world s') \<and> s_cleanup s' = s_cleanup s \<and>
    s_listener s' = map_option f (s_listener s)"
proof -
  obtain q s1 where m: "in_world m s = (q, s1)" by fastforce
  from in_world_extends [OF assms(1) this] m assms(2) show ?thesis by (auto simp: with_listener_def)
qed

section \<open>The container\<close>

lemma run_container_cases:
  "run_container run serve cmd s =
     (case run (s_world s) cmd of (p, fs) \<Rightarrow>
       (Inl (case p of Exited rc out err \<Rightarrow> SystemExit rc | Interrupted \<Rightarrow> SystemExit 130
             | NoSuchProgram \<Rightarrow> FileNotFoundError (hd cmd)),
        s\<lparr>s_world := (s_world s)\<lparr>w_fs := fs, w_trace := w_trace (s_world s) @ [Exec cmd]\<rparr>,
          s_listener := map_option (serve 3 \<circ> socket_set (serve 2) \<circ> serve 1) (s_listener s),
          s_cleanup := (case s_cleanup s of Cleaning a \<Rightarrow> CleanupCancelled a | t \<Rightarrow> t)\<rparr>))"
  by (simp add: run_container_def with_listener_def in_world_def run_unchecked_def cancel_threads_def sys_exit_def
      io_bind_def io_catch_def io_finally_def io_return_def io_raise_def Let_def option.map_comp comp_assoc
      split: prod.split proc.split)

text \<open>
  Once the container is started, the script exits with the exit code of docker, with 130 after
  Ctrl-C, or with the FileNotFoundError of a missing docker.
\<close>

lemma container_exit_code:
  "case run (s_world s) cmd of (p, fs) \<Rightarrow>
     fst (run_container run serve cmd s) =
       Inl (case p of Exited rc out err \<Rightarrow> SystemExit rc | Interrupted \<Rightarrow> SystemExit 130
            | NoSuchProgram \<Rightarrow> FileNotFoundError (hd cmd)) \<and>
     execs (w_trace (s_world (snd (run_container run serve cmd s)))) = execs (w_trace (s_world s)) @ [cmd]"
  by (simp add: run_container_cases split: prod.split)

section \<open>The listener of a session\<close>

text \<open>What \<open>serve\<close> may be: the listener thread, left alone, makes some steps.\<close>

definition thread_steps :: "string option \<Rightarrow> (nat \<Rightarrow> listener \<Rightarrow> listener) \<Rightarrow> bool" where
  "thread_steps start_time serve \<longleftrightarrow> (\<forall>i l. (container_event_listener start_time)\<^sup>*\<^sup>* l (serve i l))"

lemma reachable_serve:
  assumes "thread_steps start_time serve" and "handler_reachable start_time l"
  shows "handler_reachable start_time (serve i l)"
proof -
  have "(container_event_listener start_time)\<^sup>*\<^sup>* l (serve i l)" using assms(1) by (simp add: thread_steps_def)
  then show ?thesis using assms(2) by (induction rule: rtranclp_induct) (auto intro: handler_reachable.thread)
qed

lemma steps_keep_canceller:
  "(container_event_listener start_time)\<^sup>*\<^sup>* l l' \<Longrightarrow> l_canceller l' = l_canceller l"
  by (induction rule: rtranclp_induct) (auto dest: listener_keeps_canceller)

lemma serve_canceller: "thread_steps start_time serve \<Longrightarrow> l_canceller (serve i l) = l_canceller l"
  using steps_keep_canceller unfolding thread_steps_def by blast

lemma socket_set_reachable:
  assumes T: "thread_steps start_time serve" and R: "handler_reachable start_time l"
    and "l_canceller l = NotCancelled"
  shows "handler_reachable start_time (socket_set (serve i) l) \<and>
    l_canceller (socket_set (serve i) l) = CancelDone"
proof -
  let ?l1 = "l\<lparr>l_event := True, l_canceller := EventSet\<rparr>"
  have c: "cancel_step l = Some ?l1" using assms(3) by (simp add: cancel_step.simps)
  have "l_canceller (serve i ?l1) = EventSet" using serve_canceller [OF T] by simp
  then obtain l2 where l2: "cancel_step (serve i ?l1) = Some l2" "l_canceller l2 = CancelDone"
    by (simp add: cancel_step.simps)
  moreover have "handler_reachable start_time (serve i ?l1)"
    by (rule reachable_serve [OF T handler_reachable.cancel [OF R c]])
  ultimately show ?thesis using c by (auto simp: socket_set_def intro: handler_reachable.cancel)
qed

lemma session_listener_cancelled:
  assumes T: "thread_steps start_time serve"
  defines "l \<equiv> (serve 3 \<circ> socket_set (serve 2) \<circ> serve 1) (serve 0 start_container_event_handler)"
  shows "handler_reachable start_time l" and "l_canceller l = CancelDone"
proof -
  let ?l1 = "serve 1 (serve 0 start_container_event_handler)"
  have r: "handler_reachable start_time ?l1"
    by (intro reachable_serve [OF T] handler_reachable.init)
  have "l_canceller ?l1 = NotCancelled"
    by (simp add: serve_canceller [OF T] start_container_event_handler_def)
  from socket_set_reachable [OF T r this, of 2] reachable_serve [OF T, of _ 3]
  show "handler_reachable start_time l" "l_canceller l = CancelDone"
    by (simp_all add: l_def serve_canceller [OF T])
qed

lemma no_docker_execs:
  assumes "extends not_docker w w'"
  shows "list_all (\<lambda>c. hd c \<noteq> ''docker'') (drop (length (execs (w_trace w))) (execs (w_trace w')))"
proof -
  from assms obtain tr where tr: "w_trace w' = w_trace w @ tr" "list_all not_docker tr" by (auto simp: extends_def)
  have "list_all (\<lambda>c. hd c \<noteq> ''docker'') (execs tr)"
    using tr(2) by (auto simp: execs_def list_all_iff not_docker_def split: effect.splits)
  with tr(1) show ?thesis by simp
qed

text \<open>A run either ends before docker is run, or it is the run of the container with both threads started.\<close>

lemma docker_run_main_cases:
  fixes s :: session
  obtains (early) e s' where "docker_run_main run order serve h d us s = (Inl e, s')"
      and "extends not_docker (s_world s) (s_world s')"
  | (started) cmd s2 json where "docker_run_main run order serve h d us s = run_container run serve cmd s2"
      and "s_listener s2 = Some (serve 0 start_container_event_handler)"
      and "s_cleanup s2 = Cleaning (background_cleanup_args json d)"
proof -
  obtain r1 s1 where p: "in_world (prepare_run run order h d us) s = (r1, s1)" by fastforce
  note p1 = in_world_extends [OF extends_prepare p]
  show thesis
  proof (cases r1)
    case (Inl e)
    with p p1 early show thesis by (simp add: docker_run_main_def io_bind_def)
  next
    case (Inr c)
    obtain cmd user json where c: "c = (cmd, user, json)" by (cases c)
    let ?s1 = "snd (start_threads json d s1)"
    obtain r2 s2 where a: "with_listener (serve 0) (allow_display run user cmd) ?s1 = (r2, s2)" by fastforce
    note a1 = with_listener_extends [OF extends_display a]
    have m: "docker_run_main run order serve h d us s =
        (case r2 of Inl e \<Rightarrow> (Inl e, s2) | Inr _ \<Rightarrow> run_container run serve cmd s2)"
      using p Inr c a by (simp add: docker_run_main_def io_bind_def start_threads_def split: sum.split)
    have e12: "extends not_docker (s_world s) (s_world s2)"
      using extends.R_trans p1 a1 by (fastforce simp: start_threads_def)
    show thesis
      using m e12 a1 early started [of cmd s2 json] by (cases r2) (simp_all add: start_threads_def)
  qed
qed

section \<open>Properties\<close>

text \<open>
  A run of \<^verbatim>\<open>docker_run.py\<close> never ends normally (it exits or raises). If it ran docker at all, both
  background threads are cancelled at its end: the event of the cleanup is set, and the listener
  is in a reachable state of the event handler after \<^verbatim>\<open>set()\<close>, from where it makes at most four more
  steps, whatever it had done in the meantime.
\<close>

lemma threads_cancelled_with_container:
  assumes "thread_steps start_time serve"
    and "docker_run_main run order serve h scripts_dir unknown_args s = (r, s')"
  shows "(\<exists>e. r = Inl e) \<and>
    (list_all (\<lambda>c. hd c \<noteq> ''docker'') (drop (length (execs (w_trace (s_world s)))) (execs (w_trace (s_world s')))) \<or>
     (\<exists>json. s_cleanup s' = CleanupCancelled (background_cleanup_args json scripts_dir)) \<and>
     (\<exists>l. s_listener s' = Some l \<and> handler_reachable start_time l \<and> l_canceller l = CancelDone \<and>
        (\<forall>n l'. (container_event_listener start_time ^^ n) l l' \<longrightarrow> n \<le> 4)))"
  using assms(2)
proof (cases rule: docker_run_main_cases [of run order serve h scripts_dir unknown_args s])
  case (early e s1)
  then show ?thesis using assms(2) no_docker_execs by auto
next
  case (started cmd s2 json)
  let ?l = "(serve 3 \<circ> socket_set (serve 2) \<circ> serve 1) (serve 0 start_container_event_handler)"
  note l = session_listener_cancelled [OF assms(1)]
  have "n \<le> 4" if "(container_event_listener start_time ^^ n) ?l l'" for n l'
    using cancelled_run_bounded [OF that reachable_inv [OF l(1)] l(2)] steps_left_le [of ?l] by simp
  with l started assms(2) show ?thesis by (auto simp: run_container_cases split: prod.splits)
qed

text \<open>A project at \<^verbatim>\<open>/p\<close>, a docker that exits with 7 and no git.\<close>

definition demo_host :: host where
  "demo_host =
     \<lparr>h_uid = 1000, h_gid = 1000, h_user_of = (\<lambda>_. Some ''b''), h_group_of = (\<lambda>_. Some ''b''),
      h_gid_of = (\<lambda>_. None), h_pw_dir = ''/home/b'', h_stdin_tty = True, h_stdout_tty = True,
      h_hostname = ''host'', h_nofile = (1024, 4096), h_port = 40000\<rparr>"

definition demo_programs :: runner where
  "demo_programs w cmd = (if hd cmd = ''docker'' then Exited 7 [] [] else NoSuchProgram, w_fs w)"

definition demo_session :: session where
  "demo_session =
     \<lparr>s_world = \<lparr>w_fs = [([''p''], Dir), ([''p'', ''devkit''], Dir)], w_cwd = [''p''], w_env = [], w_trace = []\<rparr>,
      s_listener = None, s_cleanup = NoCleanup\<rparr>"

end
