(* ===== verification/Py_Argparse.thy ===== *)
theory Py_Argparse
  imports Py_Files Py_Regex
begin

text \<open>
  The part of Python's \<^verbatim>\<open>argparse\<close> the scripts rely on, as of Python 3.11 and 3.12: options with one value,
  with a list of values or without a value, \<^verbatim>\<open>action="append"\<close>, the help option, one positional argument with
  \<^verbatim>\<open>nargs="*"\<close>, abbreviated option names, \<^verbatim>\<open>parse_args\<close> and \<^verbatim>\<open>parse_known_args\<close>; and \<^verbatim>\<open>logging.basicConfig\<close> as far as it
  opens the log file. Option values are kept as text; the type of an option is the test whether
  \<^verbatim>\<open>argparse\<close> can convert the text.
\<close>

section \<open>Parsers\<close>

datatype act = Store | StoreMany bool | StoreTrue | AppendOne | ShowHelp

text \<open>\<open>StoreMany True\<close> is \<^verbatim>\<open>nargs="+"\<close>, \<open>StoreMany False\<close> is \<^verbatim>\<open>nargs="*"\<close>.\<close>

record opt_spec =
  o_strings :: "string list"
  o_dest :: string
  o_act :: act
  o_valid :: "string \<Rightarrow> bool"
  o_required :: bool

record arg_parser =
  ap_options :: "opt_spec list"
  ap_positionals :: bool

definition option_strings :: "arg_parser \<Rightarrow> (string \<times> opt_spec) list" where
  "option_strings p = concat (map (\<lambda>opt. map (\<lambda>s. (s, opt)) (o_strings opt)) (ap_options p))"

definition usage_error :: "'a res" where
  "usage_error = Inl (SystemExit 2)"

section \<open>Which arguments are options\<close>

text \<open>
  A known option as written, with the text given in the same argument: whether it follows an equals
  sign, and the text.
\<close>

type_synonym explicit = "(bool \<times> string) option"

datatype token = TArg string | TDashes | TUnknown string | TOpt opt_spec string explicit

fun token_text :: "token \<Rightarrow> string" where
  "token_text (TArg s) = s"
| "token_text TDashes = ''--''"
| "token_text (TUnknown s) = s"
| "token_text (TOpt opt s ex) = s"

fun is_arg :: "token \<Rightarrow> bool" where
  "is_arg (TArg _) = True"
| "is_arg _ = False"

fun is_plain :: "token \<Rightarrow> bool" where
  "is_plain (TArg _) = True"
| "is_plain TDashes = True"
| "is_plain _ = False"

text \<open>\<^verbatim>\<open>_negative_number_matcher\<close>, with ASCII digits.\<close>

definition negative_number :: "string \<Rightarrow> bool" where
  "negative_number s \<longleftrightarrow>
     re_match (Cat [Lit ''-'', Rep 1 is_digit, Many is_digit, Eol]) s \<noteq> None \<or>
     re_match (Cat [Lit ''-'', Many is_digit, Lit ''.'', Rep 1 is_digit, Many is_digit, Eol]) s \<noteq> None"

text \<open>\<^verbatim>\<open>_get_option_tuples\<close>: a long option may be abbreviated, a short one carry its value.\<close>

definition explicit_of :: "string \<Rightarrow> explicit" where
  "explicit_of a = (if CHR ''='' \<in> set a then Some (True, snd (split_once (CHR ''='') a)) else None)"

definition option_tuples :: "arg_parser \<Rightarrow> string \<Rightarrow> token list" where
  "option_tuples p a =
     (if startswith a ''--''
      then map (\<lambda>(s, opt). TOpt opt s (explicit_of a))
             (filter (\<lambda>(s, opt). startswith s (fst (split_once (CHR ''='') a))) (option_strings p))
      else concat (map (\<lambda>(s, opt).
             if s = take 2 a then [TOpt opt s (Some (False, drop 2 a))]
             else if startswith s a then [TOpt opt s None] else []) (option_strings p)))"

definition parse_optional :: "arg_parser \<Rightarrow> string \<Rightarrow> token res" where
  "parse_optional p a =
     (if \<not> startswith a ''-'' then Inr (TArg a)
      else case map_of (option_strings p) a of
        Some opt \<Rightarrow> Inr (TOpt opt a None)
      | None \<Rightarrow>
          if a = ''-'' then Inr (TArg a)
          else (case (if CHR ''='' \<in> set a then map_of (option_strings p) (fst (split_once (CHR ''='') a)) else None) of
            Some opt \<Rightarrow> Inr (TOpt opt (fst (split_once (CHR ''='') a)) (explicit_of a))
          | None \<Rightarrow>
              (case option_tuples p a of
                 [] \<Rightarrow> Inr (if negative_number a \<or> CHR '' '' \<in> set a then TArg a else TUnknown a)
               | [t] \<Rightarrow> Inr t
               | _ \<Rightarrow> usage_error)))"

fun tokens :: "arg_parser \<Rightarrow> string list \<Rightarrow> token list res" where
  "tokens p [] = Inr []"
| "tokens p (a # as) =
     (if a = ''--'' then Inr (TDashes # map TArg as)
      else res_bind (parse_optional p a) (\<lambda>t. res_bind (tokens p as) (\<lambda>ts. Inr (t # ts))))"

section \<open>Consuming options and arguments\<close>

text \<open>\<open>ps_rest\<close> is \<open>None\<close> until the positional argument has taken its values.\<close>

record parse_state =
  ps_values :: "(string \<times> string list) list"
  ps_rest :: "string list option"
  ps_extras :: "string list"

definition parse_init :: parse_state where
  "parse_init = \<lparr>ps_values = [], ps_rest = None, ps_extras = []\<rparr>"

definition takes_no_value :: "opt_spec \<Rightarrow> bool" where
  "takes_no_value opt \<longleftrightarrow> o_act opt = StoreTrue \<or> o_act opt = ShowHelp"

text \<open>\<^verbatim>\<open>_match_argument\<close>: how many of the following arguments belong to the option.\<close>

definition match_argument :: "opt_spec \<Rightarrow> token list \<Rightarrow> nat res" where
  "match_argument opt ts =
     (let n = length (takeWhile is_arg ts) in
      case o_act opt of
        StoreMany need \<Rightarrow> if need \<and> n = 0 then usage_error else Inr n
      | StoreTrue \<Rightarrow> Inr 0
      | ShowHelp \<Rightarrow> Inr 0
      | _ \<Rightarrow> if n = 0 then usage_error else Inr 1)"

text \<open>In a group of short options: what follows the second one.\<close>

definition next_explicit :: "string \<Rightarrow> explicit" where
  "next_explicit ex =
     (if tl ex = [] then None
      else if hd (tl ex) = CHR ''='' then Some (True, tl (tl ex)) else Some (False, tl ex))"

text \<open>
  \<^verbatim>\<open>consume_optional\<close>: the actions to take, what is left over of a group of short options, and how many of the
  following arguments are used.
\<close>

function consume_optional ::
    "arg_parser \<Rightarrow> opt_spec \<Rightarrow> string \<Rightarrow> explicit \<Rightarrow> token list
     \<Rightarrow> ((opt_spec \<times> string list) list \<times> string list \<times> nat) res" where
  "consume_optional p opt s None ts =
     res_bind (match_argument opt ts) (\<lambda>n. Inr ([(opt, map token_text (take n ts))], [], n))"
| "consume_optional p opt s (Some (sep, ex)) ts =
     (if \<not> takes_no_value opt then Inr ([(opt, [ex])], [], 0)
      else if startswith s ''--'' \<or> ex = [] \<or> sep \<or> hd ex = CHR ''-'' then usage_error
      else case map_of (option_strings p) [CHR ''-'', hd ex] of
        None \<Rightarrow> Inr ([(opt, [])], [CHR ''-'' # ex], 0)
      | Some opt' \<Rightarrow>
          res_bind (consume_optional p opt' [CHR ''-'', hd ex] (next_explicit ex) ts)
            (\<lambda>(acts, extra, n). Inr ((opt, []) # acts, extra, n)))"
  by pat_completeness auto
termination
  by (relation "measure (\<lambda>(p, opt, s, ex, ts). case ex of None \<Rightarrow> 0 | Some (sep, t) \<Rightarrow> Suc (length t))")
    (auto simp: next_explicit_def less_Suc_eq_le neq_Nil_conv)

text \<open>\<^verbatim>\<open>take_action\<close>: help ends the program, a value of the wrong type is an error.\<close>

fun take_action :: "opt_spec \<times> string list \<Rightarrow> parse_state \<Rightarrow> parse_state res" where
  "take_action (opt, vals) st =
     (if o_act opt = ShowHelp then Inl (SystemExit 0)
      else if list_all (o_valid opt) vals then Inr (st\<lparr>ps_values := ps_values st @ [(o_dest opt, vals)]\<rparr>)
      else usage_error)"

text \<open>
  The loop of \<^verbatim>\<open>_parse_known_args\<close>. The positional argument takes the first run of arguments that are not
  options, without the first \<^verbatim>\<open>--\<close>; later ones are left over.
\<close>

function consume :: "arg_parser \<Rightarrow> token list \<Rightarrow> parse_state \<Rightarrow> parse_state res" where
  "consume p [] st = Inr st"
| "consume p (t # ts) st =
     (case t of
        TOpt opt s ex \<Rightarrow>
          res_bind (consume_optional p opt s ex ts) (\<lambda>(acts, extra, n).
          res_bind (res_fold take_action acts st) (\<lambda>st'.
            consume p (drop n ts) (st'\<lparr>ps_extras := ps_extras st' @ extra\<rparr>)))
      | TUnknown a \<Rightarrow> consume p ts (st\<lparr>ps_extras := ps_extras st @ [a]\<rparr>)
      | _ \<Rightarrow>
          if ap_positionals p \<and> ps_rest st = None
          then consume p (dropWhile is_plain (t # ts))
                 (st\<lparr>ps_rest := Some (remove1 ''--'' (map token_text (takeWhile is_plain (t # ts))))\<rparr>)
          else consume p ts (st\<lparr>ps_extras := ps_extras st @ [token_text t]\<rparr>))"
  by pat_completeness auto
termination
  by (relation "measure (\<lambda>(p, ts, st). length ts)")
    (auto simp: less_Suc_eq_le length_dropWhile_le split: token.splits)

declare consume.simps [simp del] consume_optional.simps [simp del]

definition parse_known_args :: "arg_parser \<Rightarrow> string list \<Rightarrow> parse_state res" where
  "parse_known_args p argv =
     res_bind (tokens p argv) (\<lambda>ts.
     res_bind (consume p ts parse_init) (\<lambda>st.
       if list_all (\<lambda>opt. o_required opt \<longrightarrow> o_dest opt \<in> fst ` set (ps_values st)) (ap_options p)
       then Inr st else usage_error))"

definition parse_args :: "arg_parser \<Rightarrow> string list \<Rightarrow> parse_state res" where
  "parse_args p argv =
     res_bind (parse_known_args p argv) (\<lambda>st. if ps_extras st = [] then Inr st else usage_error)"

section \<open>Reading the result\<close>

text \<open>The value of the last occurrence, the values of all occurrences, whether there is one.\<close>

definition arg_last :: "string \<Rightarrow> parse_state \<Rightarrow> string list option" where
  "arg_last d st = map_of (rev (ps_values st)) d"

definition arg_value :: "string \<Rightarrow> parse_state \<Rightarrow> string option" where
  "arg_value d st = map_option hd (arg_last d st)"

definition arg_all :: "string \<Rightarrow> parse_state \<Rightarrow> string list" where
  "arg_all d st = concat (map snd (filter (\<lambda>(k, vs). k = d) (ps_values st)))"

definition arg_given :: "string \<Rightarrow> parse_state \<Rightarrow> bool" where
  "arg_given d st \<longleftrightarrow> d \<in> fst ` set (ps_values st)"

section \<open>Running a parser\<close>

text \<open>
  The text of the help or of the usage message, which depends on the width of the terminal, is the
  parameter \<open>msg\<close>.
\<close>

definition run_parser :: "(string list \<Rightarrow> string) \<Rightarrow> parse_state res \<Rightarrow> string list \<Rightarrow> parse_state script" where
  "run_parser msg r argv =
     (case r of
        Inr st \<Rightarrow> io_return st
      | Inl e \<Rightarrow> io_bind (print_to (if e = SystemExit 0 then Stdout else Stderr) (msg argv)) (\<lambda>_. io_raise e))"

text \<open>
  \<^verbatim>\<open>logging.basicConfig(filename=...)\<close>: the file is opened for appending, so it exists afterwards; a missing
  directory raises FileNotFoundError, a directory in its place OSError. What is logged is not
  modelled.
\<close>

definition open_append :: "fsys \<Rightarrow> loc \<Rightarrow> ppath \<Rightarrow> fsys res" where
  "open_append fs cwd p =
     (let q = normpath_abs (path_div (PPath ''/'' cwd) p) in
      case target_loc fs MAXSYMLINKS [] (p_parts q) of
        None \<Rightarrow> Inl (FileNotFoundError (path_str q))
      | Some l \<Rightarrow>
          (case node_at fs l of
             None \<Rightarrow> Inr (fs @ [(l, File [] NEW_FILE_MODE)])
           | Some (File c m) \<Rightarrow> Inr fs
           | Some _ \<Rightarrow> Inl (OSError (path_str q))))"

definition basic_config :: "ppath option \<Rightarrow> unit script" where
  "basic_config log_file =
     (case log_file of None \<Rightarrow> io_return () | Some p \<Rightarrow> change_fs (\<lambda>fs cwd. open_append fs cwd p))"

section \<open>How parsing fails\<close>

lemma parse_optional_error: "parse_optional p a = Inl e \<Longrightarrow> e = SystemExit 2"
  by (auto simp: parse_optional_def usage_error_def split: if_splits option.splits list.splits)

lemma tokens_error: "tokens p argv = Inl e \<Longrightarrow> e = SystemExit 2"
  by (induction argv) (auto simp: res_bind_Inl_iff dest: parse_optional_error split: if_splits)

lemma match_argument_error: "match_argument opt ts = Inl e \<Longrightarrow> e = SystemExit 2"
  by (auto simp: match_argument_def usage_error_def Let_def split: act.splits if_splits)

lemma consume_optional_error: "consume_optional p opt s ex ts = Inl e \<Longrightarrow> e = SystemExit 2"
proof (induction p opt s ex ts rule: consume_optional.induct)
  case (1 p opt s ts)
  then show ?case by (auto simp: consume_optional.simps res_bind_Inl_iff dest: match_argument_error)
next
  case (2 p opt s sep ex ts)
  from "2.prems" show ?case
    by (subst (asm) consume_optional.simps)
      (use "2.IH" in \<open>auto simp: usage_error_def res_bind_Inl_iff split: if_splits option.splits\<close>)
qed

lemma actions_error: "res_fold take_action acts st = Inl e \<Longrightarrow> e = SystemExit 0 \<or> e = SystemExit 2"
  by (induction acts arbitrary: st) (auto simp: res_bind_Inl_iff usage_error_def split: if_splits)

lemma consume_error: "consume p ts st = Inl e \<Longrightarrow> e = SystemExit 0 \<or> e = SystemExit 2"
proof (induction p ts st rule: consume.induct)
  case (1 p st)
  then show ?case by (simp add: consume.simps)
next
  case (2 p t ts st)
  note IH = "2.IH" and prems = "2.prems"
  show ?case
  proof (cases t)
    case (TOpt opt s ex)
    with prems show ?thesis
      by (auto simp: consume.simps res_bind_Inl_iff dest: consume_optional_error actions_error)
        (use IH(6) in blast)
  qed (use prems IH in \<open>auto simp: consume.simps split: if_splits\<close>)
qed

lemma parse_known_error: "parse_known_args p argv = Inl e \<Longrightarrow> e = SystemExit 0 \<or> e = SystemExit 2"
  by (auto simp: parse_known_args_def res_bind_Inl_iff usage_error_def dest: tokens_error consume_error split: if_splits)

lemma parse_error: "parse_args p argv = Inl e \<Longrightarrow> e = SystemExit 0 \<or> e = SystemExit 2"
  by (auto simp: parse_args_def res_bind_Inl_iff usage_error_def dest: parse_known_error split: if_splits)

section \<open>What parsing returns\<close>

text \<open>
  Every value comes from an option of the parser and was accepted by its type; an option that
  takes one value has one.
\<close>

definition fits :: "opt_spec \<Rightarrow> string list \<Rightarrow> bool" where
  "fits opt vs \<longleftrightarrow> (o_act opt = Store \<or> o_act opt = AppendOne \<longrightarrow> length vs = 1)"

definition from_parser :: "arg_parser \<Rightarrow> string \<times> string list \<Rightarrow> bool" where
  "from_parser p = (\<lambda>(d, vs). \<exists>opt \<in> set (ap_options p). o_dest opt = d \<and> fits opt vs \<and> list_all (o_valid opt) vs)"

lemma match_argument_fits: "match_argument opt ts = Inr n \<Longrightarrow> fits opt (map token_text (take n ts))"
  by (cases ts) (auto simp: match_argument_def fits_def usage_error_def Let_def split: act.splits if_splits)

lemma option_strings_mem: "map_of (option_strings p) s = Some opt \<Longrightarrow> opt \<in> set (ap_options p)"
  by (auto simp: option_strings_def dest!: map_of_SomeD)

lemma option_tuples_mem: "TOpt opt s ex \<in> set (option_tuples p a) \<Longrightarrow> opt \<in> set (ap_options p)"
  by (auto simp: option_tuples_def option_strings_def split: if_splits)

lemma parse_optional_mem: "parse_optional p a = Inr (TOpt opt s ex) \<Longrightarrow> opt \<in> set (ap_options p)"
  using option_tuples_mem [of opt s ex p a]
  by (auto simp: parse_optional_def usage_error_def dest: option_strings_mem split: if_splits option.splits list.splits)

lemma tokens_mem: "tokens p argv = Inr ts \<Longrightarrow> TOpt opt s ex \<in> set ts \<Longrightarrow> opt \<in> set (ap_options p)"
  by (induction argv arbitrary: ts) (auto dest: parse_optional_mem split: if_splits)

definition acts_ok :: "arg_parser \<Rightarrow> (opt_spec \<times> string list) list \<Rightarrow> bool" where
  "acts_ok p = list_all (\<lambda>(opt, vs). opt \<in> set (ap_options p) \<and> fits opt vs)"

lemma consume_optional_acts:
  assumes "consume_optional p opt s ex ts = Inr (acts, extra, n)" and "opt \<in> set (ap_options p)"
  shows "acts_ok p acts"
  using assms
proof (induction p opt s ex ts arbitrary: acts rule: consume_optional.induct)
  case (1 p opt s ts)
  then show ?case by (auto simp: consume_optional.simps acts_ok_def match_argument_fits)
next
  case (2 p opt s sep ex ts)
  from "2.prems" show ?case
    by (subst (asm) consume_optional.simps)
      (use "2.IH" in \<open>fastforce simp: usage_error_def acts_ok_def fits_def takes_no_value_def
        dest: option_strings_mem split: if_splits option.splits\<close>)
qed

lemma actions_from_parser:
  assumes "res_fold take_action acts st = Inr st'" and "acts_ok p acts"
    and "list_all (from_parser p) (ps_values st)"
  shows "list_all (from_parser p) (ps_values st')"
  using assms(1,3)
proof (rule res_fold_invariant)
  fix a s s'
  assume a: "a \<in> set acts" and s: "list_all (from_parser p) (ps_values s)" and t: "take_action a s = Inr s'"
  obtain opt vs where ov: "a = (opt, vs)" by (cases a)
  with a assms(2) have "opt \<in> set (ap_options p)" "fits opt vs" by (auto simp: acts_ok_def list_all_iff)
  with s t ov show "list_all (from_parser p) (ps_values s')"
    by (auto simp: from_parser_def usage_error_def split: if_splits)
qed

lemma consume_from_parser:
  assumes "consume p ts st = Inr st'" and "\<And>opt s ex. TOpt opt s ex \<in> set ts \<Longrightarrow> opt \<in> set (ap_options p)"
    and "list_all (from_parser p) (ps_values st)"
  shows "list_all (from_parser p) (ps_values st')"
  using assms
proof (induction p ts st rule: consume.induct)
  case (1 p st)
  then show ?case by (simp add: consume.simps)
next
  case (2 p t ts st)
  show ?case
  proof (cases t)
    case (TOpt opt s ex)
    with "2.prems"(1) obtain acts extra n st1 where *: "consume_optional p opt s ex ts = Inr (acts, extra, n)"
      "res_fold take_action acts st = Inr st1" "consume p (drop n ts) (st1\<lparr>ps_extras := ps_extras st1 @ extra\<rparr>) = Inr st'"
      by (auto simp: consume.simps)
    have "acts_ok p acts"
      by (rule consume_optional_acts [OF *(1)]) (use "2.prems"(2) TOpt in auto)
    from actions_from_parser [OF *(2) this "2.prems"(3)] "2.IH"(6) [OF TOpt *(1) refl refl *(2,3)] "2.prems"(2)
    show ?thesis by (auto dest: in_set_dropD)
  qed (use "2.IH" "2.prems" in \<open>auto simp: consume.simps dest: set_dropWhileD split: if_splits\<close>)
qed

lemma parse_known_from_parser:
  assumes "parse_known_args p argv = Inr st"
  shows "list_all (from_parser p) (ps_values st)"
proof -
  from assms obtain ts where ts: "tokens p argv = Inr ts" "consume p ts parse_init = Inr st"
    by (auto simp: parse_known_args_def usage_error_def split: if_splits)
  show ?thesis
    by (rule consume_from_parser [OF ts(2) tokens_mem [OF ts(1)]]) (simp_all add: parse_init_def)
qed

lemma parse_from_parser: "parse_args p argv = Inr st \<Longrightarrow> list_all (from_parser p) (ps_values st)"
  by (auto simp: parse_args_def usage_error_def dest: parse_known_from_parser split: if_splits)

lemma arg_value_valid:
  assumes "parse_args p argv = Inr st" and "arg_value d st = Some v"
    and "\<And>opt. opt \<in> set (ap_options p) \<Longrightarrow> o_dest opt = d \<Longrightarrow> o_act opt = Store \<and> o_valid opt = valid"
  shows "valid v"
proof -
  from assms(2) obtain vs where vs: "map_of (rev (ps_values st)) d = Some vs" "v = hd vs"
    by (auto simp: arg_value_def arg_last_def)
  then have "(d, vs) \<in> set (ps_values st)" by (auto dest: map_of_SomeD)
  with parse_from_parser [OF assms(1)] obtain opt where opt: "opt \<in> set (ap_options p)" "o_dest opt = d"
    "fits opt vs" "list_all (o_valid opt) vs" by (auto simp: list_all_iff from_parser_def)
  with assms(3) [OF opt(1,2)] vs(2) show ?thesis by (cases vs) (auto simp: fits_def)
qed

text \<open>A parser without the help option fails only with the code of a usage error.\<close>

lemma actions_error_no_help:
  assumes "res_fold take_action acts st = Inl e" and "acts_ok p acts"
    and "list_all (\<lambda>opt. o_act opt \<noteq> ShowHelp) (ap_options p)"
  shows "e = SystemExit 2"
  using assms(1,2)
proof (induction acts arbitrary: st)
  case (Cons a acts)
  obtain opt vs where "a = (opt, vs)" by (cases a)
  with Cons assms(3) show ?case
    by (auto simp: acts_ok_def list_all_iff res_bind_Inl_iff usage_error_def split: if_splits)
qed simp

lemma consume_error_no_help:
  assumes "consume p ts st = Inl e" and "\<And>opt s ex. TOpt opt s ex \<in> set ts \<Longrightarrow> opt \<in> set (ap_options p)"
    and "list_all (\<lambda>opt. o_act opt \<noteq> ShowHelp) (ap_options p)"
  shows "e = SystemExit 2"
  using assms
proof (induction p ts st rule: consume.induct)
  case (1 p st)
  then show ?case by (simp add: consume.simps)
next
  case (2 p t ts st)
  show ?case
  proof (cases t)
    case (TOpt opt s ex)
    then have m: "opt \<in> set (ap_options p)" using "2.prems"(2) by auto
    show ?thesis
    proof (cases "consume_optional p opt s ex ts")
      case (Inl x)
      then show ?thesis using TOpt "2.prems"(1) consume_optional_error by (auto simp: consume.simps)
    next
      case (Inr x)
      obtain acts extra n where x: "x = (acts, extra, n)" by (cases x)
      note ok = consume_optional_acts [OF Inr [unfolded x] m]
      show ?thesis
      proof (cases "res_fold take_action acts st")
        case (Inl y)
        then show ?thesis using TOpt Inr x "2.prems"(1) actions_error_no_help [OF Inl ok "2.prems"(3)]
          by (simp add: consume.simps)
      next
        case st1: (Inr st1)
        then have "consume p (drop n ts) (st1\<lparr>ps_extras := ps_extras st1 @ extra\<rparr>) = Inl e"
          using TOpt Inr x "2.prems"(1) by (simp add: consume.simps)
        from "2.IH"(6) [OF TOpt Inr [unfolded x] refl refl st1 this] "2.prems"(2,3) show ?thesis
          by (auto dest: in_set_dropD)
      qed
    qed
  qed (use "2.IH" "2.prems" in \<open>auto simp: consume.simps dest: set_dropWhileD split: if_splits\<close>)
qed

lemma parse_known_error_no_help:
  assumes "parse_known_args p argv = Inl e" and "list_all (\<lambda>opt. o_act opt \<noteq> ShowHelp) (ap_options p)"
  shows "e = SystemExit 2"
proof (cases "tokens p argv")
  case (Inl x)
  then show ?thesis using assms(1) tokens_error [OF Inl] by (simp add: parse_known_args_def)
next
  case (Inr ts)
  then show ?thesis using assms consume_error_no_help [OF _ tokens_mem [OF Inr]]
    by (auto simp: parse_known_args_def res_bind_Inl_iff usage_error_def split: if_splits)
qed

section \<open>Writing a command line\<close>

text \<open>
  Every value, whatever its text, can be passed to an option in the form \<^verbatim>\<open>--name=value\<close>, in any order and
  number.
\<close>

definition parser_ok :: "arg_parser \<Rightarrow> bool" where
  "parser_ok p \<longleftrightarrow> list_all (\<lambda>(s, opt). startswith s ''-'' \<and> s \<noteq> ''-'' \<and> CHR ''='' \<notin> set s) (option_strings p)"

definition option_of :: "arg_parser \<Rightarrow> string \<Rightarrow> opt_spec" where
  "option_of p s = the (map_of (option_strings p) s)"

definition setting_ok :: "arg_parser \<Rightarrow> string \<times> string \<Rightarrow> bool" where
  "setting_ok p = (\<lambda>(s, v). map_of (option_strings p) s \<noteq> None \<and> \<not> takes_no_value (option_of p s) \<and>
     o_valid (option_of p s) v)"

definition setting_arg :: "string \<times> string \<Rightarrow> string" where
  "setting_arg = (\<lambda>(s, v). s @ ''='' @ v)"

definition settings_state :: "arg_parser \<Rightarrow> (string \<times> string) list \<Rightarrow> parse_state" where
  "settings_state p svs =
     \<lparr>ps_values = map (\<lambda>(s, v). (o_dest (option_of p s), [v])) svs, ps_rest = None, ps_extras = []\<rparr>"

lemma split_at_equals: "CHR ''='' \<notin> set s \<Longrightarrow> split_once (CHR ''='') (s @ CHR ''='' # v) = (s, v)"
  by (rule split_once_append)

lemma parse_optional_setting:
  assumes "parser_ok p" and "setting_ok p (s, v)"
  shows "parse_optional p (setting_arg (s, v)) = Inr (TOpt (option_of p s) s (Some (True, v)))"
    and "setting_arg (s, v) \<noteq> ''--''"
proof -
  from assms(2) obtain opt where opt: "map_of (option_strings p) s = Some opt" by (auto simp: setting_ok_def)
  then have "(s, opt) \<in> set (option_strings p)" by (rule map_of_SomeD)
  with assms(1) have s: "startswith s ''-''" "s \<noteq> ''-''" "CHR ''='' \<notin> set s"
    by (auto simp: parser_ok_def list_all_iff)
  let ?a = "s @ CHR ''='' # v"
  have "map_of (option_strings p) ?a = None"
    using assms(1) by (fastforce simp: parser_ok_def list_all_iff map_of_eq_None_iff)
  moreover have "startswith ?a ''-''" using s(1) by (auto simp: startswith_iff)
  moreover have "?a \<noteq> ''-''" using s(1) by (auto simp: startswith_iff Cons_eq_append_conv)
  ultimately show "parse_optional p (setting_arg (s, v)) = Inr (TOpt (option_of p s) s (Some (True, v)))"
    using opt s(3) by (simp add: parse_optional_def setting_arg_def split_at_equals explicit_of_def option_of_def)
  show "setting_arg (s, v) \<noteq> ''--''"
  proof
    assume "setting_arg (s, v) = ''--''"
    then have "CHR ''='' \<in> set ''--''" by (metis (no_types) in_set_conv_decomp append_Cons append_Nil setting_arg_def prod.case)
    then show False by simp
  qed
qed

lemma tokens_settings:
  assumes "parser_ok p" and "list_all (setting_ok p) svs"
  shows "tokens p (map setting_arg svs) = Inr (map (\<lambda>(s, v). TOpt (option_of p s) s (Some (True, v))) svs)"
  using assms(2)
proof (induction svs)
  case (Cons sv svs)
  obtain s v where sv: "sv = (s, v)" by (cases sv)
  with Cons parse_optional_setting [OF assms(1), of s v] show ?case by simp
qed simp

lemma consume_settings:
  assumes "list_all (setting_ok p) svs"
  shows "consume p (map (\<lambda>(s, v). TOpt (option_of p s) s (Some (True, v))) svs) st =
    Inr (st\<lparr>ps_values := ps_values st @ map (\<lambda>(s, v). (o_dest (option_of p s), [v])) svs\<rparr>)"
  using assms
proof (induction svs arbitrary: st)
  case (Cons sv svs)
  obtain s v where sv: "sv = (s, v)" by (cases sv)
  with Cons.prems have "\<not> takes_no_value (option_of p s)" "o_valid (option_of p s) v" by (auto simp: setting_ok_def)
  with sv Cons show ?case by (simp add: consume.simps consume_optional.simps takes_no_value_def)
qed (simp add: consume.simps)

lemma parse_settings:
  assumes "parser_ok p" and "list_all (setting_ok p) svs"
    and "list_all (\<lambda>opt. o_required opt \<longrightarrow> o_dest opt \<in> fst ` set (ps_values (settings_state p svs))) (ap_options p)"
  shows "parse_args p (map setting_arg svs) = Inr (settings_state p svs)"
  using assms(3) consume_settings [OF assms(2), of parse_init]
  by (simp add: parse_args_def parse_known_args_def tokens_settings [OF assms(1,2)] parse_init_def settings_state_def)

section \<open>Unknown arguments\<close>

fun is_opt :: "token \<Rightarrow> bool" where
  "is_opt (TOpt opt s ex) = True"
| "is_opt _ = False"

text \<open>Without options, \<^verbatim>\<open>parse_known_args\<close> of a parser without positional arguments leaves everything over.\<close>

lemma consume_unknown:
  assumes "\<not> ap_positionals p" and "list_all (\<lambda>t. \<not> is_opt t) ts"
  shows "consume p ts st = Inr (st\<lparr>ps_extras := ps_extras st @ map token_text ts\<rparr>)"
  using assms(2)
proof (induction ts arbitrary: st)
  case (Cons t ts)
  then show ?case using assms(1) by (cases t) (simp_all add: consume.simps)
qed (simp add: consume.simps)

lemma consume_optional_value:
  assumes "consume_optional p opt s ex ts = Inr (acts, extra, n)" and "\<not> takes_no_value opt"
  shows "extra = []"
  using assms by (cases ex) (auto simp: consume_optional.simps)

lemma actions_keep_extras: "res_fold take_action acts st = Inr st' \<Longrightarrow> ps_extras st' = ps_extras st"
  by (erule res_fold_invariant) (auto simp: usage_error_def split: if_splits)

lemma consume_extras:
  assumes "consume p ts st = Inr st'" and "\<not> ap_positionals p"
    and "\<And>opt s ex. TOpt opt s ex \<in> set ts \<Longrightarrow> \<not> takes_no_value opt"
  shows "length (ps_extras st') \<le> length (ps_extras st) + length ts \<and>
    (list_ex is_opt ts \<longrightarrow> length (ps_extras st') < length (ps_extras st) + length ts)"
  using assms
proof (induction p ts st rule: consume.induct)
  case (1 p st)
  then show ?case by (simp add: consume.simps)
next
  case (2 p t ts st)
  show ?case
  proof (cases t)
    case (TOpt opt s ex)
    with "2.prems"(1) obtain acts extra n st1 where *: "consume_optional p opt s ex ts = Inr (acts, extra, n)"
      "res_fold take_action acts st = Inr st1" "consume p (drop n ts) (st1\<lparr>ps_extras := ps_extras st1 @ extra\<rparr>) = Inr st'"
      by (auto simp: consume.simps)
    have "extra = []" using consume_optional_value [OF *(1)] "2.prems"(3) TOpt by auto
    with "2.IH"(6) [OF TOpt *(1) refl refl *(2,3)] "2.prems"(2,3) actions_keep_extras [OF *(2)] show ?thesis
      by (fastforce dest: in_set_dropD)
  qed (use "2.IH" "2.prems" in \<open>fastforce simp: consume.simps\<close>)+
qed

end
