(* ===== verification/Command_Line.thy ===== *)
theory Command_Line
  imports Py_Argparse Bep Bootstrap Coverage_Report Docker_Images Docker_Cleanup External_Mounts Docker_Run Cert_Tool
begin

text \<open>
  The command lines of the scripts: the argument parser each \<^verbatim>\<open>main\<close> builds, how its result becomes the
  arguments of the models, and each \<^verbatim>\<open>main\<close> from its argument list on: parse, open the log file, run.
\<close>

section \<open>Options\<close>

definition any_text :: "string \<Rightarrow> bool" where
  "any_text s = True"

definition float_text :: "string \<Rightarrow> bool" where
  "float_text s \<longleftrightarrow> parse_float s \<noteq> None"

definition int_text :: "string \<Rightarrow> bool" where
  "int_text s \<longleftrightarrow> parse_int s \<noteq> None"

definition opt1 :: "string \<Rightarrow> act \<Rightarrow> (string \<Rightarrow> bool) \<Rightarrow> bool \<Rightarrow> opt_spec" where
  "opt1 name a valid req = \<lparr>o_strings = [name], o_dest = name, o_act = a, o_valid = valid, o_required = req\<rparr>"

definition help_option :: opt_spec where
  "help_option = \<lparr>o_strings = [''-h'', ''--help''], o_dest = ''--help'', o_act = ShowHelp, o_valid = any_text, o_required = False\<rparr>"

definition log_option :: opt_spec where
  "log_option = opt1 ''--devkit-log-file'' Store any_text False"

definition log_file_arg :: "string \<Rightarrow> parse_state \<Rightarrow> ppath option" where
  "log_file_arg name st = map_option to_path (arg_value name st)"

text \<open>An option with a default, as text.\<close>

definition arg_or :: "string \<Rightarrow> string \<Rightarrow> parse_state \<Rightarrow> string" where
  "arg_or name dflt st = (case arg_value name st of None \<Rightarrow> dflt | Some v \<Rightarrow> v)"

definition path_or :: "string \<Rightarrow> ppath \<Rightarrow> parse_state \<Rightarrow> ppath" where
  "path_or name dflt st = (case arg_value name st of None \<Rightarrow> dflt | Some v \<Rightarrow> to_path v)"

definition float_or :: "string \<Rightarrow> pyfloat \<Rightarrow> parse_state \<Rightarrow> pyfloat" where
  "float_or name dflt st = (case arg_value name st of None \<Rightarrow> dflt | Some v \<Rightarrow> the (parse_float v))"

definition int_or :: "string \<Rightarrow> int \<Rightarrow> parse_state \<Rightarrow> int" where
  "int_or name dflt st = (case arg_value name st of None \<Rightarrow> dflt | Some v \<Rightarrow> the (parse_int v))"

section \<open>bep.py\<close>

definition bep_parser :: arg_parser where
  "bep_parser =
     \<lparr>ap_options =
        [help_option,
         opt1 ''--targets'' (StoreMany True) any_text False,
         opt1 ''--command'' Store (\<lambda>s. s \<in> set [''fetch'', ''build'']) False,
         opt1 ''--output_dir'' Store any_text False,
         log_option],
      ap_positionals = False\<rparr>"

definition bep_args_of :: "parse_state \<Rightarrow> bep_args" where
  "bep_args_of st =
     \<lparr>bep_targets = (case arg_last ''--targets'' st of None \<Rightarrow> [] | Some vs \<Rightarrow> vs),
      bep_command = arg_or ''--command'' ''fetch'' st,
      bep_output_dir = path_or ''--output_dir'' (to_path ''bazel-bep'') st\<rparr>"

definition bep_script :: "(string list \<Rightarrow> string) \<Rightarrow> runner \<Rightarrow> (world \<Rightarrow> loc) \<Rightarrow> string list \<Rightarrow> unit script" where
  "bep_script msg run mktemp argv =
     io_bind (run_parser msg (parse_args bep_parser argv) argv) (\<lambda>st.
     io_bind (basic_config (log_file_arg ''--devkit-log-file'' st)) (\<lambda>_.
       bep_main run mktemp (bep_args_of st)))"

section \<open>bootstrap.py\<close>

definition bootstrap_parser :: arg_parser where
  "bootstrap_parser =
     \<lparr>ap_options =
        [help_option,
         opt1 ''--template'' Store any_text True,
         opt1 ''--templates-root'' Store any_text False,
         opt1 ''--output-dir'' Store any_text False,
         opt1 ''--args'' (StoreMany False) any_text False,
         log_option],
      ap_positionals = False\<rparr>"

definition bootstrap_args_of :: "loc \<Rightarrow> parse_state \<Rightarrow> bootstrap_args" where
  "bootstrap_args_of cwd st =
     \<lparr>arg_template = arg_or ''--template'' [] st,
      arg_templates_root = map_option to_path (arg_value ''--templates-root'' st),
      arg_output_dir = path_or ''--output-dir'' (PPath ''/'' cwd) st,
      arg_args = (case arg_last ''--args'' st of None \<Rightarrow> [] | Some vs \<Rightarrow> vs)\<rparr>"

definition bootstrap_script ::
    "(string list \<Rightarrow> string) \<Rightarrow> jinja \<Rightarrow> (exn \<Rightarrow> string) \<Rightarrow> ppath \<Rightarrow> string list \<Rightarrow> unit script" where
  "bootstrap_script msg j err script_dir argv =
     io_bind (query w_cwd) (\<lambda>cwd.
     io_bind (run_parser msg (parse_args bootstrap_parser argv) argv) (\<lambda>st.
     io_bind (basic_config (log_file_arg ''--devkit-log-file'' st)) (\<lambda>_.
       bootstrap_main j err script_dir (bootstrap_args_of cwd st))))"

section \<open>coverage_report.py\<close>

definition coverage_parser :: arg_parser where
  "coverage_parser =
     \<lparr>ap_options =
        [help_option,
         opt1 ''--target'' Store any_text False,
         opt1 ''--lines'' Store float_text False,
         opt1 ''--branch'' Store float_text False,
         opt1 ''--thresholds-file'' Store any_text False,
         log_option],
      ap_positionals = False\<rparr>"

definition coverage_args_of :: "parse_state \<Rightarrow> coverage_args" where
  "coverage_args_of st =
     \<lparr>cv_target = arg_or ''--target'' ''//...'' st,
      cv_lines = float_or ''--lines'' (Fin 100) st,
      cv_branch = float_or ''--branch'' (Fin 100) st,
      cv_thresholds_file = map_option to_path (arg_value ''--thresholds-file'' st)\<rparr>"

definition coverage_script ::
    "(string list \<Rightarrow> string) \<Rightarrow> runner \<Rightarrow> (exn \<Rightarrow> string) \<Rightarrow> string list \<Rightarrow> unit script" where
  "coverage_script msg run err argv =
     io_bind (run_parser msg (parse_args coverage_parser argv) argv) (\<lambda>st.
     io_bind (basic_config (log_file_arg ''--devkit-log-file'' st)) (\<lambda>_.
       coverage_main run err (coverage_args_of st)))"

section \<open>docker/build.py\<close>

definition build_parser :: arg_parser where
  "build_parser =
     \<lparr>ap_options =
        [help_option,
         opt1 ''--print-tag'' StoreTrue any_text False,
         opt1 ''--config'' Store any_text True,
         opt1 ''--search-path'' AppendOne any_text True,
         opt1 ''--local'' StoreTrue any_text False,
         opt1 ''--no-cache'' StoreTrue any_text False,
         opt1 ''--log-file'' Store any_text False],
      ap_positionals = True\<rparr>"

definition build_args_of :: "parse_state \<Rightarrow> build_args" where
  "build_args_of st =
     \<lparr>ba_target_images = (case ps_rest st of None \<Rightarrow> [] | Some vs \<Rightarrow> vs),
      ba_print_tag = arg_given ''--print-tag'' st,
      ba_config = to_path (arg_or ''--config'' [] st),
      ba_search_path = map to_path (arg_all ''--search-path'' st),
      ba_local_only = arg_given ''--local'' st,
      ba_no_cache = arg_given ''--no-cache'' st,
      ba_log_file = log_file_arg ''--log-file'' st\<rparr>"

text \<open>Importing the module sets \<^verbatim>\<open>CLOUDSDK_PYTHON\<close> first, also for the scripts that import it.\<close>

definition build_script ::
    "(string list \<Rightarrow> string) \<Rightarrow> runner \<Rightarrow> nat \<Rightarrow> set_order \<Rightarrow> (string list \<Rightarrow> string) \<Rightarrow> string list \<Rightarrow> unit script" where
  "build_script msg run limit so pop argv =
     io_bind ensure_cloudsdk_python_is_set (\<lambda>_.
     io_bind (run_parser msg (parse_args build_parser argv) argv) (\<lambda>st.
     io_bind (basic_config (ba_log_file (build_args_of st))) (\<lambda>_.
       build_main run limit so pop (build_args_of st))))"

section \<open>docker_cleanup.py\<close>

definition cleanup_parser :: arg_parser where
  "cleanup_parser =
     \<lparr>ap_options =
        [help_option,
         log_option,
         opt1 ''--config-path'' Store any_text True,
         opt1 ''--search-path'' AppendOne any_text True,
         opt1 ''--initial-delay'' Store float_text False,
         opt1 ''--cleanup-interval'' Store float_text False,
         opt1 ''--batch-size'' Store int_text False,
         opt1 ''--threshold-days'' Store int_text False],
      ap_positionals = False\<rparr>"

definition cleanup_args_of :: "parse_state \<Rightarrow> cleanup_args" where
  "cleanup_args_of st =
     \<lparr>ca_config_path = to_path (arg_or ''--config-path'' [] st),
      ca_search_paths = map to_path (arg_all ''--search-path'' st),
      ca_batch_size = int_or ''--batch-size'' 10 st,
      ca_threshold_days = int_or ''--threshold-days'' CLEANUP_THRESHOLD_DAYS st\<rparr>"

text \<open>
  Time is not part of the model, so the two delays are parsed and otherwise ignored; delays beyond
  \<^verbatim>\<open>threading.TIMEOUT_MAX\<close>, for which \<^verbatim>\<open>wait\<close> raises, are outside of it.
\<close>

definition cleanup_script ::
    "(string list \<Rightarrow> string) \<Rightarrow> runner \<Rightarrow> (world \<Rightarrow> string \<Rightarrow> nat) \<Rightarrow> nat \<Rightarrow> set_order \<Rightarrow> (string list \<Rightarrow> string)
     \<Rightarrow> string list \<Rightarrow> unit thread" where
  "cleanup_script msg run polls limit so pop argv =
     io_bind (on_world ensure_cloudsdk_python_is_set) (\<lambda>_.
     io_bind (on_world (run_parser msg (parse_args cleanup_parser argv) argv)) (\<lambda>st.
     io_bind (on_world (basic_config (log_file_arg ''--devkit-log-file'' st))) (\<lambda>_.
       cleanup_main run polls limit so pop (cleanup_args_of st))))"

section \<open>list_external_mounts.py\<close>

definition mounts_parser :: arg_parser where
  "mounts_parser =
     \<lparr>ap_options =
        [help_option,
         opt1 ''--root-dir'' Store any_text False,
         opt1 ''--mount'' AppendOne any_text False],
      ap_positionals = False\<rparr>"

definition mounts_args_of :: "loc \<Rightarrow> parse_state \<Rightarrow> mounts_args" where
  "mounts_args_of cwd st =
     \<lparr>arg_root_dir = path_or ''--root-dir'' (PPath ''/'' cwd) st,
      arg_existing_mounts = map to_path (arg_all ''--mount'' st)\<rparr>"

definition mounts_script ::
    "(string list \<Rightarrow> string) \<Rightarrow> (ppath list \<Rightarrow> ppath list) \<Rightarrow> string list \<Rightarrow> unit script" where
  "mounts_script msg order argv =
     io_bind (query w_cwd) (\<lambda>cwd.
     io_bind (run_parser msg (parse_args mounts_parser argv) argv) (\<lambda>st.
       mounts_main order (mounts_args_of cwd st)))"

section \<open>issue_certificate_response_to_der.py\<close>

definition cert_parser :: arg_parser where
  "cert_parser = \<lparr>ap_options = [help_option], ap_positionals = False\<rparr>"

definition cert_script :: "(string list \<Rightarrow> string) \<Rightarrow> (exn \<Rightarrow> string) \<Rightarrow> string list \<Rightarrow> string \<Rightarrow> unit script" where
  "cert_script msg err argv input =
     io_bind (run_parser msg (parse_args cert_parser argv) argv) (\<lambda>_. cert_main err input)"

section \<open>docker_run.py\<close>

text \<open>\<^verbatim>\<open>parse_known_args\<close>: everything but the log option is passed on to docker.\<close>

definition run_parser_spec :: arg_parser where
  "run_parser_spec = \<lparr>ap_options = [log_option], ap_positionals = False\<rparr>"

definition docker_run_script ::
    "(string list \<Rightarrow> string) \<Rightarrow> runner \<Rightarrow> (ppath list \<Rightarrow> ppath list) \<Rightarrow> (nat \<Rightarrow> listener \<Rightarrow> listener) \<Rightarrow> host \<Rightarrow> ppath
     \<Rightarrow> string list \<Rightarrow> unit run_script" where
  "docker_run_script msg run order serve h scripts_dir argv =
     io_bind (in_world ensure_cloudsdk_python_is_set) (\<lambda>_.
     io_bind (in_world (run_parser msg (parse_known_args run_parser_spec argv) argv)) (\<lambda>st.
     io_bind (in_world (basic_config (log_file_arg ''--devkit-log-file'' st))) (\<lambda>_.
       docker_run_main run order serve h scripts_dir (ps_extras st))))"

end
