(* ===== verification/Command_Line_Spec.thy ===== *)
theory Command_Line_Spec
  imports Command_Line Bep_Spec Docker_Images_Spec Docker_Run_Spec
begin

text \<open>
  The scripts from their command lines on: what a bad command line does, that the arguments of a
  command reach docker unchanged, what \<^verbatim>\<open>build_and_run\<close> reads from the image builder, and the
  command lines that stand for given arguments.
\<close>

section \<open>Entry points\<close>

lemma io_bindE:
  assumes "io_bind m f w = (r, w')"
  obtains (raised) e where "m w = (Inl e, w')" and "r = Inl e"
  | (returned) x w1 where "m w = (Inr x, w1)" and "f x w1 = (r, w')"
  using assms by (cases "m w"; cases "fst (m w)") (auto simp: io_bind_def)

lemma run_parser_simps [simp]:
  "run_parser msg (Inr st) argv = io_return st"
  "run_parser msg (Inl e) argv w =
     (Inl e, w\<lparr>w_trace := w_trace w @ [Out (if e = SystemExit 0 then Stdout else Stderr) (msg argv)]\<rparr>)"
  by (simp_all add: run_parser_def io_bind_def print_to_def io_raise_def)

lemma basic_config_cases:
  assumes "basic_config lf w = (r, w')"
  shows "w_trace w' = w_trace w \<and> w_cwd w' = w_cwd w \<and> r \<noteq> Inl (SystemExit 0) \<and>
    (r = Inr () \<longrightarrow> w' = w\<lparr>w_fs := (case lf of None \<Rightarrow> w_fs w | Some p \<Rightarrow> w_fs w')\<rparr> \<and>
       (\<forall>p. lf = Some p \<longrightarrow> open_append (w_fs w) (w_cwd w) p = Inr (w_fs w')))"
  using assms
  by (auto simp: basic_config_def io_return_def change_fs_def open_append_def Let_def
      split: option.splits sum.splits node.splits)

section \<open>What build_and_run reads\<close>

text \<open>The command line with which \<^verbatim>\<open>scripts/build_and_run\<close> asks for the tag of an image.\<close>

definition build_and_run_argv :: "string \<Rightarrow> string \<Rightarrow> string \<Rightarrow> string \<Rightarrow> string list" where
  "build_and_run_argv img images log_file config =
     [img, ''--print-tag'', ''--search-path'', images, ''--log-file'', log_file, ''--config'', config]"

lemma plain_token: "\<not> startswith a ''-'' \<Longrightarrow> parse_optional p a = Inr (TArg a)" "\<not> startswith a ''-'' \<Longrightarrow> a \<noteq> ''--''"
  by (auto simp: parse_optional_def startswith_def)

lemma build_and_run_parsed:
  assumes "list_all (\<lambda>a. \<not> startswith a ''-'') [img, images, log_file, config]"
  shows "\<exists>st. parse_args build_parser (build_and_run_argv img images log_file config) = Inr st \<and>
    build_args_of st =
      \<lparr>ba_target_images = [img], ba_print_tag = True, ba_config = to_path config, ba_search_path = [to_path images],
       ba_local_only = False, ba_no_cache = False, ba_log_file = Some (to_path log_file)\<rparr>"
proof -
  let ?o = "option_of build_parser"
  have k: "parse_optional build_parser s = Inr (TOpt (?o s) s None)" "s \<noteq> ''--''"
    if "s \<in> set [''--print-tag'', ''--search-path'', ''--log-file'', ''--config'']" for s
    using that by (auto simp: parse_optional_def option_strings_def build_parser_def help_option_def opt1_def
        option_of_def startswith_def)
  have o: "?o ''--print-tag'' = opt1 ''--print-tag'' StoreTrue any_text False"
    "?o ''--search-path'' = opt1 ''--search-path'' AppendOne any_text True"
    "?o ''--log-file'' = opt1 ''--log-file'' Store any_text False"
    "?o ''--config'' = opt1 ''--config'' Store any_text True"
    by (simp_all add: option_of_def option_strings_def build_parser_def help_option_def opt1_def)
  have t: "tokens build_parser (build_and_run_argv img images log_file config) =
      Inr [TArg img, TOpt (?o ''--print-tag'') ''--print-tag'' None,
        TOpt (?o ''--search-path'') ''--search-path'' None, TArg images,
        TOpt (?o ''--log-file'') ''--log-file'' None, TArg log_file, TOpt (?o ''--config'') ''--config'' None, TArg config]"
    using assms plain_token k by (simp add: build_and_run_argv_def)
  have i: "remove1 ''--'' [img] = [img]" using assms plain_token(2) [of img] by simp
  have r: "list_all (\<lambda>opt. o_required opt \<longrightarrow> o_dest opt \<in> {''--print-tag'', ''--search-path'', ''--log-file'', ''--config''})
      (ap_options build_parser)" "ap_positionals build_parser"
    by (simp_all add: build_parser_def help_option_def opt1_def)
  show ?thesis
    using r i
    by (simp add: parse_args_def parse_known_args_def t o opt1_def consume.simps consume_optional.simps
        match_argument_def parse_init_def any_text_def build_args_of_def arg_given_def arg_or_def arg_value_def
        arg_last_def arg_all_def log_file_arg_def)
qed

lemma check_targets_not_exit0: "check_targets pt ts names \<noteq> Inl (SystemExit 0)"
  by (auto simp: check_targets_def dest!: res_for_InlD split: if_splits)

lemma read_not_exit0: "read_bytes fs cwd p \<noteq> Inl (SystemExit 0)" "read_text fs cwd p \<noteq> Inl (SystemExit 0)"
  by (auto simp: read_text_def read_bytes_def res_bind_Inl_iff split: option.splits node.splits if_splits)

lemma docker_builder_not_exit0: "docker_builder fs cwd cp sp \<noteq> Inl (SystemExit 0)"
proof -
  let ?b = "new_builder cp sp"
  have "load_config fs cwd ?b \<noteq> Inl (SystemExit 0)"
  proof (cases "path_exists fs cwd (b_config_path ?b)")
    case True
    show ?thesis
    proof (cases "read_bytes fs cwd (b_config_path ?b)")
      case (Inl e)
      then show ?thesis using True read_not_exit0(1) [of fs cwd "b_config_path ?b"] by (auto simp: load_config_def)
    next
      case (Inr bytes)
      then show ?thesis using load_config_cases [OF True Inr] by (auto split: if_splits)
    qed
  qed (simp add: load_config_def)
  moreover have "load_image_configs fs cwd ps \<noteq> Inl (SystemExit 0)" for ps
  proof -
    have "load_deps_file fs cwd q d \<noteq> Inl (SystemExit 0)" for q d
      using read_not_exit0(2) [of fs cwd "path_div q (to_path ''deps.json'')"]
      by (auto simp: load_deps_file_def Let_def res_bind_Inl_iff split: if_splits sum.splits json.splits)
    then have "res_fold (load_deps_file fs cwd) qs d \<noteq> Inl (SystemExit 0)" for qs d
      by (induction qs arbitrary: d) (auto simp: res_bind_Inl_iff)
    then show ?thesis by (simp add: load_image_configs_def)
  qed
  ultimately show ?thesis by (auto simp: docker_builder_def res_bind_Inl_iff)
qed

text \<open>The checks before the images are touched: silent on standard output, no change of files, no exit with 0.\<close>

lemma check_docker_cases:
  assumes "files_kept run" and "check_docker_cmd run cmd m lf w = (r, w')"
  shows "printed Stdout (w_trace w') = printed Stdout (w_trace w) \<and> w_fs w' = w_fs w \<and> w_cwd w' = w_cwd w \<and>
    r \<noteq> Inl (SystemExit 0)"
proof -
  have "printed Stdout (w_trace w') = printed Stdout (w_trace w)"
    by (rule quiet_printed [OF keepsD [OF trace.keeps_check [of "\<lambda>_. True"] assms(2)]]) simp
  moreover have "same_site run w w'" by (rule keepsD [OF site.keeps_check assms(2)]) simp
  moreover have "raises_only (\<lambda>e. e \<noteq> SystemExit 0) (check_docker_cmd run cmd m lf)"
    unfolding check_docker_cmd_def
    by (rule raises_only_catch [of run_failure])
      (auto intro!: raises_only_bind raises_run simp: run_failure_def)
  ultimately show ?thesis using assms by (auto simp: same_site_def site_def raises_only_def)
qed

text \<open>The rest of \<^verbatim>\<open>main\<close>, once docker is known to be there.\<close>

lemma loaded_builder_prints:
  assumes "docker_daemon run P" and "files_kept run"
    and "io_bind (query_res (\<lambda>w. docker_builder (w_fs w) (w_cwd w) cp sps)) (\<lambda>b.
      io_bind (io_lift (check_targets True [img] (dict_keys (b_images b)))) (\<lambda>_.
      io_bind (build_images run limit so pop b [img] True no_cache local_flag []) (\<lambda>_. io_return ()))) w = (r, w')"
  shows "if r = Inl (SystemExit 0)
    then \<exists>b t. docker_builder (w_fs w) (w_cwd w) cp sps = Inr b \<and>
      image_tag (w_fs w) (w_cwd w) b img t \<and> t \<in> P w' \<and>
      printed Stdout (w_trace w') = printed Stdout (w_trace w) @ [t @ nl]
    else printed Stdout (w_trace w') = printed Stdout (w_trace w)"
proof (cases "docker_builder (w_fs w) (w_cwd w) cp sps")
  case (Inl e)
  then have "r = Inl e" "w' = w" using assms(3) by (simp_all add: query_res_bind)
  then show ?thesis using Inl docker_builder_not_exit0 by auto
next
  case b: (Inr b)
  show ?thesis
  proof (cases "check_targets True [img] (dict_keys (b_images b))")
    case (Inl e)
    then have "r = Inl e" "w' = w" using assms(3) b by (simp_all add: query_res_bind io_raise_def)
    then show ?thesis using Inl check_targets_not_exit0 by auto
  next
    case (Inr u)
    obtain r2 w3 where bi: "build_images run limit so pop b [img] True no_cache local_flag [] w = (r2, w3)" by fastforce
    with assms(3) b Inr have "w' = w3" "r = Inl (SystemExit 0) \<longleftrightarrow> r2 = Inl (SystemExit 0)"
      by (auto simp: query_res_def io_lift_def io_bind_def io_return_def split: sum.splits)
    with print_tag_prints_only_the_tag [OF assms(1,2) bi] b show ?thesis by auto
  qed
qed

lemma build_main_prints:
  assumes "docker_daemon run P" and F: "files_kept run"
    and a: "ba_print_tag args = True" "ba_target_images args = [img]"
    and "build_main run limit so pop args w = (r, w')"
  shows "if r = Inl (SystemExit 0)
    then \<exists>b t. docker_builder (w_fs w) (w_cwd w) (ba_config args) (ba_search_path args) = Inr b \<and>
      image_tag (w_fs w) (w_cwd w) b img t \<and> t \<in> P w' \<and>
      printed Stdout (w_trace w') = printed Stdout (w_trace w) @ [t @ nl]
    else printed Stdout (w_trace w') = printed Stdout (w_trace w)"
  using assms(5) unfolding build_main_def a check_docker_installed_def check_docker_buildx_installed_def
proof (cases rule: io_bindE)
  case (raised e)
  from check_docker_cases [OF F raised(1)] raised(2) show ?thesis by auto
next
  case (returned _ w1)
  note c1 = check_docker_cases [OF F returned(1)]
  from returned(2) show ?thesis
  proof (cases rule: io_bindE)
    case (raised e)
    from check_docker_cases [OF F raised(1)] raised(2) c1 show ?thesis by auto
  next
    case (returned _ w2)
    from check_docker_cases [OF F returned(1)] c1 loaded_builder_prints [OF assms(1,2) returned(2)] show ?thesis
      by (auto split: if_splits)
  qed
qed

lemma ensure_cloudsdk_world:
  "ensure_cloudsdk_python_is_set w = (Inr (), w\<lparr>w_env := w_env (snd (ensure_cloudsdk_python_is_set w))\<rparr>)"
  by (simp add: ensure_cloudsdk_python_is_set_def split: option.split)

lemma build_script_prints:
  assumes "docker_daemon run P" and "files_kept run"
    and "list_all (\<lambda>a. \<not> startswith a ''-'') [img, images, log_file, config]"
    and "build_script msg run limit so pop (build_and_run_argv img images log_file config) w = (r, w')"
  shows "if r = Inl (SystemExit 0)
    then \<exists>fs b t. open_append (w_fs w) (w_cwd w) (to_path log_file) = Inr fs \<and>
      docker_builder fs (w_cwd w) (to_path config) [to_path images] = Inr b \<and>
      image_tag fs (w_cwd w) b img t \<and> t \<in> P w' \<and>
      printed Stdout (w_trace w') = printed Stdout (w_trace w) @ [t @ nl]
    else printed Stdout (w_trace w') = printed Stdout (w_trace w)"
proof -
  obtain st where st: "parse_args build_parser (build_and_run_argv img images log_file config) = Inr st"
    and args: "build_args_of st =
      \<lparr>ba_target_images = [img], ba_print_tag = True, ba_config = to_path config, ba_search_path = [to_path images],
       ba_local_only = False, ba_no_cache = False, ba_log_file = Some (to_path log_file)\<rparr>"
    using build_and_run_parsed [OF assms(3)] by blast
  obtain env where e: "ensure_cloudsdk_python_is_set w = (Inr (), w\<lparr>w_env := env\<rparr>)"
    using ensure_cloudsdk_world [of w] by fast
  have "io_bind (basic_config (Some (to_path log_file))) (\<lambda>_. build_main run limit so pop (build_args_of st))
      (w\<lparr>w_env := env\<rparr>) = (r, w')"
    using assms(4) e by (simp add: build_script_def st args io_bind_def [of ensure_cloudsdk_python_is_set])
  then show ?thesis
  proof (cases rule: io_bindE)
    case (raised x)
    from basic_config_cases [OF raised(1)] raised(2) show ?thesis by auto
  next
    case (returned u w1)
    note c = basic_config_cases [OF returned(1)]
    from c build_main_prints [OF assms(1,2) _ _ returned(2), of img] show ?thesis by (auto simp: args split: if_splits)
  qed
qed

section \<open>bep.py\<close>

lemma bep_command_valid:
  assumes "parse_args bep_parser argv = Inr st"
  shows "bep_command (bep_args_of st) \<in> {''fetch'', ''build''}"
proof (cases "arg_value ''--command'' st")
  case (Some v)
  have "(\<lambda>s. s \<in> set [''fetch'', ''build'']) v"
    by (rule arg_value_valid [OF assms Some])
      (auto simp: bep_parser_def help_option_def log_option_def opt1_def)
  with Some show ?thesis by (simp add: bep_args_of_def arg_or_def)
qed (simp add: bep_args_of_def arg_or_def)

text \<open>Without arguments: \<^verbatim>\<open>bazel fetch //...\<close> into \<^verbatim>\<open>bazel-bep/bep.json\<close>, as the documentation says.\<close>

lemma bep_no_arguments:
  "parse_args bep_parser [] = Inr parse_init" "bep_command (bep_args_of parse_init) = ''fetch''"
  "bep_wanted (bep_args_of parse_init) = [(''//...'', to_path ''bazel-bep/bep.json'')]"
  by code_simp+

section \<open>docker_run.py\<close>

text \<open>Arguments that \<^verbatim>\<open>docker_run.py\<close> takes for its own option: it or an abbreviation, with or without a value.\<close>

definition log_abbrev :: "string \<Rightarrow> bool" where
  "log_abbrev a \<longleftrightarrow> startswith a ''--'' \<and> startswith ''--devkit-log-file'' (takeWhile (\<lambda>c. c \<noteq> CHR ''='') a)"

lemma run_option_strings: "option_strings run_parser_spec = [(''--devkit-log-file'', log_option)]"
  by (simp add: option_strings_def run_parser_spec_def log_option_def opt1_def)

lemma split_once_absent: "d \<notin> set s \<Longrightarrow> split_once d s = (s, [])"
  by (induction s) (auto simp: split_once_def)

lemma run_token:
  "\<exists>t. parse_optional run_parser_spec a = Inr t \<and> is_opt t = log_abbrev a \<and> (\<not> is_opt t \<longrightarrow> token_text t = a)"
proof -
  let ?l = "''--devkit-log-file''" and ?p = "takeWhile (\<lambda>c. c \<noteq> CHR ''='') a"
  have self: "log_abbrev ?l" "startswith ?l ?l" by code_simp+
  have sp: "fst (split_once (CHR ''='') a) = ?p" by (simp add: split_once_def)
  show ?thesis
  proof (cases "a = ?l")
    case True
    then show ?thesis using self by (simp add: parse_optional_def run_option_strings startswith_def)
  next
    case nl: False
    show ?thesis
    proof (cases "startswith a ''--''")
      case True
      then have "startswith a ''-''" "a \<noteq> ''-''" by (auto simp: startswith_iff)
      with True nl sp self show ?thesis
        by (auto simp: parse_optional_def run_option_strings option_tuples_def log_abbrev_def)
    next
      case False
      then have "\<not> log_abbrev a" by (simp add: log_abbrev_def)
      moreover have "?p \<noteq> ?l"
      proof
        assume "?p = ?l"
        then have "a = ?l @ dropWhile (\<lambda>c. c \<noteq> CHR ''='') a" by (metis takeWhile_dropWhile_id)
        then have "startswith a ''--''" unfolding startswith_iff by (metis append_Cons append_Nil)
        with False show False ..
      qed
      moreover have "length (take 2 a) \<noteq> length ?l" by simp
      then have "take 2 a \<noteq> ?l" by metis
      moreover have "\<not> startswith ?l a" if "startswith a ''-''" "a \<noteq> ''-''"
        using that False by (auto simp: startswith_iff Cons_eq_append_conv)
      ultimately show ?thesis using nl sp False
        by (auto simp: parse_optional_def run_option_strings option_tuples_def)
    qed
  qed
qed

text \<open>The command of the user: tokens, and what is left over.\<close>

lemma run_tokens:
  "\<exists>ts. tokens run_parser_spec us = Inr ts \<and> length ts = length us \<and>
     (list_ex is_opt ts \<longleftrightarrow> list_ex log_abbrev (takeWhile (\<lambda>a. a \<noteq> ''--'') us)) \<and>
     (\<not> list_ex is_opt ts \<longrightarrow> map token_text ts = us)"
proof (induction us)
  case (Cons a us)
  show ?case
  proof (cases "a = ''--''")
    case True
    have "\<not> list_ex is_opt (map TArg us)" "map (token_text \<circ> TArg) us = us"
      by (auto simp: list_ex_iff comp_def)
    with True show ?thesis by simp
  next
    case False
    from Cons run_token [of a] False show ?thesis by auto
  qed
qed simp

lemma log_option_takes_value: "\<not> takes_no_value log_option"
  by (simp add: takes_no_value_def log_option_def opt1_def)

lemma run_tokens_mem: "tokens run_parser_spec us = Inr ts \<Longrightarrow> TOpt opt s ex \<in> set ts \<Longrightarrow> \<not> takes_no_value opt"
  using tokens_mem [of run_parser_spec us ts opt s ex] log_option_takes_value by (auto simp: run_parser_spec_def)

text \<open>The command line of \<^verbatim>\<open>build_and_run\<close>: the log file, then the image and the command.\<close>

lemma run_parsed:
  assumes "\<not> startswith log_file ''-''"
  shows "parse_known_args run_parser_spec (''--devkit-log-file'' # log_file # us) =
    res_bind (tokens run_parser_spec us) (\<lambda>ts.
      consume run_parser_spec ts (parse_init\<lparr>ps_values := [(''--devkit-log-file'', [log_file])]\<rparr>))"
proof -
  have o: "parse_optional run_parser_spec ''--devkit-log-file'' = Inr (TOpt log_option ''--devkit-log-file'' None)"
    by (simp add: parse_optional_def run_option_strings startswith_def)
  have "tokens run_parser_spec (''--devkit-log-file'' # log_file # us) =
      res_bind (tokens run_parser_spec us) (\<lambda>ts. Inr (TOpt log_option ''--devkit-log-file'' None # TArg log_file # ts))"
    using o plain_token [OF assms] by (cases "tokens run_parser_spec us") auto
  moreover have "consume run_parser_spec (TOpt log_option ''--devkit-log-file'' None # TArg log_file # ts) parse_init =
      consume run_parser_spec ts (parse_init\<lparr>ps_values := [(''--devkit-log-file'', [log_file])]\<rparr>)" for ts
    by (subst consume.simps)
      (simp add: consume_optional.simps match_argument_def log_option_def opt1_def any_text_def parse_init_def)
  moreover have "res_bind r (\<lambda>st. if list_all (\<lambda>opt. o_required opt \<longrightarrow> o_dest opt \<in> fst ` set (ps_values st))
      (ap_options run_parser_spec) then Inr st else usage_error) = r" for r :: "parse_state res"
    by (cases r) (simp_all add: run_parser_spec_def log_option_def opt1_def)
  ultimately show ?thesis by (cases "tokens run_parser_spec us") (simp_all add: parse_known_args_def)
qed

lemma in_world_return [simp]: "in_world (io_return x) = io_return x"
  by (auto simp: in_world_def io_return_def)

lemma run_extras:
  fixes log_file :: string and us :: "string list"
  assumes "\<not> startswith log_file ''-''"
  defines "argv \<equiv> ''--devkit-log-file'' # log_file # us"
  shows "if list_ex log_abbrev (takeWhile (\<lambda>a. a \<noteq> ''--'') us)
    then (case parse_known_args run_parser_spec argv of
        Inl e \<Rightarrow> e = SystemExit 2 | Inr st \<Rightarrow> length (ps_extras st) < length us)
    else parse_known_args run_parser_spec argv =
      Inr \<lparr>ps_values = [(''--devkit-log-file'', [log_file])], ps_rest = None, ps_extras = us\<rparr>"
proof -
  let ?st = "parse_init\<lparr>ps_values := [(''--devkit-log-file'', [log_file])]\<rparr>"
  obtain ts where ts: "tokens run_parser_spec us = Inr ts" "length ts = length us"
    "list_ex is_opt ts \<longleftrightarrow> list_ex log_abbrev (takeWhile (\<lambda>a. a \<noteq> ''--'') us)"
    "\<not> list_ex is_opt ts \<Longrightarrow> map token_text ts = us" using run_tokens [of us] by blast
  have p: "parse_known_args run_parser_spec argv = consume run_parser_spec ts ?st"
    unfolding argv_def run_parsed [OF assms(1)] ts(1) by simp
  have np: "\<not> ap_positionals run_parser_spec" by (simp add: run_parser_spec_def)
  have nh: "list_all (\<lambda>opt. o_act opt \<noteq> ShowHelp) (ap_options run_parser_spec)"
    by (simp add: run_parser_spec_def log_option_def opt1_def)
  show ?thesis
  proof (cases "list_ex is_opt ts")
    case True
    then have "length (ps_extras st) < length us" if "consume run_parser_spec ts ?st = Inr st" for st
      using consume_extras [OF that np run_tokens_mem [OF ts(1)]] ts(2) by (simp add: parse_init_def)
    moreover have "e = SystemExit 2" if "consume run_parser_spec ts ?st = Inl e" for e
      using parse_known_error_no_help [OF _ nh, of argv e] that p by simp
    ultimately show ?thesis using True ts(3) p by (auto split: sum.split)
  next
    case False
    then have "list_all (\<lambda>t. \<not> is_opt t) ts" by (auto simp: list_ex_iff list_all_iff)
    from consume_unknown [OF np this, of ?st] False ts(3,4) p show ?thesis by (simp add: parse_init_def)
  qed
qed

section \<open>Writing the arguments of docker_cleanup.py\<close>

definition cleanup_settings :: "cleanup_args \<Rightarrow> (string \<times> string) list" where
  "cleanup_settings a =
     (''--config-path'', path_str (ca_config_path a)) # map (\<lambda>p. (''--search-path'', path_str p)) (ca_search_paths a) @
     [(''--batch-size'', show_int (ca_batch_size a)), (''--threshold-days'', show_int (ca_threshold_days a))]"

lemma to_path_path_str: "path_wf p \<Longrightarrow> to_path (path_str p) = p"
proof -
  assume wf: "path_wf p"
  obtain r cs where p: "p = PPath r cs" by (cases p)
  have r: "r \<in> {[], ''/'', ''//''}" and cs: "\<And>c. c \<in> set cs \<Longrightarrow> c \<noteq> [] \<and> c \<noteq> ''.'' \<and> CHR ''/'' \<notin> set c"
    using wf by (auto simp: p path_wf_def list_all_iff)
  show ?thesis
  proof (cases cs)
    case Nil
    have "to_path ''.'' = PPath [] []" "to_path ''/'' = PPath ''/'' []" "to_path ''//'' = PPath ''//'' []"
      by code_simp+
    then show ?thesis using r p Nil by (auto simp: path_str_def)
  next
    case (Cons c cs')
    have s: "split_on (CHR ''/'') (join ''/'' cs) = cs" by (rule split_on_join) (use cs Cons in auto)
    obtain x xs where c: "c = x # xs" "x \<noteq> CHR ''/''" using cs [of c] Cons by (cases c) auto
    then obtain t where j: "join ''/'' cs = x # t" using Cons by (cases cs') auto
    have f: "filter (\<lambda>c. c \<noteq> [] \<and> c \<noteq> ''.'') cs = cs" using cs by (simp add: filter_id_conv)
    from r show ?thesis
      using s f c(2) by (auto simp: p path_str_def Cons [symmetric] to_path_def path_comps_def path_root_def j startswith_def)
  qed
qed

lemma cleanup_parser_ok: "parser_ok cleanup_parser"
  by code_simp

text \<open>
  Any arguments of the cleanup can be written as a command line: \<^verbatim>\<open>main\<close> then runs with exactly these.
\<close>

lemma cleanup_command_line_roundtrip:
  assumes "path_wf (ca_config_path a)" and "list_all path_wf (ca_search_paths a)" and "ca_search_paths a \<noteq> []"
  shows "\<exists>st. parse_args cleanup_parser (map setting_arg (cleanup_settings a)) = Inr st \<and> cleanup_args_of st = a"
proof -
  let ?st = "settings_state cleanup_parser (cleanup_settings a)"
  have o: "map_of (option_strings cleanup_parser) ''--config-path'' = Some (opt1 ''--config-path'' Store any_text True)"
    "map_of (option_strings cleanup_parser) ''--search-path'' = Some (opt1 ''--search-path'' AppendOne any_text True)"
    "map_of (option_strings cleanup_parser) ''--batch-size'' = Some (opt1 ''--batch-size'' Store int_text False)"
    "map_of (option_strings cleanup_parser) ''--threshold-days'' = Some (opt1 ''--threshold-days'' Store int_text False)"
    by (simp_all add: option_strings_def cleanup_parser_def help_option_def log_option_def opt1_def)
  have k: "list_all (setting_ok cleanup_parser) (cleanup_settings a)"
    by (auto simp: cleanup_settings_def setting_ok_def option_of_def o opt1_def takes_no_value_def any_text_def
        int_text_def list_all_iff)
  have v: "ps_values ?st = (''--config-path'', [path_str (ca_config_path a)]) #
      map (\<lambda>p. (''--search-path'', [path_str p])) (ca_search_paths a) @
      [(''--batch-size'', [show_int (ca_batch_size a)]), (''--threshold-days'', [show_int (ca_threshold_days a)])]"
    by (simp add: settings_state_def cleanup_settings_def option_of_def o opt1_def)
  have "{''--config-path'', ''--search-path''} \<subseteq> fst ` set (ps_values ?st)"
    using assms(3) by (cases "ca_search_paths a") (auto simp: v)
  then have "list_all (\<lambda>opt. o_required opt \<longrightarrow> o_dest opt \<in> fst ` set (ps_values ?st)) (ap_options cleanup_parser)"
    by (subst cleanup_parser_def) (simp add: help_option_def log_option_def opt1_def)
  note parsed = parse_settings [OF cleanup_parser_ok k this]
  have last: "map_of (rev (map (\<lambda>p. (''--search-path'', [path_str p])) ps)) s = None"
    if "s \<noteq> ''--search-path''" for s ps
    using that by (auto simp: map_of_eq_None_iff)
  have "concat (map snd (filter (\<lambda>(k, vs). k = ''--search-path'') (map (\<lambda>p. (''--search-path'', [path_str p])) ps))) =
      map path_str ps" for ps
    by (induction ps) auto
  moreover have "map (to_path \<circ> path_str) (ca_search_paths a) = ca_search_paths a"
    using assms(2) by (intro map_idI) (auto simp: list_all_iff to_path_path_str)
  ultimately have "cleanup_args_of ?st = a"
    by (simp add: cleanup_args_of_def arg_or_def int_or_def arg_value_def arg_last_def arg_all_def v map_add_def last
        to_path_path_str [OF assms(1)])
  with parsed show ?thesis by blast
qed

text \<open>What happens before \<open>docker_run_main\<close> runs no program.\<close>

lemma in_world_no_execs:
  assumes "in_world m s = (r, s')" and "\<And>w. execs (w_trace (snd (m w))) = execs (w_trace w)"
  shows "execs (w_trace (s_world s')) = execs (w_trace (s_world s))"
  using assms by (cases "m (s_world s)") (auto simp: in_world_def, metis snd_conv)

lemma no_execs:
  "execs (w_trace (snd (ensure_cloudsdk_python_is_set w))) = execs (w_trace w)"
  "execs (w_trace (snd (run_parser msg p argv w))) = execs (w_trace w)"
  "execs (w_trace (snd (basic_config lf w))) = execs (w_trace w)"
proof -
  show "execs (w_trace (snd (ensure_cloudsdk_python_is_set w))) = execs (w_trace w)"
    by (subst ensure_cloudsdk_world) simp
  show "execs (w_trace (snd (run_parser msg p argv w))) = execs (w_trace w)"
    by (cases p) (simp_all add: io_return_def)
  show "execs (w_trace (snd (basic_config lf w))) = execs (w_trace w)"
    using basic_config_cases [of lf w] by (metis prod.collapse)
qed

lemma docker_run_script_cases:
  fixes s :: session
  obtains (early) e s' where "docker_run_script msg run order serve h d argv s = (Inl e, s')"
      and "execs (w_trace (s_world s')) = execs (w_trace (s_world s))"
  | (parsed) us s1 where "docker_run_script msg run order serve h d argv s = docker_run_main run order serve h d us s1"
      and "execs (w_trace (s_world s1)) = execs (w_trace (s_world s))"
proof -
  obtain r s' where r: "docker_run_script msg run order serve h d argv s = (r, s')" by fastforce
  then show thesis unfolding docker_run_script_def
  proof (cases rule: io_bindE)
    case (raised e)
    from in_world_no_execs [OF raised(1) no_execs(1)] raised(2) r show thesis by (intro early [of e s']) auto
  next
    case (returned _ s1)
    note n1 = in_world_no_execs [OF returned(1) no_execs(1)]
    from returned(2) show thesis
    proof (cases rule: io_bindE)
      case (raised e)
      from in_world_no_execs [OF raised(1) no_execs(2)] raised(2) n1 r show thesis by (intro early [of e s']) auto
    next
      case (returned st s2)
      note n2 = in_world_no_execs [OF returned(1) no_execs(2)]
      from returned(2) show thesis
      proof (cases rule: io_bindE)
        case (raised e)
        from in_world_no_execs [OF raised(1) no_execs(3)] raised(2) n1 n2 r show thesis by (intro early [of e s']) auto
      next
        case (returned _ s3)
        from in_world_no_execs [OF returned(1) no_execs(3)] returned(2) n1 n2 r show thesis by (intro parsed [of "ps_extras st" s3]) auto
      qed
    qed
  qed
qed

section \<open>Properties\<close>


definition demo_tag_argv :: "string list" where
  "demo_tag_argv = build_and_run_argv ''base'' ''/i'' ''/l'' ''/c.json''"





text \<open>
  C25: A run of \<^verbatim>\<open>docker_run.py\<close>, from its command line on, never ends normally (it exits or raises). If it ran
  docker at all, both background threads are cancelled at its end: the event of the cleanup is set, and the
  listener is in a reachable state of the event handler after \<^verbatim>\<open>set()\<close>, from where it makes at most
  four more steps, whatever it had done in the meantime.
\<close>

theorem docker_run_cancels_threads:
  assumes "thread_steps start_time serve"
    and "docker_run_script msg run order serve h scripts_dir argv s = (r, s')"
  shows "(\<exists>e. r = Inl e) \<and>
    (list_all (\<lambda>c. hd c \<noteq> ''docker'') (drop (length (execs (w_trace (s_world s)))) (execs (w_trace (s_world s')))) \<or>
     (\<exists>json. s_cleanup s' = CleanupCancelled (background_cleanup_args json scripts_dir)) \<and>
     (\<exists>l. s_listener s' = Some l \<and> handler_reachable start_time l \<and> l_canceller l = CancelDone \<and>
        (\<forall>n l'. (container_event_listener start_time ^^ n) l l' \<longrightarrow> n \<le> 4)))"
proof (cases rule: docker_run_script_cases [of msg run order serve h scripts_dir argv s])
  case (early e s1)
  then show ?thesis using assms(2) by simp
next
  case (parsed us s1)
  then show ?thesis using threads_cancelled_with_container [OF assms(1), of run order h scripts_dir us s1 r s'] assms(2) by simp
qed

theorem docker_run_cancels_threads_witness:
  "thread_steps None (\<lambda>_ l. l) \<and>
   (\<exists>e s'. docker_run_script (\<lambda>_. []) demo_programs id (\<lambda>_ l. l) demo_host (to_path ''/s'') [''img''] demo_session =
      (Inl e, s'))"
proof -
  have "thread_steps None (\<lambda>_ l. l)" by (simp add: thread_steps_def)
  moreover obtain r s' where
    "docker_run_script (\<lambda>_. []) demo_programs id (\<lambda>_ l. l) demo_host (to_path ''/s'') [''img''] demo_session = (r, s')"
    by fastforce
  ultimately show ?thesis using docker_run_cancels_threads by blast
qed

end
