(* ===== verification/Spec2Isabelle.thy ===== *)
theory Spec2Isabelle
  imports Docker_Cleanup_Spec Lcov_Roundtrip External_Mounts_Spec Event_Handler_Spec Cert_Tool_Spec Bep_Spec
    Bootstrap_Spec Docker_Run_Spec Command_Line_Spec
begin

text \<open>
  The Python programs of the repository: the DevKit scripts and the certificate tool.

  \<^bold>\<open>The programs.\<close> The repository holds a certificate authority service (Java), its API, container
  tools and, as the tooling all of these are built and run with, the DevKit: Python scripts under
  \<^verbatim>\<open>.devkit/scripts\<close>. The scripts are vendored four times, byte for byte the same, under \<^verbatim>\<open>src/.devkit\<close>,
  \<^verbatim>\<open>src/api/.devkit\<close>, \<^verbatim>\<open>src/container-tools/.devkit\<close> and \<^verbatim>\<open>src/mbs/.devkit\<close>; a definition models all copies. One
  more script, \<^verbatim>\<open>src/tools/issue_certificate_response_to_der.py\<close>, works on answers of the service.

  \<^item> \<^verbatim>\<open>docker/build.py\<close> reads \<^verbatim>\<open>devkit.json\<close> and the \<^verbatim>\<open>deps.json\<close> files, orders the images by their
    dependencies, computes content-addressed tags and builds, pulls or pushes the images.
  \<^item> \<^verbatim>\<open>docker_cleanup.py\<close> removes old images in a background thread, except the ones whose tags
    \<^verbatim>\<open>build.py\<close> computes for the current state of the project.
  \<^item> \<^verbatim>\<open>docker_run.py\<close> runs a container: it finds the project (\<^verbatim>\<open>find_project_root.py\<close>), collects what to
    mount (\<^verbatim>\<open>list_external_mounts.py\<close>), starts the cleanup and the listener for events of the container
    (\<^verbatim>\<open>container_event_handler.py\<close>), runs docker and cancels both threads.
  \<^item> \<^verbatim>\<open>coverage_report.py\<close>, \<^verbatim>\<open>bep.py\<close> and \<^verbatim>\<open>bootstrap.py\<close> are command line tools: a coverage check, build
    event files of Bazel, and new projects from templates.

  \<^bold>\<open>The base.\<close>
  \<^item> \<open>Py_Prelude\<close>: exceptions as values (\<open>exn\<close>), results \<open>'a res\<close>, the state and exception monad \<open>io\<close>,
    dictionaries as association lists, and the locale \<open>state_rel\<close> of relations that effects keep.
  \<^item> \<open>Py_Text\<close>, \<open>Py_Regex\<close>, \<open>Py_Shell\<close>, \<open>Py_Float\<close>, \<open>Py_Json\<close>: strings, the used part of \<^verbatim>\<open>re\<close>, \<^verbatim>\<open>shlex.split\<close>
    and \<^verbatim>\<open>expandvars\<close>, binary64, JSON values and their dynamically typed operations.
  \<^item> \<open>Py_Path\<close>, \<open>Py_Walk\<close>, \<open>Py_Files\<close>: paths, a file system with links and the kernel's path walk, \<^verbatim>\<open>os.walk\<close>,
    changes of the file system.
  \<^item> \<open>Py_World\<close>: the world of a script (files, working directory, environment, trace of outputs and
    commands) and external programs as the parameter \<open>run\<close>.
  \<^item> \<open>Py_Argparse\<close>: the used part of \<^verbatim>\<open>argparse\<close> as it works in Python 3.11 and 3.12 (classification of the
    arguments, abbreviations, consumption, type checks, required options) and the opening of a log file.
    Failing parsers exit with 0 or 2, results fit the parser, and every value can be written as an option.
  \<^item> \<open>Sha256\<close>, \<open>Topo_Sort\<close>: the hash and \<^verbatim>\<open>graphlib.TopologicalSorter\<close>, with the locales \<open>hex_digest\<close> and
    \<open>dependency_sorter\<close> that state what the scripts rely on.

  \<^bold>\<open>The components.\<close> A theory with the definitions, in the order of the code, and mostly a second
  one, \<open>..._Spec\<close>, with the properties.
  \<^item> \<open>Docker_Config\<close> (schema, \<open>validate_config\<close>, registry settings), \<open>Docker_Tags\<close> (\<^verbatim>\<open>DockerBuilder\<close>, build
    order, tags), \<open>Docker_Images\<close> (docker commands, \<open>build_images\<close>, \<open>build_main\<close>). Properties: validation
    decides the schema; \<open>Docker_Load\<close>: a constructed builder is well formed; \<open>Docker_Order\<close>: the order is
    exact and fails exactly on cycles; \<open>Docker_Tag_Spec\<close>: the memoised recursion implements the
    relation \<open>image_tag\<close> and never recurses deeply; \<open>Docker_Images_Spec\<close>: the images are there afterwards,
    local runs stay local, failures give exit codes (locale \<open>docker_client\<close>).
  \<^item> \<open>Docker_Cleanup\<close>, \<open>Docker_Cleanup_Spec\<close>: candidates, batches and cancellation (locale \<open>image_remover\<close>);
    only stale images are removed, all of them when nobody cancels.
  \<^item> \<open>Find_Root\<close>: the nearest project directory.
  \<^item> \<open>External_Mounts\<close>, \<open>External_Mounts_Spec\<close>: the worklist scan terminates and finds exactly the inductive
    closure \<open>ext_mount\<close>; minimal mounts (locale \<open>minimizer\<close>).
  \<^item> \<open>Event_Handler\<close>, \<open>Event_Handler_Spec\<close>: the listener thread, the caller of \<^verbatim>\<open>set()\<close> and the network as
    interleaved steps; invariant, end of the thread after a cancellation, what one event can do.
  \<^item> \<open>Docker_Run\<close>, \<open>Docker_Run_Spec\<close>: the command line of \<^verbatim>\<open>docker run\<close>, the session with its two threads, and
    that they are cancelled with the container.
  \<^item> \<open>Coverage_Report\<close>, \<open>Coverage_Spec\<close>, \<open>Lcov_Roundtrip\<close>: the lcov parser, the table and the verdict; the
    parser inverts the tracefile format, and the script exits with 1 exactly below a target.
  \<^item> \<open>Bep\<close>, \<open>Bep_Spec\<close>; \<open>Bootstrap\<close>, \<open>Bootstrap_Spec\<close>; \<open>Cert_Tool\<close>, \<open>Cert_Tool_Spec\<close>: one Bazel run per target; the
    rendered tree; Base64 back to the encoded bytes.
  \<^item> \<open>Command_Line\<close>, \<open>Command_Line_Spec\<close>: the parser of each script and each \<^verbatim>\<open>main\<close> from its argument list on
    (\<open>build_script\<close>, \<open>docker_run_script\<close>, \<open>bep_script\<close> and so on): what \<^verbatim>\<open>scripts/build_and_run\<close> reads from
    \<^verbatim>\<open>build.py\<close>, when the user's command reaches docker unchanged, what a bad command line does.
  \<^item> This theory: properties that span components, such as that a cleanup leaves the images of a
    build in place and that what the links of a project lead to is mounted into the container.

  \<^bold>\<open>Conventions.\<close>
  \<^item> A Python \<^verbatim>\<open>str\<close> is its UTF-8 encoding, one character per byte. Floats are binary64 values as
    rationals without a signed zero. \<^verbatim>\<open>int()\<close> accepts ASCII digits.
  \<^item> A \<open>..._main\<close> starts from parsed arguments (a record with the fields of the parser), a \<open>..._script\<close> from the
    list of arguments. The text of help and usage messages is the parameter \<open>msg\<close>. A log file is
    opened, what is logged is left out, except in the event handler, where the log is what the user sees.
  \<^item> docker, git, bazel and xhost are the parameter \<open>run\<close>, which may change the files; what a theorem
    uses of them is a named hypothesis (\<open>docker_daemon\<close>, \<open>rmi_spares\<close>, \<open>files_kept\<close>, \<open>never_interrupted\<close>).
    Jinja2 is a record of functions, the text of an exception a function \<open>err\<close>.
  \<^item> The iteration order of a Python set is a parameter (\<open>so\<close>, \<open>pop\<close>, \<open>order\<close>). The cancel event of the
    cleanup is a function of the number of looks at it; waiting times are not modelled.
  \<^item> Python's recursion limit is a bound that raises \<open>RecursionError\<close>; two frames are shown to be
    enough. Every other loop terminates by a measure; the kernel follows at most 40 links.
  \<^item> The file system does not change while it is scanned, new files get mode 0644, and \<^verbatim>\<open>realpath\<close> is the
    algorithm of Python 3.13. \<^verbatim>\<open>deps.json\<close> with a dependency that is not a string raises the TypeError
    when it is read rather than when the value is first used.

  \<^bold>\<open>Not modelled.\<close> The contents of log files and the layout of help texts; time; a template directory
  that contains the destination of a bootstrap run; the Java, C++ and Rust programs, shell entry
  points and build files of the repository.
\<close>

section \<open>Properties that span components\<close>


definition demo_paths :: run_paths where
  "demo_paths =
     \<lparr>host_root = to_path ''/p'', container_root = to_path ''/p'', command_root = to_path ''/p'',
      host_home = to_path ''/home/a'', command_home = to_path ''/home/b'', container_home = to_path ''/home/c'',
      host_tmp = to_path ''/tmp'', container_tmp = to_path ''/tmp''\<rparr>"

definition demo_user :: user_info where
  "demo_user = \<lparr>user_name = ''b'', user_id = 1000, group_name = ''b'', group_id = 1000\<rparr>"


lemma wanted_all: "wanted b targets \<subseteq> wanted b []"
proof
  fix n
  assume "n \<in> wanted b targets"
  then have "n \<in> fst ` set (b_images b) \<or> (\<exists>t. (n, t) \<in> (depends (b_images b))\<^sup>+)"
    by (auto simp: wanted_def split: if_splits)
  moreover have "(n, t) \<in> (depends (b_images b))\<^sup>+ \<Longrightarrow> n \<in> Domain (depends (b_images b))" for t
    by (auto dest: tranclD)
  ultimately show "n \<in> wanted b []" by (auto simp: wanted_def)
qed

lemma current_tags_complete:
  assumes "set_order_ok so" and "docker_builder fs cwd config_path search_paths = Inr b"
    and "get_all_docker_image_tags limit so pop fs cwd config_path search_paths [] = Inr current"
    and "n \<in> wanted b targets" and "image_tag fs cwd b n t"
  shows "t \<in> set current"
proof -
  have "calculate_tags limit so pop fs cwd [] b [] = Inr current"
    using assms(2,3) by (simp add: get_all_docker_image_tags_def)
  from calculate_tags_sound [OF demo_memo this] obtain xs where
    xs: "get_build_order so pop [] b = Inr xs" and tags: "list_all2 (image_tag fs cwd b) xs current" .
  have "n \<in> set xs"
    using assms(4) wanted_all get_build_order_sound(2) [OF assms(1) docker_builder_ok(2) [OF assms(2)] xs] by blast
  then obtain t' where "t' \<in> set current" "image_tag fs cwd b n t'"
    using tags by (metis in_set_conv_nth list_all2_conv_all_nth)
  with image_tag_functional [OF assms(5)] show ?thesis by blast
qed

text \<open>
  C2: A cleanup that runs after a build leaves the images of the build in place: whatever part of the
  cleanup is carried out or cancelled, every image of the run is still available under its tag.
  The cleanup has the configuration and the search paths of the build, and the tags of the current
  images can be calculated. Of docker it is used that \<^verbatim>\<open>rmi\<close> takes away nothing but the named tag.
\<close>

theorem built_images_survive_cleanup:
  assumes "rmi_spares run P" and "files_kept run" and "set_order_ok so" and "set_order_ok so'"
    and "docker_builder (w_fs w) (w_cwd w) (ca_config_path args) (ca_search_paths args) = Inr b"
    and "build_images run limit so pop b targets False no_cache local_flag [] w = (Inr tags, w1)"
    and "get_all_docker_image_tags limit' so' pop' (w_fs w) (w_cwd w) (ca_config_path args) (ca_search_paths args) [] =
      Inr current"
    and "start_background_cleanup run polls limit' so' pop' args cancel (w1, k) = (r, (w2, k'))"
  shows "wanted b targets \<subseteq> {n. \<exists>t. image_tag (w_fs w) (w_cwd w) b n t \<and> t \<in> P w2}"
proof
  fix n
  assume n: "n \<in> wanted b targets"
  have "docker_daemon run P" using assms(1) by (simp add: rmi_spares_def)
  from build_images_present [OF this assms(2,3) docker_builder_ok(2) [OF assms(5)] assms(6) n] obtain t where
    t: "image_tag (w_fs w) (w_cwd w) b n t" "t \<in> P w1" by blast
  have s: "w_fs w1 = w_fs w" "w_cwd w1 = w_cwd w" using build_images_site [OF assms(2,6)] by auto
  have "images_spared run P (set current) w1 w2"
  proof (rule spared.cleanup_related [OF assms(8) [unfolded start_background_cleanup_def] refl])
    fix xs w3 img
    assume "get_images_to_cleanup run limit' so' pop' (ca_config_path args) (ca_search_paths args)
        (ca_threshold_days args) w1 = (Inr xs, w3)" and "img \<in> set xs"
    from get_images_to_cleanup_result [OF assms(2) this] show "img \<notin> set current"
      by (simp add: not_current_def s assms(7))
  qed
  with assms(1) t(2) current_tags_complete [OF assms(4,5,7) n t(1)] have "t \<in> P w2"
    by (auto simp: images_spared_def)
  with t(1) show "n \<in> {n. \<exists>t. image_tag (w_fs w) (w_cwd w) b n t \<and> t \<in> P w2}" by blast
qed

text \<open>A repository with one image.\<close>

definition demo_repo :: world where
  "demo_repo = \<lparr>w_fs = [([''w''], Dir), ([''w'', ''images''], Dir),
       ([''w'', ''images'', ''deps.json''], File (map (\<lambda>c. if c = CHR ''!'' then CHR 0x22 else c) ''{!base!: {!deps!: {}}}'') 420),
       ([''w'', ''images'', ''base.Dockerfile''], File ''FROM debian'' 420)],
     w_cwd = [''w''], w_env = [], w_trace = []\<rparr>"

definition demo_repo_builder :: builder where
  "demo_repo_builder = (new_builder (to_path ''devkit.json'') [to_path ''images''])\<lparr>b_images := [(''base'', JObj [(''deps'', JObj [])])]\<rparr>"

definition demo_repo_args :: cleanup_args where
  "demo_repo_args = \<lparr>ca_config_path = to_path ''devkit.json'', ca_search_paths = [to_path ''images''],
     ca_batch_size = 4, ca_threshold_days = 7\<rparr>"

lemma demo_repo_facts:
  "docker_builder (w_fs demo_repo) (w_cwd demo_repo) (to_path ''devkit.json'') [to_path ''images''] = Inr demo_repo_builder"
  "get_build_order remdups hd [] demo_repo_builder = Inr [''base'']"
  "find_dockerfile (w_fs demo_repo) (w_cwd demo_repo) [to_path ''images''] ''base'' = Some (to_path ''images/base.Dockerfile'')"
  "read_bytes (w_fs demo_repo) (w_cwd demo_repo)
     (realpath (w_fs demo_repo) (w_cwd demo_repo) (to_path ''images/base.Dockerfile'')) = Inr ''FROM debian''"
  by code_simp+

lemma demo_repo_parts:
  "b_search_paths demo_repo_builder = [to_path ''images'']" "b_repo demo_repo_builder = []"
  "b_images demo_repo_builder = [(''base'', JObj [(''deps'', JObj [])])]" "extra_args demo_repo_builder ''base'' = []"
  by (simp_all add: demo_repo_builder_def new_builder_def extra_args_def)

lemma demo_repo_tag:
  "\<exists>t. calculate_tag_for_image 2 (w_fs demo_repo) (w_cwd demo_repo) demo_repo_builder ''base'' [] = Inr (t, [(''base'', t)])"
  unfolding numeral_2_eq_2 calculate_tag_unfold
  by (simp add: demo_repo_parts demo_repo_facts dict_item_def conf_deps_def dep_tag_loop_simps calculate_sha256_def)

lemma demo_repo_build:
  "\<exists>tags w'. build_images demo_docker 2 remdups hd demo_repo_builder [] False False False [] demo_repo = (Inr tags, w')"
proof -
  obtain t where t: "calculate_tag_for_image 2 (w_fs demo_repo) (w_cwd demo_repo) demo_repo_builder ''base'' [] =
      Inr (t, [(''base'', t)])" using demo_repo_tag by blast
  have "\<exists>w'. process_image demo_docker demo_repo_builder False False ''base'' t [(''base'', t)] demo_repo = (Inr (), w')"
    by (simp add: process_image_def dict_item_def demo_repo_parts demo_repo_facts io_bind_def io_lift_def io_return_def
        query_def conf_deps_def build_args_for_manage_def manage_docker_image_def io_catch_def
        check_if_image_exists_locally_def build_image_def run_checked_def run_unchecked_def demo_docker_def
        inspect_cmd_def print_to_def docker_build_cmd_def Let_def)
  then show ?thesis
    by (auto simp: build_images_def demo_repo_facts query_res_bind t io_bind_apply io_return_def)
qed

lemma demo_repo_current:
  "\<exists>t. get_all_docker_image_tags 2 remdups hd (w_fs demo_repo) (w_cwd demo_repo) (to_path ''devkit.json'')
     [to_path ''images''] [] = Inr [t]"
  using demo_repo_tag
  by (auto simp: get_all_docker_image_tags_def calculate_tags_def demo_repo_facts calculate_tags_loop_simps dict_item_def)

lemma demo_docker_spares: "rmi_spares demo_docker made"
proof -
  have "w_trace (ran demo_docker w cmd) = w_trace w @ [Exec cmd]" for w cmd
    by (simp add: ran_def run_unchecked_def demo_docker_def)
  then have "made w \<subseteq> made (ran demo_docker w cmd)" "made w \<subseteq> made (snd (terminate cmd w))" for w cmd
    unfolding made_def by (simp_all add: terminate_def) blast
  then show ?thesis unfolding rmi_spares_def using demo_docker_daemon by blast
qed

theorem built_images_survive_cleanup_witness:
  "\<exists>w2. wanted demo_repo_builder [] \<subseteq>
     {n. \<exists>t. image_tag (w_fs demo_repo) (w_cwd demo_repo) demo_repo_builder n t \<and> t \<in> made w2}"
proof -
  obtain tags w1 where b: "build_images demo_docker 2 remdups hd demo_repo_builder [] False False False [] demo_repo =
      (Inr tags, w1)" using demo_repo_build by blast
  obtain t where c: "get_all_docker_image_tags 2 remdups hd (w_fs demo_repo) (w_cwd demo_repo)
      (ca_config_path demo_repo_args) (ca_search_paths demo_repo_args) [] = Inr [t]"
    using demo_repo_current by (auto simp: demo_repo_args_def)
  obtain r w2 k' where "start_background_cleanup demo_docker (\<lambda>_ _. 3) 2 remdups hd demo_repo_args (\<lambda>k. 5 < k) (w1, 0) =
      (r, (w2, k'))" by (metis prod.collapse)
  from built_images_survive_cleanup [OF demo_docker_spares demo_docker_files set_order_remdups set_order_remdups _ b c this]
  show ?thesis using demo_repo_facts(1) by (auto simp: demo_repo_args_def)
qed

end
